(* ===== verification/Go_Prelude.thy ===== *)
theory Go_Prelude
  imports Main "HOL-Library.Word"
begin

text \<open>
  What every component shares: the machine types of the Go program, panics as values, the
  sequencing of operations that may panic, Go's fixed-width signed arithmetic and Go's time.
  Nothing here is specific to the consensus protocol.
\<close>

section \<open>Collections of rules\<close>

named_theorems sequencing \<open>how a sequence of operations that may panic succeeds\<close>
named_theorems frame \<open>fields an operation leaves alone\<close>
named_theorems machine_defs \<open>the one-line state updates of the consensus state machine\<close>

section \<open>Machine types\<close>

type_synonym u8 = "8 word"
type_synonym u32 = "32 word"
type_synonym u64 = "64 word"
type_synonym bytes = "8 word list"

text \<open>\<open>common.Hash\<close> is a 32-byte array and \<open>common.Address\<close> a 20-byte array; the
  program compares them and uses the zero value, nothing else.\<close>

type_synonym hash = "256 word"
type_synonym address = "160 word"

text \<open>A Go \<open>int32\<close> or \<open>int64\<close> is an integer in the type's range; arithmetic on it is the
  integer operation followed by the two's complement wrap-around below.\<close>

definition i32 :: "int \<Rightarrow> int" where
  "i32 x = (x + 2 ^ 31) mod 2 ^ 32 - 2 ^ 31"

definition i64 :: "int \<Rightarrow> int" where
  "i64 x = (x + 2 ^ 63) mod 2 ^ 64 - 2 ^ 63"

definition is_i32 :: "int \<Rightarrow> bool" where
  "is_i32 x \<longleftrightarrow> - (2 ^ 31) \<le> x \<and> x < 2 ^ 31"

definition is_i64 :: "int \<Rightarrow> bool" where
  "is_i64 x \<longleftrightarrow> - (2 ^ 63) \<le> x \<and> x < 2 ^ 63"

lemma i32_id [simp]: "is_i32 x \<Longrightarrow> i32 x = x"
  by (simp add: i32_def is_i32_def)

lemma i64_id [simp]: "is_i64 x \<Longrightarrow> i64 x = x"
  by (simp add: i64_def is_i64_def)

lemma is_i32_i32 [simp]: "is_i32 (i32 x)"
  by (simp add: i32_def is_i32_def)

lemma is_i64_i64 [simp]: "is_i64 (i64 x)"
  by (simp add: i64_def is_i64_def)

text \<open>Go's integer division truncates towards zero.\<close>

definition go_div :: "int \<Rightarrow> int \<Rightarrow> int" where
  "go_div a b = sgn a * sgn b * (\<bar>a\<bar> div \<bar>b\<bar>)"

lemma go_div_nonneg: "0 \<le> a \<Longrightarrow> 0 < b \<Longrightarrow> go_div a b = a div b"
  by (cases "a = 0") (auto simp: go_div_def)

section \<open>Panics\<close>

text \<open>
  Every \<open>panic(...)\<close> of the program has a constructor of its own, so that a lemma can say
  which of them an operation can raise. \<open>NilDereference\<close> and \<open>DivideByZero\<close> are the
  runtime's panics and \<open>LibraryPanic\<close> one raised inside a package that is not part of the
  repository.
\<close>

datatype panic =
    NilDereference
  | DivideByZero
  | LibraryPanic
  | OverflowInt32
  | NoLastCommit
  | StateHeightMismatch
  | InconsistentLastBlockHeight
  | InconsistentInitialHeight
  | PrecommitsWithoutMajority
  | EmptyLastCommit
  | InvalidTimeoutStep
  | ProposalWithoutPrivValidator
  | PrevoteWaitWithoutTwoThirds
  | POLRoundTooSmall
  | PolkaForInvalidBlock
  | PrecommitWaitWithoutTwoThirds
  | CommitWithoutMajority
  | FinalizeHeightMismatch
  | FinalizeWithoutMajority
  | FinalizeWrongBlock
  | CommittedInvalidBlock
  | UnexpectedVoteType
  | ValidatorPowersMismatch
  | NonContiguousBlock
  | CorruptStore
  | KeyGenerationFailed
  | NodeKeyFailed
  | GossipSubFailed

type_synonym 'a res = "panic + 'a"

section \<open>Sequencing\<close>

fun andThen :: "'e + 'a \<Rightarrow> ('a \<Rightarrow> 'e + 'b) \<Rightarrow> 'e + 'b" where
  "andThen (Inl e) f = Inl e"
| "andThen (Inr x) f = f x"

lemma andThen_Inr [simp]: "andThen m Inr = m"
  by (cases m) auto

lemma andThen_eq_Inr [sequencing]:
  "andThen m f = Inr y \<longleftrightarrow> (\<exists>x. m = Inr x \<and> f x = Inr y)"
  by (cases m) auto

lemma andThen_eq_Inl:
  "andThen m f = Inl e \<longleftrightarrow> m = Inl e \<or> (\<exists>x. m = Inr x \<and> f x = Inl e)"
  by (cases m) auto

lemma andThen_assoc: "andThen (andThen m f) g = andThen m (\<lambda>x. andThen (f x) g)"
  by (cases m) auto

lemma andThen_cong [fundef_cong]:
  "m = m' \<Longrightarrow> (\<And>x. m' = Inr x \<Longrightarrow> f x = f' x) \<Longrightarrow> andThen m f = andThen m' f'"
  by (cases m') auto

lemma if_eq_Inr [sequencing]:
  "(if b then m else m') = Inr y \<longleftrightarrow> (b \<and> m = Inr y) \<or> (\<not> b \<and> m' = Inr y)"
  by simp

text \<open>A pointer that the code dereferences: \<open>nil\<close> is \<open>None\<close>, and dereferencing it panics.\<close>

fun deref :: "'a option \<Rightarrow> 'a res" where
  "deref None = Inl NilDereference"
| "deref (Some x) = Inr x"

lemma deref_eq_Inr [sequencing]: "deref p = Inr x \<longleftrightarrow> p = Some x"
  by (cases p) auto

section \<open>Operations and what they keep\<close>

text \<open>
  An operation on a state may panic; \<open>keeps I f\<close> says that wherever it does not, it takes a
  state with \<open>I\<close> to a state with \<open>I\<close>, and \<open>moves R f\<close> that it moves along the relation \<open>R\<close>.
\<close>

definition keeps :: "('s \<Rightarrow> bool) \<Rightarrow> ('s \<Rightarrow> 's res) \<Rightarrow> bool" where
  "keeps I f \<longleftrightarrow> (\<forall>s t. I s \<longrightarrow> f s = Inr t \<longrightarrow> I t)"

lemma keepsI: "(\<And>s t. I s \<Longrightarrow> f s = Inr t \<Longrightarrow> I t) \<Longrightarrow> keeps I f"
  by (simp add: keeps_def)

lemma keepsD: "keeps I f \<Longrightarrow> f s = Inr t \<Longrightarrow> I s \<Longrightarrow> I t"
  by (auto simp: keeps_def)

definition moves :: "('s \<Rightarrow> 's \<Rightarrow> bool) \<Rightarrow> ('s \<Rightarrow> 's res) \<Rightarrow> bool" where
  "moves R f \<longleftrightarrow> (\<forall>s t. f s = Inr t \<longrightarrow> R s t)"

lemma movesI: "(\<And>s t. f s = Inr t \<Longrightarrow> R s t) \<Longrightarrow> moves R f"
  by (simp add: moves_def)

lemma movesD: "moves R f \<Longrightarrow> f s = Inr t \<Longrightarrow> R s t"
  by (auto simp: moves_def)

lemma moves_andThen:
  assumes "transp R" and "moves R f" and "moves R g"
  shows "moves R (\<lambda>s. andThen (f s) g)"
  using assms by (auto simp: moves_def andThen_eq_Inr) (metis transpD)

section \<open>Time\<close>

text \<open>
  A Go \<open>time.Time\<close> (without monotonic reading) is the number of nanoseconds since the zero
  time, January 1, year 1 UTC, so \<open>IsZero\<close> is equality with 0; a \<open>time.Duration\<close> is an
  \<open>int64\<close> of nanoseconds and \<open>Sub\<close> saturates. The Unix epoch is 62135596800 seconds after
  the zero time.
\<close>

type_synonym gotime = int
type_synonym duration = int

definition time_Sub :: "gotime \<Rightarrow> gotime \<Rightarrow> duration" where
  "time_Sub t u = max (- (2 ^ 63)) (min (2 ^ 63 - 1) (t - u))"

definition UnixMilli :: "gotime \<Rightarrow> int" where
  "UnixMilli t = i64 (t div 1000000 - 62135596800000)"

text \<open>\<open>uint64(x)\<close> of an \<open>int64\<close>, \<open>uint32(x)\<close> of an \<open>int32\<close>, and back.\<close>

definition to_u64 :: "int \<Rightarrow> u64" where
  "to_u64 x = word_of_int x"

definition to_u32 :: "int \<Rightarrow> u32" where
  "to_u32 x = word_of_int x"

definition i32_of_u32 :: "u32 \<Rightarrow> int" where
  "i32_of_u32 w = sint w"

definition i64_of_u64 :: "u64 \<Rightarrow> int" where
  "i64_of_u64 w = sint w"

section \<open>Words\<close>

lemma unat_word_Suc:
  fixes h :: "'a::len word"
  assumes "h + 1 \<noteq> 0"
  shows "unat (h + 1) = Suc (unat h)"
proof -
  have "h < - 1" using assms by (metis add.left_inverse word_order.not_eq_extremum)
  then have "Suc (unat h) < 2 ^ LENGTH('a)"
    by (simp add: word_less_nat_alt unsigned_minus_1_eq_mask mask_eq_exp_minus_1)
  then show ?thesis by (simp add: unat_word_ariths)
qed

lemma word_less_Suc:
  fixes h :: "'a::len word"
  shows "h + 1 \<noteq> 0 \<Longrightarrow> h < h + 1"
  by (simp add: word_less_nat_alt unat_word_Suc)

lemma word_le_Suc_iff:
  fixes h w :: "'a::len word"
  assumes "w + 1 \<noteq> 0"
  shows "h \<le> w + 1 \<longleftrightarrow> h \<le> w \<or> h = w + 1"
proof -
  have "h = w + 1 \<longleftrightarrow> unat h = Suc (unat w)"
    using unat_word_Suc [OF assms] by (metis word_unat_eq_iff)
  then show ?thesis
    using unat_word_Suc [OF assms] by (auto simp: word_le_nat_alt)
qed

lemma unat_u64_less: "unat (w :: u64) < 2 ^ 64"
  using unsigned_less [of w] by simp

lemma unat_u32_less: "unat (w :: u32) < 2 ^ 32"
  using unsigned_less [of w] by simp

end
