(* ===== verification/Safe_Math.thy ===== *)
theory Safe_Math
  imports Go_Prelude
begin

text \<open>
  \<open>consensus/safe_math.go\<close>: addition, subtraction and conversion of fixed-width integers that
  panic or return an error on overflow. The functions are modelled on the integers of the Go
  types, with every intermediate operation wrapped as the machine wraps it, so that the overflow
  checks themselves are shown not to overflow.
\<close>

datatype overflow_error = ErrOverflowUint8 | ErrOverflowInt8

definition MaxInt32 :: int where "MaxInt32 = 2 ^ 31 - 1"
definition MinInt32 :: int where "MinInt32 = - (2 ^ 31)"
definition MaxUint8 :: int where "MaxUint8 = 255"
definition MaxInt8 :: int where "MaxInt8 = 127"
definition MinInt8 :: int where "MinInt8 = - 128"

lemmas machine_limits = MaxInt32_def MinInt32_def MaxUint8_def MaxInt8_def MinInt8_def

definition SafeAddInt32 :: "int \<Rightarrow> int \<Rightarrow> int res" where
  "SafeAddInt32 a b =
     (if b > 0 \<and> a > i32 (MaxInt32 - b) then Inl OverflowInt32
      else if b < 0 \<and> a < i32 (MinInt32 - b) then Inl OverflowInt32
      else Inr (i32 (a + b)))"

definition SafeSubInt32 :: "int \<Rightarrow> int \<Rightarrow> int res" where
  "SafeSubInt32 a b =
     (if b > 0 \<and> a < i32 (MinInt32 + b) then Inl OverflowInt32
      else if b < 0 \<and> a > i32 (MaxInt32 + b) then Inl OverflowInt32
      else Inr (i32 (a - b)))"

definition SafeConvertInt32 :: "int \<Rightarrow> int res" where
  "SafeConvertInt32 a =
     (if a > MaxInt32 then Inl OverflowInt32
      else if a < MinInt32 then Inl OverflowInt32
      else Inr (i32 a))"

definition SafeConvertUint8 :: "int \<Rightarrow> overflow_error + u8" where
  "SafeConvertUint8 a =
     (if a > MaxUint8 then Inl ErrOverflowUint8
      else if a < 0 then Inl ErrOverflowUint8
      else Inr (word_of_int a))"

definition SafeConvertInt8 :: "int \<Rightarrow> overflow_error + int" where
  "SafeConvertInt8 a =
     (if a > MaxInt8 then Inl ErrOverflowInt8
      else if a < MinInt8 then Inl ErrOverflowInt8
      else Inr ((a + 128) mod 256 - 128))"

definition SafeConvertInt32FromUint32 :: "u32 \<Rightarrow> int res" where
  "SafeConvertInt32FromUint32 a =
     (let b = i32_of_u32 a in if b < 0 then Inl OverflowInt32 else Inr b)"

definition SafeConvertUint32FromInt32 :: "int \<Rightarrow> u32 res" where
  "SafeConvertUint32FromInt32 a = (if a < 0 then Inl OverflowInt32 else Inr (to_u32 a))"

section \<open>The checks are exact\<close>

lemma SafeAddInt32_exact:
  "is_i32 a \<Longrightarrow> is_i32 b \<Longrightarrow>
   SafeAddInt32 a b = (if is_i32 (a + b) then Inr (a + b) else Inl OverflowInt32)"
  by (auto simp: SafeAddInt32_def machine_limits is_i32_def)

lemma SafeSubInt32_exact:
  "is_i32 a \<Longrightarrow> is_i32 b \<Longrightarrow>
   SafeSubInt32 a b = (if is_i32 (a - b) then Inr (a - b) else Inl OverflowInt32)"
  by (auto simp: SafeSubInt32_def machine_limits is_i32_def)

lemma SafeAddInt32_Inr_is_i32: "SafeAddInt32 a b = Inr c \<Longrightarrow> is_i32 c"
  by (auto simp: SafeAddInt32_def split: if_splits)

lemma SafeConvertInt32_exact:
  "SafeConvertInt32 a = (if is_i32 a then Inr a else Inl OverflowInt32)"
  by (auto simp: SafeConvertInt32_def machine_limits is_i32_def)

lemma SafeConvertUint8_exact:
  "SafeConvertUint8 a = Inr w \<longleftrightarrow> 0 \<le> a \<and> a < 256 \<and> uint w = a"
  by (auto simp: SafeConvertUint8_def machine_limits uint_word_of_int)

lemma SafeConvertInt8_exact:
  "SafeConvertInt8 a = (if - 128 \<le> a \<and> a < 128 then Inr a else Inl ErrOverflowInt8)"
  by (auto simp: SafeConvertInt8_def machine_limits)

lemma wrap_high_half:
  fixes u :: int
  assumes "2147483648 \<le> u" and "u < 4294967296"
  shows "(u + 2147483648) mod 4294967296 = u - 2147483648"
proof -
  have "(u + 2147483648) mod 4294967296 = ((u - 2147483648) + 4294967296) mod 4294967296"
    by (simp add: algebra_simps)
  also have "\<dots> = u - 2147483648"
    using assms by (simp only: mod_add_self2) simp
  finally show ?thesis .
qed

lemma sint_u32: "sint (w :: u32) = (if uint w < 2 ^ 31 then uint w else uint w - 2 ^ 32)"
  using uint_lt2p [of w] wrap_high_half [of "uint w"]
  by (auto simp: sint_uint signed_take_bit_eq_take_bit_shift take_bit_eq_mod)

lemma SafeConvertInt32FromUint32_exact:
  "SafeConvertInt32FromUint32 w =
     (if uint w < 2 ^ 31 then Inr (uint w) else Inl OverflowInt32)"
  using uint_lt2p [of w]
  by (simp add: SafeConvertInt32FromUint32_def i32_of_u32_def sint_u32)

section \<open>Property\<close>

text \<open>C37. On \<open>int32\<close> arguments, checked addition and subtraction return the exact sum and difference
  when it is an \<open>int32\<close> and panic otherwise, although their own checks compute in wrapping \<open>int32\<close>
  arithmetic; the conversions between \<open>int32\<close> and \<open>uint32\<close> keep the value or panic.\<close>

theorem safe_arithmetic_exact:
  assumes "is_i32 a" and "is_i32 b"
  shows "SafeAddInt32 a b = (if is_i32 (a + b) then Inr (a + b) else Inl OverflowInt32)
    \<and> SafeSubInt32 a b = (if is_i32 (a - b) then Inr (a - b) else Inl OverflowInt32)
    \<and> SafeConvertInt32FromUint32 w = (if uint w < 2 ^ 31 then Inr (uint w) else Inl OverflowInt32)
    \<and> (SafeConvertUint32FromInt32 a = Inr w \<longleftrightarrow> 0 \<le> a \<and> uint w = a)"
proof -
  have "uint (to_u32 a) = a" if "0 \<le> a"
    using that assms(1) by (simp add: to_u32_def is_i32_def uint_word_of_int)
  then have "SafeConvertUint32FromInt32 a = Inr w \<longleftrightarrow> 0 \<le> a \<and> uint w = a"
    by (auto simp: SafeConvertUint32FromInt32_def to_u32_def)
  then show ?thesis
    using SafeAddInt32_exact [OF assms] SafeSubInt32_exact [OF assms] SafeConvertInt32FromUint32_exact
    by simp
qed

theorem safe_arithmetic_exact_witness:
  "SafeAddInt32 (2 ^ 31 - 1) 1 = Inl OverflowInt32 \<and> SafeSubInt32 (2 ^ 31 - 1) 1 = Inr (2 ^ 31 - 2)"
  using safe_arithmetic_exact [of "2 ^ 31 - 1" 1] by (simp add: is_i32_def)

end
