(* ===== verification/Ext_Types.thy ===== *)
theory Ext_Types
  imports Go_Prelude
begin

text \<open>
  The data the consensus package exchanges and the code it calls that is not in the repository.

  The repository builds on a fork of go-ethereum whose \<open>core/types\<close> package declares the votes,
  proposals, commits, blocks, vote sets and validator sets (\<open>consensus/types.go\<close> renames them).
  Structs whose fields the repository fills or reads are records here. Types it only handles
  through pointers and methods are type variables: \<open>'val\<close> for \<open>ValidatorSet\<close>, \<open>'vs\<close> for \<open>VoteSet\<close>,
  \<open>'hvs\<close> for \<open>HeightVoteSet\<close> and \<open>'blk\<close> for \<open>FullBlock\<close>; a Go pointer \<open>*T\<close> that may be \<open>nil\<close> is
  \<open>'t option\<close>. Every method and function of that package is a field of the record \<open>ext\<close>, an
  argument of the definitions that call it. A method with a pointer receiver takes the pointer,
  \<open>nil\<close> included, because the package decides what it does on \<open>nil\<close>; a method that changes its
  receiver returns it changed, and may panic.
\<close>

section \<open>Errors\<close>

datatype SignedMsgType = UnknownType | PrevoteType | PrecommitType | ProposalType

record vote =
  v_ValidatorAddress :: address
  v_ValidatorIndex :: int
  v_Height :: u64
  v_Round :: int
  v_TimestampMs :: u64
  v_Type :: SignedMsgType
  v_BlockID :: hash
  v_Signature :: bytes

datatype go_error =
    ErrInvalidProposalSignature
  | ErrInvalidProposalPOLRound
  | ErrAddingVote
  | ErrSignatureFoundInPastBlocks
  | ErrPubKeyIsNotSet
  | ErrVoteConflictingVotes vote vote
  | ErrVoteNonDeterministicSignature
  | WrongInitialHeight
  | WrongHeight
  | WrongLastBlockID
  | InitialCommitHasSignatures
  | ValidatorChangeWithinEpoch
  | ProposerNotValidator
  | IncorrectTimestamp
  | BlockTimeNotAfterLast
  | InvalidBlockTime
  | NotGenesisTime
  | HeightBelowInitial
  | AlreadyStarted
  | AlreadyStopped
  | NotStarted
  | IncorrectMsg
  | DecoderNotFound
  | ShortRead
  | NotFullyWritten
  | OtherError string

text \<open>\<open>IsVoteTypeValid\<close> (\<open>consensus_state.go\<close>).\<close>

fun IsVoteTypeValid :: "SignedMsgType \<Rightarrow> bool" where
  "IsVoteTypeValid PrevoteType = True"
| "IsVoteTypeValid PrecommitType = True"
| "IsVoteTypeValid _ = False"

section \<open>Commits, proposals, blocks\<close>

datatype BlockIDFlag = BlockIDFlagAbsent | BlockIDFlagCommit | BlockIDFlagNil

record commit_sig =
  sig_BlockIDFlag :: BlockIDFlag
  sig_ValidatorAddress :: address
  sig_TimestampMs :: u64
  sig_Signature :: bytes

record commit =
  c_Height :: u64
  c_Round :: int
  c_BlockID :: hash
  c_Signatures :: "commit_sig list"

record 'blk proposal =
  p_Height :: u64
  p_Round :: int
  p_POLRound :: int
  p_TimestampMs :: int
  p_Signature :: bytes
  p_Block :: "'blk option"

text \<open>The header fields that \<open>ChainState.MakeBlock\<close> fills.\<close>

record header =
  h_ParentHash :: hash
  h_Number :: int
  h_Time :: u64
  h_TimeMs :: u64
  h_Coinbase :: address
  h_LastCommitHash :: hash
  h_Difficulty :: int
  h_Extra :: bytes
  h_BaseFee :: int

record validator =
  val_Address :: address
  val_PubKey :: bytes
  val_VotingPower :: int

text \<open>A \<open>BitArray\<close>: the field the code reads and the number of bits.\<close>

record bitarray =
  ba_Bits :: int
  ba_Elems :: "u64 list"

section \<open>The consensus configuration\<close>

text \<open>The fields of \<open>params.ConsensusConfig\<close> that the code reads.\<close>

record config =
  TimeoutPropose :: duration
  TimeoutPrevote :: duration
  TimeoutPrecommit :: duration
  TimeoutCommit :: duration
  SkipTimeoutCommit :: bool
  DoubleSignCheckHeight :: u64
  ConsensusSyncRequestDuration :: duration

section \<open>Messages\<close>

text \<open>\<open>ConsensusSyncRequest\<close> (\<open>types.go\<close>), and the implementations of the \<open>Message\<close> interface that
  travel on the consensus queues.\<close>

record sync_request =
  sr_Height :: u64
  sr_Round :: u32
  sr_HasProposal :: u8
  sr_PrevotesBitmap :: "u64 list"
  sr_PrecommitsBitmap :: "u64 list"

datatype 'blk message =
    ProposalMessage "'blk proposal"
  | VoteMessage vote
  | SyncRequestMessage sync_request

text \<open>\<open>MsgInfo\<close>: a message and the peer it came from, the empty string for our own.\<close>

record 'blk msg_info =
  mi_Msg :: "'blk message"
  mi_PeerID :: string

section \<open>The code that is not in the repository\<close>

record ('val, 'vs, 'hvs, 'blk) ext =
  \<comment> \<open>the wall clock: its k-th reading\<close>
  TimeNow :: "nat \<Rightarrow> gotime"
  \<comment> \<open>\<open>params.ConsensusConfig\<close>\<close>
  cfg_Commit :: "config \<Rightarrow> gotime \<Rightarrow> gotime"
  cfg_Propose :: "config \<Rightarrow> int \<Rightarrow> duration"
  cfg_Prevote :: "config \<Rightarrow> int \<Rightarrow> duration"
  cfg_Precommit :: "config \<Rightarrow> int \<Rightarrow> duration"
  \<comment> \<open>\<open>types.ValidatorSet\<close>\<close>
  EmptyValidatorSet :: "'val"
  NewValidatorSet :: "address list \<Rightarrow> int list \<Rightarrow> int \<Rightarrow> 'val"
  vals_ProposerReptition :: "'val \<Rightarrow> int"
  vals_Copy :: "'val option \<Rightarrow> 'val option"
  vals_HasAddress :: "'val option \<Rightarrow> address \<Rightarrow> bool"
  vals_GetByAddress :: "'val option \<Rightarrow> address \<Rightarrow> int \<times> validator option"
  vals_GetProposer :: "'val option \<Rightarrow> validator option"
  vals_IncrementProposerPriority :: "int \<Rightarrow> 'val option \<Rightarrow> 'val option res"
  vals_VerifyCommit :: "'val option \<Rightarrow> string \<Rightarrow> hash \<Rightarrow> u64 \<Rightarrow> commit option \<Rightarrow> go_error option"
  PubKey_VerifySignature :: "bytes \<Rightarrow> bytes \<Rightarrow> bytes \<Rightarrow> bool"
  \<comment> \<open>\<open>types.VoteSet\<close>\<close>
  vs_Size :: "'vs option \<Rightarrow> int"
  vs_GetByIndex :: "'vs option \<Rightarrow> int \<Rightarrow> vote option"
  vs_BitArray :: "'vs option \<Rightarrow> bitarray option"
  vs_HasTwoThirdsMajority :: "'vs option \<Rightarrow> bool"
  vs_TwoThirdsMajority :: "'vs option \<Rightarrow> hash \<times> bool"
  vs_HasTwoThirdsAny :: "'vs option \<Rightarrow> bool"
  vs_HasAll :: "'vs option \<Rightarrow> bool"
  vs_AddVote :: "vote \<Rightarrow> 'vs option \<Rightarrow> ((bool \<times> go_error option) \<times> 'vs option) res"
  vs_MakeCommit :: "'vs option \<Rightarrow> commit option res"
  CommitToVoteSet :: "string \<Rightarrow> commit option \<Rightarrow> 'val option \<Rightarrow> 'vs option res"
  \<comment> \<open>\<open>types.HeightVoteSet\<close>\<close>
  NewHeightVoteSet :: "string \<Rightarrow> u64 \<Rightarrow> 'val option \<Rightarrow> 'hvs"
  hvs_Prevotes :: "'hvs option \<Rightarrow> int \<Rightarrow> 'vs option"
  hvs_Precommits :: "'hvs option \<Rightarrow> int \<Rightarrow> 'vs option"
  hvs_POLInfo :: "'hvs option \<Rightarrow> int \<times> hash"
  hvs_SetRound :: "int \<Rightarrow> 'hvs option \<Rightarrow> 'hvs option res"
  hvs_AddVote :: "vote \<Rightarrow> string \<Rightarrow> 'hvs option \<Rightarrow> ((bool \<times> go_error option) \<times> 'hvs option) res"
  \<comment> \<open>\<open>types.Commit\<close>, \<open>types.CommitSig\<close>, \<open>types.BitArray\<close>\<close>
  NewCommit :: "u64 \<Rightarrow> int \<Rightarrow> hash \<Rightarrow> commit_sig list \<Rightarrow> commit"
  commit_Hash :: "commit option \<Rightarrow> hash"
  commit_Size :: "commit option \<Rightarrow> int"
  commit_BitArray :: "commit option \<Rightarrow> bitarray option"
  commit_GetVote :: "commit option \<Rightarrow> int \<Rightarrow> vote option"
  sig_Absent :: "commit_sig \<Rightarrow> bool"
  NewBitArrayFromUint64 :: "int \<Rightarrow> u64 list \<Rightarrow> go_error + bitarray"
  ba_Size :: "bitarray option \<Rightarrow> int"
  ba_GetIndex :: "bitarray option \<Rightarrow> int \<Rightarrow> bool"
  ba_Copy :: "bitarray option \<Rightarrow> bitarray option"
  \<comment> \<open>\<open>types.FullBlock\<close>\<close>
  NewFullBlock :: "header \<Rightarrow> commit option \<Rightarrow> 'blk"
  blk_Hash :: "'blk \<Rightarrow> hash"
  blk_HashTo :: "'blk option \<Rightarrow> hash \<Rightarrow> bool"
  blk_NumberU64 :: "'blk \<Rightarrow> u64"
  blk_ParentHash :: "'blk \<Rightarrow> hash"
  blk_Time :: "'blk \<Rightarrow> u64"
  blk_TimeMs :: "'blk \<Rightarrow> u64"
  blk_Coinbase :: "'blk \<Rightarrow> address"
  blk_NextValidators :: "'blk \<Rightarrow> address list"
  blk_LastCommit :: "'blk \<Rightarrow> commit option"
  blk_Commit :: "'blk \<Rightarrow> commit option"
  blk_HeaderCommit :: "'blk \<Rightarrow> commit option"
  blk_WithCommit :: "commit option \<Rightarrow> 'blk option \<Rightarrow> 'blk option res"
  \<comment> \<open>\<open>types.Vote\<close>, \<open>types.Proposal\<close>\<close>
  VoteSignBytes :: "vote \<Rightarrow> string \<Rightarrow> bytes"
  NewProposal :: "u64 \<Rightarrow> int \<Rightarrow> int \<Rightarrow> 'blk option \<Rightarrow> 'blk proposal"
  ProposalSignBytes :: "'blk proposal \<Rightarrow> string \<Rightarrow> bytes"
  \<comment> \<open>go-ethereum's \<open>crypto\<close>; a private key is its serialised form\<close>
  Keccak256 :: "bytes \<Rightarrow> bytes"
  Ecrecover :: "bytes \<Rightarrow> bytes \<Rightarrow> go_error + bytes"
  Sign :: "bytes \<Rightarrow> bytes \<Rightarrow> go_error + bytes"
  PubkeyToAddress :: "bytes \<Rightarrow> address"

text \<open>\<open>BlockIDFlagNil\<close> as \<open>consensus/types.go\<close> sets it.\<close>

definition consensus_BlockIDFlagNil :: BlockIDFlag where
  "consensus_BlockIDFlagNil = BlockIDFlagAbsent"

text \<open>\<open>Canonical\<close> strips the monotonic reading, which a \<open>gotime\<close> does not have.\<close>

definition Canonical :: "gotime \<Rightarrow> gotime" where
  "Canonical t = t"

end
