(* ===== verification/Service.thy ===== *)
theory Service
  imports Ext_Types
begin

text \<open>
  \<open>consensus/service.go\<close>: the start and stop bookkeeping of a service. The two atomic flags are
  words, \<open>quit\<close> is whether the channel has been closed, and two counters record the calls of the
  implementation's \<open>OnStart\<close> (those that succeeded) and \<open>OnStop\<close>. What \<open>OnStart\<close> returns is an
  argument of \<open>Start\<close>. As the comment of the source demands, \<open>Start\<close> and \<open>Stop\<close> do not overlap.
\<close>

record base_service =
  bs_name :: string
  bs_started :: u32
  bs_stopped :: u32
  bs_quit_closed :: bool
  bs_onstart_ok :: nat
  bs_onstop :: nat

section \<open>The code\<close>

definition NewBaseService :: "string \<Rightarrow> base_service" where
  "NewBaseService name =
     \<lparr>bs_name = name, bs_started = 0, bs_stopped = 0, bs_quit_closed = False,
      bs_onstart_ok = 0, bs_onstop = 0\<rparr>"

definition service_Start :: "go_error option \<Rightarrow> base_service \<Rightarrow> go_error option \<times> base_service" where
  "service_Start onStart bs =
     (if bs_started bs = 0 then
        let bs = bs\<lparr>bs_started := 1\<rparr> in
        if bs_stopped bs = 1 then (Some AlreadyStopped, bs\<lparr>bs_started := 0\<rparr>)
        else
          (case onStart of
             Some err \<Rightarrow> (Some err, bs\<lparr>bs_started := 0\<rparr>)
           | None \<Rightarrow> (None, bs\<lparr>bs_onstart_ok := Suc (bs_onstart_ok bs)\<rparr>))
      else (Some AlreadyStarted, bs))"

text \<open>Closing a closed channel panics; the panic branch is shown to be unreachable below.\<close>

definition service_Stop :: "base_service \<Rightarrow> (go_error option \<times> base_service) res" where
  "service_Stop bs =
     (if bs_stopped bs = 0 then
        let bs = bs\<lparr>bs_stopped := 1\<rparr> in
        if bs_started bs = 0 then Inr (Some NotStarted, bs\<lparr>bs_stopped := 0\<rparr>)
        else
          let bs = bs\<lparr>bs_onstop := Suc (bs_onstop bs)\<rparr> in
          if bs_quit_closed bs then Inl LibraryPanic
          else Inr (None, bs\<lparr>bs_quit_closed := True\<rparr>)
      else Inr (Some AlreadyStopped, bs))"

definition service_IsRunning :: "base_service \<Rightarrow> bool" where
  "service_IsRunning bs \<longleftrightarrow> bs_started bs = 1 \<and> bs_stopped bs = 0"

definition service_String :: "base_service \<Rightarrow> string" where
  "service_String bs = bs_name bs"

section \<open>Sequences of calls\<close>

datatype service_call = CallStart "go_error option" | CallStop

fun service_calls :: "service_call list \<Rightarrow> base_service \<Rightarrow> base_service res" where
  "service_calls [] bs = Inr bs"
| "service_calls (CallStart r # cs) bs = service_calls cs (snd (service_Start r bs))"
| "service_calls (CallStop # cs) bs = andThen (service_Stop bs) (\<lambda>(_, bs). service_calls cs bs)"

text \<open>The flags, the counters and the channel agree: a service is fresh, running, or stopped for good.\<close>

definition service_inv :: "base_service \<Rightarrow> bool" where
  "service_inv bs \<longleftrightarrow>
     (bs_started bs, bs_stopped bs, bs_quit_closed bs, bs_onstart_ok bs, bs_onstop bs)
       \<in> {(0, 0, False, 0, 0), (1, 0, False, 1, 0), (1, 1, True, 1, 1)}"

lemma service_inv_new: "service_inv (NewBaseService name)"
  by (simp add: service_inv_def NewBaseService_def)

lemma service_inv_Start: "service_inv bs \<Longrightarrow> service_inv (snd (service_Start r bs))"
  by (auto simp: service_inv_def service_Start_def Let_def split: option.splits)

lemma service_inv_Stop:
  assumes "service_inv bs"
  shows "\<exists>e bs'. service_Stop bs = Inr (e, bs') \<and> service_inv bs'"
  using assms by (auto simp: service_inv_def service_Stop_def Let_def)

lemma service_calls_inv:
  "service_inv bs \<Longrightarrow> \<exists>bs'. service_calls cs bs = Inr bs' \<and> service_inv bs'"
proof (induction cs bs rule: service_calls.induct)
  case (2 r cs bs)
  then show ?case by (simp add: service_inv_Start)
next
  case (3 cs bs)
  then show ?case using service_inv_Stop [OF 3(2)] by fastforce
qed simp

lemma service_stopped_stays:
  assumes "service_inv bs" and "bs_stopped bs = 1" and "service_calls cs bs = Inr bs'"
  shows "bs' = bs"
  using assms
proof (induction cs bs rule: service_calls.induct)
  case (2 r cs bs)
  moreover have "bs_started bs = 1" using 2 by (auto simp: service_inv_def)
  ultimately show ?case by (simp add: service_Start_def)
next
  case (3 cs bs)
  then show ?case by (simp add: service_Stop_def)
qed simp

section \<open>Properties\<close>

text \<open>C38. Whatever sequence of \<open>Start\<close> and \<open>Stop\<close> is called on a new service, and whatever its
  \<open>OnStart\<close> returns each time, the \<open>quit\<close> channel is never closed twice (no call panics), \<open>OnStart\<close>
  succeeds at most once, \<open>OnStop\<close> runs at most once and only after a successful start, and the
  service runs exactly when it has been started and not stopped.\<close>

theorem service_lifecycle:
  "\<exists>bs. service_calls cs (NewBaseService name) = Inr bs
     \<and> bs_onstart_ok bs \<le> 1 \<and> bs_onstop bs \<le> bs_onstart_ok bs
     \<and> (service_IsRunning bs \<longleftrightarrow> bs_onstart_ok bs = 1 \<and> bs_onstop bs = 0)
     \<and> (bs_quit_closed bs \<longleftrightarrow> bs_onstop bs = 1)"
  using service_calls_inv [OF service_inv_new, of cs name]
  by (auto simp: service_inv_def service_IsRunning_def)

end
