(* ===== verification/Sample_Instance.thy ===== *)
theory Sample_Instance
  imports Ext_Types
begin

text \<open>
  A concrete value of the record \<open>ext\<close> of external operations: small list-based validator sets,
  vote sets and blocks that compute. It plays no role in the model. The witnesses instantiate the
  parameters of the model with it, to show on concrete inputs that the hypotheses of the
  properties can hold together.
\<close>

record sample_vs =
  svs_vals :: "validator list"
  svs_votes :: "vote list"

record sample_blk =
  sb_header :: header
  sb_LastCommit :: "commit option"
  sb_Commit :: "commit option"

type_synonym sample_ext = "(validator list, sample_vs, sample_vs, sample_blk) ext"

section \<open>Validators\<close>

definition sample_total :: "validator list \<Rightarrow> int" where
  "sample_total vals = (\<Sum>v\<leftarrow>vals. val_VotingPower v)"

fun sample_find :: "int \<Rightarrow> address \<Rightarrow> validator list \<Rightarrow> int \<times> validator option" where
  "sample_find i a [] = (- 1, None)"
| "sample_find i a (v # vs) = (if val_Address v = a then (i, Some v) else sample_find (i + 1) a vs)"

definition sample_vals :: "validator list option \<Rightarrow> validator list" where
  "sample_vals vs = (case vs of None \<Rightarrow> [] | Some l \<Rightarrow> l)"

definition sample_power :: "validator list \<Rightarrow> address \<Rightarrow> int" where
  "sample_power vals a = (case snd (sample_find 0 a vals) of None \<Rightarrow> 0 | Some v \<Rightarrow> val_VotingPower v)"

section \<open>Votes\<close>

definition sample_tally :: "sample_vs \<Rightarrow> hash \<Rightarrow> int" where
  "sample_tally s h =
     (\<Sum>v\<leftarrow>svs_votes s. if v_BlockID v = h then sample_power (svs_vals s) (v_ValidatorAddress v) else 0)"

definition sample_majority :: "sample_vs option \<Rightarrow> hash \<times> bool" where
  "sample_majority so =
     (case so of None \<Rightarrow> (0, False)
      | Some s \<Rightarrow>
          (case filter (\<lambda>h. 3 * sample_tally s h > 2 * sample_total (svs_vals s))
                  (map v_BlockID (svs_votes s)) of
             [] \<Rightarrow> (0, False) | h # _ \<Rightarrow> (h, True)))"

definition sample_any :: "sample_vs option \<Rightarrow> bool" where
  "sample_any so =
     (case so of None \<Rightarrow> False
      | Some s \<Rightarrow> 3 * (\<Sum>v\<leftarrow>svs_votes s. sample_power (svs_vals s) (v_ValidatorAddress v))
           > 2 * sample_total (svs_vals s) \<or> snd (sample_majority so))"

definition sample_round :: "SignedMsgType \<Rightarrow> sample_vs option \<Rightarrow> int \<Rightarrow> sample_vs option" where
  "sample_round T so r =
     (if r < 0 then None
      else map_option (\<lambda>s. s\<lparr>svs_votes := filter (\<lambda>v. v_Type v = T \<and> v_Round v = r) (svs_votes s)\<rparr>) so)"

definition sample_add ::
  "vote \<Rightarrow> sample_vs option \<Rightarrow> ((bool \<times> go_error option) \<times> sample_vs option) res" where
  "sample_add v so =
     (case so of None \<Rightarrow> Inl LibraryPanic
      | Some s \<Rightarrow>
          if snd (sample_find 0 (v_ValidatorAddress v) (svs_vals s)) = None \<or> \<not> IsVoteTypeValid (v_Type v)
          then Inr ((False, Some (OtherError ''no such validator'')), so)
          else if (\<exists>w\<in>set (svs_votes s). v_ValidatorAddress w = v_ValidatorAddress v
                     \<and> v_Type w = v_Type v \<and> v_Round w = v_Round v)
          then Inr ((False, None), so)
          else Inr ((True, None), Some (s\<lparr>svs_votes := svs_votes s @ [v]\<rparr>)))"

definition sample_sig :: "vote \<Rightarrow> commit_sig" where
  "sample_sig v = \<lparr>sig_BlockIDFlag = BlockIDFlagCommit, sig_ValidatorAddress = v_ValidatorAddress v,
     sig_TimestampMs = v_TimestampMs v, sig_Signature = v_Signature v\<rparr>"

definition sample_commit :: "sample_vs option \<Rightarrow> commit option res" where
  "sample_commit so =
     (case so of None \<Rightarrow> Inl LibraryPanic
      | Some s \<Rightarrow> Inr (Some \<lparr>c_Height = (case svs_votes s of [] \<Rightarrow> 0 | v # _ \<Rightarrow> v_Height v),
          c_Round = (case svs_votes s of [] \<Rightarrow> 0 | v # _ \<Rightarrow> v_Round v),
          c_BlockID = fst (sample_majority so), c_Signatures = map sample_sig (svs_votes s)\<rparr>))"

definition sample_pol :: "sample_vs option \<Rightarrow> int \<times> hash" where
  "sample_pol so =
     (let rs = (case so of None \<Rightarrow> [] | Some s \<Rightarrow>
         filter (\<lambda>r. snd (sample_majority (sample_round PrevoteType so r))) (map v_Round (svs_votes s)));
       r = fold max rs (- 1)
      in (r, fst (sample_majority (sample_round PrevoteType so r))))"

definition sample_verify :: "validator list option \<Rightarrow> hash \<Rightarrow> u64 \<Rightarrow> commit option \<Rightarrow> go_error option" where
  "sample_verify vals h n co =
     (case co of None \<Rightarrow> Some (OtherError ''no commit'')
      | Some c \<Rightarrow>
          if c_BlockID c = h \<and> c_Height c = n
             \<and> 3 * (\<Sum>a\<leftarrow>remdups (map sig_ValidatorAddress (c_Signatures c)). sample_power (sample_vals vals) a)
               > 2 * sample_total (sample_vals vals)
          then None else Some (OtherError ''not enough power''))"

definition sample_hash :: "sample_blk \<Rightarrow> hash" where
  "sample_hash b = word_of_int (h_Number (sb_header b)) * 2 ^ 64 + ucast (h_TimeMs (sb_header b)) + 1"

section \<open>The instance\<close>

definition sample_ext :: sample_ext where
  "sample_ext =
     \<lparr>TimeNow = (\<lambda>k. 62135596800000000000 + int k * 1000000),
      cfg_Commit = (\<lambda>c t. t + TimeoutCommit c),
      cfg_Propose = (\<lambda>c r. TimeoutPropose c),
      cfg_Prevote = (\<lambda>c r. TimeoutPrevote c),
      cfg_Precommit = (\<lambda>c r. TimeoutPrecommit c),
      EmptyValidatorSet = [],
      NewValidatorSet = (\<lambda>as ps n. map2 (\<lambda>a p. \<lparr>val_Address = a, val_PubKey = [], val_VotingPower = p\<rparr>) as ps),
      vals_ProposerReptition = (\<lambda>_. 1),
      vals_Copy = (\<lambda>v. v),
      vals_HasAddress = (\<lambda>v a. snd (sample_find 0 a (sample_vals v)) \<noteq> None),
      vals_GetByAddress = (\<lambda>v a. sample_find 0 a (sample_vals v)),
      vals_GetProposer = (\<lambda>v. case sample_vals v of [] \<Rightarrow> None | p # _ \<Rightarrow> Some p),
      vals_IncrementProposerPriority = (\<lambda>n v. Inr v),
      vals_VerifyCommit = (\<lambda>v ch h n c. sample_verify v h n c),
      PubKey_VerifySignature = (\<lambda>pk msg sig. True),
      vs_Size = (\<lambda>s. case s of None \<Rightarrow> 0 | Some s \<Rightarrow> int (length (svs_vals s))),
      vs_GetByIndex = (\<lambda>s i. None),
      vs_BitArray = (\<lambda>s. map_option (\<lambda>s. \<lparr>ba_Bits = int (length (svs_vals s)), ba_Elems = []\<rparr>) s),
      vs_HasTwoThirdsMajority = (\<lambda>s. snd (sample_majority s)),
      vs_TwoThirdsMajority = sample_majority,
      vs_HasTwoThirdsAny = sample_any,
      vs_HasAll = (\<lambda>s. case s of None \<Rightarrow> False | Some s \<Rightarrow> length (svs_votes s) = length (svs_vals s)),
      vs_AddVote = sample_add,
      vs_MakeCommit = sample_commit,
      CommitToVoteSet = (\<lambda>ch c v. Inr (Some \<lparr>svs_vals = sample_vals v, svs_votes = []\<rparr>)),
      NewHeightVoteSet = (\<lambda>ch h v. \<lparr>svs_vals = sample_vals v, svs_votes = []\<rparr>),
      hvs_Prevotes = sample_round PrevoteType,
      hvs_Precommits = sample_round PrecommitType,
      hvs_POLInfo = sample_pol,
      hvs_SetRound = (\<lambda>r h. Inr h),
      hvs_AddVote = (\<lambda>v p h. sample_add v h),
      NewCommit = (\<lambda>h r b sigs. \<lparr>c_Height = h, c_Round = r, c_BlockID = b, c_Signatures = sigs\<rparr>),
      commit_Hash = (\<lambda>c. 0),
      commit_Size = (\<lambda>c. case c of None \<Rightarrow> 0 | Some c \<Rightarrow> int (length (c_Signatures c))),
      commit_BitArray = (\<lambda>c. None),
      commit_GetVote = (\<lambda>c i. None),
      sig_Absent = (\<lambda>s. sig_BlockIDFlag s = BlockIDFlagAbsent),
      NewBitArrayFromUint64 = (\<lambda>n es. Inr \<lparr>ba_Bits = n, ba_Elems = es\<rparr>),
      ba_Size = (\<lambda>b. case b of None \<Rightarrow> 0 | Some b \<Rightarrow> ba_Bits b),
      ba_GetIndex = (\<lambda>b i. False),
      ba_Copy = (\<lambda>b. b),
      NewFullBlock = (\<lambda>h c. \<lparr>sb_header = h, sb_LastCommit = c, sb_Commit = None\<rparr>),
      blk_Hash = sample_hash,
      blk_HashTo = (\<lambda>b h. case b of None \<Rightarrow> False | Some b \<Rightarrow> sample_hash b = h),
      blk_NumberU64 = (\<lambda>b. word_of_int (h_Number (sb_header b))),
      blk_ParentHash = (\<lambda>b. h_ParentHash (sb_header b)),
      blk_Time = (\<lambda>b. h_Time (sb_header b)),
      blk_TimeMs = (\<lambda>b. h_TimeMs (sb_header b)),
      blk_Coinbase = (\<lambda>b. h_Coinbase (sb_header b)),
      blk_NextValidators = (\<lambda>b. []),
      blk_LastCommit = sb_LastCommit,
      blk_Commit = sb_Commit,
      blk_HeaderCommit = sb_Commit,
      blk_WithCommit = (\<lambda>c b. case b of None \<Rightarrow> Inl LibraryPanic | Some b \<Rightarrow> Inr (Some (b\<lparr>sb_Commit := c\<rparr>))),
      VoteSignBytes = (\<lambda>v ch. [ucast (v_Height v), word_of_int (v_Round v)]),
      NewProposal = (\<lambda>h r pol b. \<lparr>p_Height = h, p_Round = r, p_POLRound = pol, p_TimestampMs = 0,
         p_Signature = [], p_Block = b\<rparr>),
      ProposalSignBytes = (\<lambda>p ch. [ucast (p_Height p), word_of_int (p_Round p)]),
      Keccak256 = (\<lambda>b. b),
      Ecrecover = (\<lambda>h s. Inr (4 # s)),
      Sign = (\<lambda>h k. Inr k),
      PubkeyToAddress = (\<lambda>k. case k of [] \<Rightarrow> 0 | b # _ \<Rightarrow> ucast b)\<rparr>"

lemmas sample_defs =
  sample_ext_def sample_total_def sample_vals_def sample_power_def sample_tally_def
  sample_majority_def sample_any_def sample_round_def sample_add_def sample_sig_def
  sample_commit_def sample_pol_def sample_verify_def sample_hash_def

end
