(* ===== verification/Median_Time.thy ===== *)
theory Median_Time
  imports Sample_Instance "HOL-Library.Multiset"
begin

text \<open>
  \<open>MedianTime\<close> and \<open>weightedMedian\<close> of \<open>consensus/default_block_executor.go\<close>: the time of a block is
  the median of the timestamps in the commit for its parent, weighted by voting power.

  The slice of pointers \<open>[]*weightedTime\<close> is a list of options. \<open>sort.Slice\<close> leaves the order of
  equal elements open; the model sorts stably, and \<open>median_loop_any_order\<close> below shows that the
  loop gives the same result on every order that \<open>sort.Slice\<close> may leave.
\<close>

section \<open>The code\<close>

record weighted_time =
  wt_TimeMs :: u64
  wt_Weight :: int

text \<open>The order given to \<open>sort.Slice\<close>: by time, \<open>nil\<close> entries after all others.\<close>

definition wt_key :: "weighted_time option \<Rightarrow> nat" where
  "wt_key w = (case w of None \<Rightarrow> 2 ^ 64 | Some t \<Rightarrow> unat (wt_TimeMs t))"

fun median_loop :: "int \<Rightarrow> weighted_time option list \<Rightarrow> u64" where
  "median_loop median [] = 0"
| "median_loop median (None # ws) = median_loop median ws"
| "median_loop median (Some w # ws) =
     (if median \<le> wt_Weight w then wt_TimeMs w
      else median_loop (i64 (median - wt_Weight w)) ws)"

definition weightedMedian :: "weighted_time option list \<Rightarrow> int \<Rightarrow> u64" where
  "weightedMedian weightedTimes totalVotingPower =
     median_loop (go_div totalVotingPower 2) (sort_key wt_key weightedTimes)"

definition weighted_entry ::
  "('val, 'vs, 'hvs, 'blk, 'e) ext_scheme \<Rightarrow> 'val option \<Rightarrow> commit_sig \<Rightarrow> weighted_time option" where
  "weighted_entry E validators commitSig =
     (if sig_Absent E commitSig then None
      else map_option
        (\<lambda>validator. \<lparr>wt_TimeMs = sig_TimestampMs commitSig, wt_Weight = val_VotingPower validator\<rparr>)
        (snd (vals_GetByAddress E validators (sig_ValidatorAddress commitSig))))"

fun sum_power :: "int \<Rightarrow> weighted_time option list \<Rightarrow> int" where
  "sum_power acc [] = acc"
| "sum_power acc (None # ws) = sum_power acc ws"
| "sum_power acc (Some w # ws) = sum_power (i64 (acc + wt_Weight w)) ws"

definition MedianTime ::
  "('val, 'vs, 'hvs, 'blk, 'e) ext_scheme \<Rightarrow> commit option \<Rightarrow> 'val option \<Rightarrow> u64 res" where
  "MedianTime E commit validators =
     andThen (deref commit) (\<lambda>c.
       let weightedTimes = map (weighted_entry E validators) (c_Signatures c) in
       Inr (weightedMedian weightedTimes (sum_power 0 weightedTimes)))"

section \<open>Weights\<close>

text \<open>The weight of the entries that satisfy \<open>P\<close>, and of those with a time up to \<open>t\<close>.\<close>

definition wsum :: "(weighted_time \<Rightarrow> bool) \<Rightarrow> weighted_time option list \<Rightarrow> int" where
  "wsum P ws =
     (\<Sum>w\<leftarrow>ws. case w of None \<Rightarrow> 0 | Some t \<Rightarrow> if P t then wt_Weight t else 0)"

abbreviation power_upto :: "u64 \<Rightarrow> weighted_time option list \<Rightarrow> int" where
  "power_upto t \<equiv> wsum (\<lambda>w. wt_TimeMs w \<le> t)"

definition nonneg_weights :: "weighted_time option list \<Rightarrow> bool" where
  "nonneg_weights ws \<longleftrightarrow> (\<forall>w. Some w \<in> set ws \<longrightarrow> 0 \<le> wt_Weight w)"

lemma wsum_simps [simp]:
  "wsum P [] = 0"
  "wsum P (None # ws) = wsum P ws"
  "wsum P (Some w # ws) = (if P w then wt_Weight w else 0) + wsum P ws"
  by (simp_all add: wsum_def)

lemma nonneg_weights_simps [simp]:
  "nonneg_weights []"
  "nonneg_weights (None # ws) = nonneg_weights ws"
  "nonneg_weights (Some w # ws) \<longleftrightarrow> 0 \<le> wt_Weight w \<and> nonneg_weights ws"
  by (auto simp: nonneg_weights_def)

lemma wsum_nonneg: "nonneg_weights ws \<Longrightarrow> 0 \<le> wsum P ws"
proof (induction ws)
  case (Cons a ws)
  then show ?case by (cases a) auto
qed simp

lemma sum_list_map_mset:
  fixes f :: "'a \<Rightarrow> 'b::comm_monoid_add"
  assumes "mset xs = mset ys"
  shows "sum_list (map f xs) = sum_list (map f ys)"
proof -
  have "sum_mset (mset (map f xs)) = sum_mset (mset (map f ys))"
    using assms by simp
  then show ?thesis by (simp only: sum_mset_sum_list)
qed

lemma wsum_mset: "mset xs = mset ys \<Longrightarrow> wsum P xs = wsum P ys"
  unfolding wsum_def by (rule sum_list_map_mset)

lemma wsum_sort_key [simp]: "wsum P (sort_key f ws) = wsum P ws"
  by (rule wsum_mset) simp

lemma nonneg_weights_sort_key [simp]: "nonneg_weights (sort_key f ws) = nonneg_weights ws"
  by (simp add: nonneg_weights_def)

lemma wsum_pos_entry:
  assumes "0 < wsum P ws"
  shows "\<exists>w. Some w \<in> set ws \<and> P w"
  using assms
proof (induction ws)
  case (Cons a ws)
  then show ?case by (cases a) (auto split: if_splits)
qed simp

lemma wsum_mono:
  assumes "nonneg_weights ws" and "\<And>w. Some w \<in> set ws \<Longrightarrow> P w \<Longrightarrow> Q w"
  shows "wsum P ws \<le> wsum Q ws"
  using assms
proof (induction ws)
  case (Cons a ws)
  then show ?case by (cases a) force+
qed simp

lemma sum_power_eq:
  assumes "nonneg_weights ws" and "0 \<le> acc" and "acc + wsum (\<lambda>_. True) ws < 2 ^ 63"
  shows "sum_power acc ws = acc + wsum (\<lambda>_. True) ws"
  using assms
proof (induction acc ws rule: sum_power.induct)
  case (3 acc w ws)
  have "0 \<le> wsum (\<lambda>_. True) ws" using 3 by (intro wsum_nonneg) simp
  then have "i64 (acc + wt_Weight w) = acc + wt_Weight w"
    using 3 by (intro i64_id) (simp add: is_i64_def)
  then show ?case using 3 by simp
qed auto

section \<open>What the loop finds\<close>

lemma wt_key_simps [simp]:
  "wt_key None = 2 ^ 64"
  "wt_key (Some w) = unat (wt_TimeMs w)"
  by (simp_all add: wt_key_def)

text \<open>
  On a sorted list with non-negative weights the loop returns the least time among the entries
  whose power up to that time reaches the median.
\<close>

lemma median_loop_least:
  assumes "sorted (map wt_key ws)" and "nonneg_weights ws"
    and "0 \<le> m" and "m < 2 ^ 63" and "m \<le> wsum (\<lambda>_. True) ws" and "\<exists>w. Some w \<in> set ws"
  shows "(\<exists>w. Some w \<in> set ws \<and> wt_TimeMs w = median_loop m ws)
    \<and> m \<le> power_upto (median_loop m ws) ws
    \<and> (\<forall>u. Some u \<in> set ws \<longrightarrow> m \<le> power_upto (wt_TimeMs u) ws
         \<longrightarrow> median_loop m ws \<le> wt_TimeMs u)"
  using assms
proof (induction m ws rule: median_loop.induct)
  case (1 m)
  then show ?case by simp
next
  case (2 m ws)
  then obtain w where "Some w \<in> set ws" by auto
  then have "wt_key None \<le> wt_key (Some w)" using 2 by auto
  then show ?case using unat_u64_less [of "wt_TimeMs w"] by simp
next
  case (3 m w ws)
  have le: "wt_TimeMs w \<le> wt_TimeMs u" if "Some u \<in> set ws" for u
    using 3 that by (force simp: word_le_nat_alt)
  have nn: "0 \<le> wsum P ws" for P using 3 by (intro wsum_nonneg) simp
  show ?case
  proof (cases "m \<le> wt_Weight w")
    case True
    then have "m \<le> wt_Weight w + power_upto (wt_TimeMs w) ws"
      using nn by (simp add: add_increasing2)
    then show ?thesis using True le by auto
  next
    case False
    define m' where "m' = m - wt_Weight w"
    have i: "i64 m' = m'" and m': "0 < m'" "m' < 2 ^ 63" "m' \<le> wsum (\<lambda>_. True) ws"
      using False 3 by (auto simp: m'_def is_i64_def)
    define r where "r = median_loop m' ws"
    have loop: "median_loop m (Some w # ws) = r"
      using False i by (simp add: r_def m'_def)
    have eq: "i64 (m - wt_Weight w) = m'" using i by (simp add: m'_def)
    have IH: "(\<exists>w. Some w \<in> set ws \<and> wt_TimeMs w = r) \<and> m' \<le> power_upto r ws
        \<and> (\<forall>u. Some u \<in> set ws \<longrightarrow> m' \<le> power_upto (wt_TimeMs u) ws \<longrightarrow> r \<le> wt_TimeMs u)"
    proof (rule "3.IH" [OF False, unfolded eq, folded r_def])
      show "\<exists>w. Some w \<in> set ws" using m' wsum_pos_entry [of "\<lambda>_. True" ws] by auto
    qed (use m' 3 in auto)
    have least: "r \<le> wt_TimeMs u"
      if u: "Some u \<in> set ws" and p: "m' \<le> power_upto (wt_TimeMs u) ws" for u
      using IH u p by blast
    have first: "r \<le> wt_TimeMs w" if p: "m' \<le> power_upto (wt_TimeMs w) ws"
    proof -
      obtain u where "Some u \<in> set ws" and "wt_TimeMs u \<le> wt_TimeMs w"
        using wsum_pos_entry [of "\<lambda>u. wt_TimeMs u \<le> wt_TimeMs w" ws] m' p by auto
      then show ?thesis using le [of u] least [of u] p by auto
    qed
    have "wt_TimeMs w \<le> r" using IH le by auto
    then show ?thesis
      unfolding loop using IH least first le m'_def by auto
  qed
qed

text \<open>The result does not depend on the order \<open>sort.Slice\<close> leaves equal times in.\<close>

lemma median_loop_any_order:
  assumes "mset xs = mset ys" and "sorted (map wt_key xs)" and "sorted (map wt_key ys)"
    and "nonneg_weights xs" and "0 \<le> m" and "m < 2 ^ 63" and "m \<le> wsum (\<lambda>_. True) xs"
    and "\<exists>w. Some w \<in> set xs"
  shows "median_loop m xs = median_loop m ys"
proof -
  have st: "set xs = set ys" using assms(1) by (rule mset_eq_setD)
  have ws: "wsum P xs = wsum P ys" for P using assms(1) by (rule wsum_mset)
  have nn: "nonneg_weights ys" using assms(4) st by (simp add: nonneg_weights_def)
  note x = median_loop_least [OF assms(2,4-8)]
  have ty: "m \<le> wsum (\<lambda>_. True) ys" "\<exists>w. Some w \<in> set ys"
    using assms(7,8) st ws by auto
  note y = median_loop_least [OF assms(3) nn assms(5,6) ty]
  obtain u where u: "Some u \<in> set xs" "wt_TimeMs u = median_loop m xs" using x by blast
  obtain v where v: "Some v \<in> set ys" "wt_TimeMs v = median_loop m ys" using y by blast
  have "median_loop m ys \<le> median_loop m xs"
    using y x u st ws by simp metis
  moreover have "median_loop m xs \<le> median_loop m ys"
    using x y v st ws by simp metis
  ultimately show ?thesis by simp
qed

lemma median_loop_no_entry: "\<nexists>w. Some w \<in> set ws \<Longrightarrow> median_loop m ws = 0"
  by (induction m ws rule: median_loop.induct) auto

lemma weightedMedian_mset:
  assumes "mset xs = mset ys" and "nonneg_weights xs" and "p = wsum (\<lambda>_. True) xs" and "p < 2 ^ 63"
  shows "weightedMedian xs p = weightedMedian ys p"
proof (cases "\<exists>w. Some w \<in> set xs")
  case True
  have "0 \<le> p" using assms wsum_nonneg by simp
  moreover have "median_loop (p div 2) (sort_key wt_key xs) = median_loop (p div 2) (sort_key wt_key ys)"
    by (rule median_loop_any_order) (use assms True \<open>0 \<le> p\<close> in auto)
  ultimately show ?thesis by (simp add: weightedMedian_def go_div_nonneg)
next
  case False
  moreover have "set ys = set xs" using assms(1) by (metis mset_eq_setD)
  ultimately show ?thesis by (simp add: weightedMedian_def median_loop_no_entry)
qed

section \<open>The median of a commit\<close>

text \<open>The signatures of a commit that count, and the voting power of those that satisfy \<open>P\<close>.\<close>

definition counted ::
  "('val, 'vs, 'hvs, 'blk, 'e) ext_scheme \<Rightarrow> 'val option \<Rightarrow> commit_sig \<Rightarrow> bool" where
  "counted E validators s \<longleftrightarrow> weighted_entry E validators s \<noteq> None"

definition sig_power ::
  "('val, 'vs, 'hvs, 'blk, 'e) ext_scheme \<Rightarrow> 'val option \<Rightarrow> commit_sig \<Rightarrow> int" where
  "sig_power E validators s =
     (case weighted_entry E validators s of None \<Rightarrow> 0 | Some w \<Rightarrow> wt_Weight w)"

definition power_of ::
  "('val, 'vs, 'hvs, 'blk, 'e) ext_scheme \<Rightarrow> 'val option \<Rightarrow> (commit_sig \<Rightarrow> bool)
     \<Rightarrow> commit_sig list \<Rightarrow> int" where
  "power_of E validators P sigs =
     (\<Sum>s\<leftarrow>sigs. if P s then sig_power E validators s else 0)"

lemma power_of_simps [simp]:
  "power_of E vals P [] = 0"
  "power_of E vals P (s # ss) = (if P s then sig_power E vals s else 0) + power_of E vals P ss"
  by (simp_all add: power_of_def)

lemma weighted_entry_time:
  "weighted_entry E vals s = Some w \<Longrightarrow> wt_TimeMs w = sig_TimestampMs s"
  by (auto simp: weighted_entry_def split: if_splits)

lemma wsum_eq_power_of:
  "wsum (\<lambda>w. Q (wt_TimeMs w)) (map (weighted_entry E vals) sigs)
     = power_of E vals (\<lambda>s. Q (sig_TimestampMs s)) sigs"
proof (induction sigs)
  case (Cons s ss)
  then show ?case
    by (cases "weighted_entry E vals s") (auto simp: sig_power_def dest: weighted_entry_time)
qed simp

lemma power_of_mono:
  assumes "\<forall>s\<in>set sigs. counted E vals s \<longrightarrow> 0 \<le> sig_power E vals s"
    and "\<And>s. s \<in> set sigs \<Longrightarrow> counted E vals s \<Longrightarrow> P s \<Longrightarrow> Q s"
  shows "power_of E vals P sigs \<le> power_of E vals Q sigs"
  using assms
proof (induction sigs)
  case (Cons s ss)
  have "power_of E vals P ss \<le> power_of E vals Q ss" using Cons by auto
  moreover have "sig_power E vals s = 0" if "\<not> counted E vals s"
    using that by (simp add: counted_def sig_power_def)
  ultimately show ?case using Cons.prems by (cases "counted E vals s") (auto 0 3)
qed simp

lemma power_of_split:
  "power_of E vals (\<lambda>_. True) sigs = power_of E vals P sigs + power_of E vals (\<lambda>s. \<not> P s) sigs"
  by (induction sigs) auto

lemma power_of_pos:
  assumes "\<forall>s\<in>set sigs. counted E vals s \<longrightarrow> 0 < sig_power E vals s"
    and "s \<in> set sigs" and "counted E vals s" and "P s"
  shows "0 < power_of E vals P sigs"
  using assms
proof (induction sigs)
  case (Cons a ss)
  have "0 \<le> power_of E vals P ss"
    using power_of_mono [of ss E vals "\<lambda>_. False" P] Cons.prems
    by (auto simp: power_of_def less_imp_le)
  moreover have "0 \<le> sig_power E vals a"
    using Cons.prems by (cases "counted E vals a") (auto simp: counted_def sig_power_def)
  ultimately show ?case using Cons by (auto intro: add_pos_nonneg add_nonneg_pos)
qed simp

lemma power_of_pos_ex:
  "0 < power_of E vals P sigs \<Longrightarrow> \<exists>s\<in>set sigs. counted E vals s \<and> P s"
proof (induction sigs)
  case (Cons a ss)
  then show ?case
    by (cases "counted E vals a \<and> P a") (auto simp: counted_def sig_power_def split: if_splits)
qed simp

text \<open>What the loop finds, on the signatures of a commit.\<close>

lemma MedianTime_least:
  fixes sigs :: "commit_sig list" and tot :: int
  assumes tot_eq: "tot = power_of E vals (\<lambda>_. True) sigs"
    and pos: "\<forall>s\<in>set sigs. counted E vals s \<longrightarrow> 0 < sig_power E vals s"
    and small: "tot < 2 ^ 63" and ne: "0 < tot" and sigs: "c_Signatures c = sigs"
  shows "\<exists>t. MedianTime E (Some c) vals = Inr t
    \<and> (\<exists>s\<in>set sigs. counted E vals s \<and> sig_TimestampMs s = t)
    \<and> tot div 2 \<le> power_of E vals (\<lambda>s. sig_TimestampMs s \<le> t) sigs
    \<and> (\<forall>s\<in>set sigs. counted E vals s
         \<longrightarrow> tot div 2 \<le> power_of E vals (\<lambda>s'. sig_TimestampMs s' \<le> sig_TimestampMs s) sigs
         \<longrightarrow> t \<le> sig_TimestampMs s)"
proof -
  define ws where "ws = map (weighted_entry E vals) sigs"
  have nn: "nonneg_weights ws"
    using pos by (auto simp: nonneg_weights_def ws_def counted_def sig_power_def
        split: option.splits dest!: bspec)
  have W: "wsum (\<lambda>w. Q (wt_TimeMs w)) ws = power_of E vals (\<lambda>s. Q (sig_TimestampMs s)) sigs" for Q
    unfolding ws_def by (rule wsum_eq_power_of)
  have T: "wsum (\<lambda>_. True) ws = tot" using W [of "\<lambda>_. True"] by (simp add: tot_eq)
  have sp: "sum_power 0 ws = tot" using sum_power_eq [OF nn, of 0] small T by simp
  define t where "t = median_loop (tot div 2) (sort_key wt_key ws)"
  have M: "MedianTime E (Some c) vals = Inr t"
    using ne by (simp add: MedianTime_def sigs ws_def [symmetric] sp weightedMedian_def t_def
        go_div_nonneg)
  have ex: "\<exists>w. Some w \<in> set (sort_key wt_key ws)"
    using wsum_pos_entry [of "\<lambda>_. True" ws] ne T by auto
  have sets: "Some w \<in> set ws \<longleftrightarrow> (\<exists>s\<in>set sigs. weighted_entry E vals s = Some w)" for w
    by (auto simp: ws_def image_iff) metis+
  note L = median_loop_least [of "sort_key wt_key ws" "tot div 2", folded t_def,
      unfolded wsum_sort_key T set_sort nonneg_weights_sort_key]
  have L': "(\<exists>w. Some w \<in> set ws \<and> wt_TimeMs w = t) \<and> tot div 2 \<le> power_upto t ws
      \<and> (\<forall>u. Some u \<in> set ws \<longrightarrow> tot div 2 \<le> power_upto (wt_TimeMs u) ws \<longrightarrow> t \<le> wt_TimeMs u)"
    by (rule L) (use nn ex small ne in auto)
  show ?thesis
  proof (intro exI conjI ballI impI)
    show "MedianTime E (Some c) vals = Inr t" by (rule M)
    show "\<exists>s\<in>set sigs. counted E vals s \<and> sig_TimestampMs s = t"
    proof -
      obtain w s where "s \<in> set sigs" "weighted_entry E vals s = Some w" "wt_TimeMs w = t"
        using L' by (auto simp: sets)
      then show ?thesis using weighted_entry_time [of E vals s w] by (auto simp: counted_def)
    qed
    show "tot div 2 \<le> power_of E vals (\<lambda>s. sig_TimestampMs s \<le> t) sigs"
      using L' W [of "\<lambda>x. x \<le> t"] by simp
  next
    fix s assume s: "s \<in> set sigs" "counted E vals s"
      "tot div 2 \<le> power_of E vals (\<lambda>s'. sig_TimestampMs s' \<le> sig_TimestampMs s) sigs"
    obtain w where w: "weighted_entry E vals s = Some w" using s by (auto simp: counted_def)
    then have tw: "wt_TimeMs w = sig_TimestampMs s" by (rule weighted_entry_time)
    have "Some w \<in> set ws" using w s sets by blast
    then show "t \<le> sig_TimestampMs s"
      using L' tw s(3) W [of "\<lambda>x. x \<le> sig_TimestampMs s"] by auto
  qed
qed

lemma MedianTime_between:
  fixes sigs :: "commit_sig list" and tot :: int
  assumes tot_eq: "tot = power_of E vals (\<lambda>_. True) sigs"
    and pos: "\<forall>s\<in>set sigs. counted E vals s \<longrightarrow> 0 < sig_power E vals s"
    and small: "tot < 2 ^ 63" and sigs: "c_Signatures c = sigs"
    and faulty: "3 * power_of E vals (\<lambda>s. \<not> honest s) sigs < tot"
  shows "\<exists>t. MedianTime E (Some c) vals = Inr t
    \<and> (\<exists>s\<in>set sigs. honest s \<and> counted E vals s \<and> sig_TimestampMs s \<le> t)
    \<and> (\<exists>s\<in>set sigs. honest s \<and> counted E vals s \<and> t \<le> sig_TimestampMs s)"
proof -
  let ?P = "power_of E vals"
  define F where "F = ?P (\<lambda>s. \<not> honest s) sigs"
  have nn: "\<forall>s\<in>set sigs. counted E vals s \<longrightarrow> 0 \<le> sig_power E vals s" using pos by fastforce
  have F0: "0 \<le> F"
    using power_of_mono [OF nn, of "\<lambda>_. False" "\<lambda>s. \<not> honest s"] by (simp add: F_def power_of_def)
  have split: "tot = ?P honest sigs + F"
    unfolding tot_eq F_def by (rule power_of_split)
  have ne: "0 < tot" using faulty F0 by (simp add: F_def)
  obtain t where t: "MedianTime E (Some c) vals = Inr t"
    and own: "\<exists>s\<in>set sigs. counted E vals s \<and> sig_TimestampMs s = t"
    and half: "tot div 2 \<le> ?P (\<lambda>s. sig_TimestampMs s \<le> t) sigs"
    and least: "\<forall>s\<in>set sigs. counted E vals s
         \<longrightarrow> tot div 2 \<le> ?P (\<lambda>s'. sig_TimestampMs s' \<le> sig_TimestampMs s) sigs
         \<longrightarrow> t \<le> sig_TimestampMs s"
    using MedianTime_least [OF tot_eq pos small ne sigs] by blast
  define H where "H = {s \<in> set sigs. honest s \<and> counted E vals s}"
  have "0 < ?P honest sigs" using split faulty F0 by (simp add: F_def)
  then have "H \<noteq> {}" using power_of_pos_ex [of E vals honest sigs] by (auto simp: H_def)
  then have "Max (sig_TimestampMs ` H) \<in> sig_TimestampMs ` H"
    by (intro Max_in) (auto simp: H_def)
  then obtain hi where hi: "hi \<in> H" and max: "sig_TimestampMs hi = Max (sig_TimestampMs ` H)"
    by auto
  have top: "sig_TimestampMs s \<le> sig_TimestampMs hi" if "s \<in> H" for s
    unfolding max by (rule Max_ge) (use that in \<open>auto simp: H_def\<close>)
  have "?P honest sigs \<le> ?P (\<lambda>s. sig_TimestampMs s \<le> sig_TimestampMs hi) sigs"
    by (rule power_of_mono [OF nn]) (use top in \<open>auto simp: H_def\<close>)
  then have above: "t \<le> sig_TimestampMs hi"
    using least hi split faulty F0 by (force simp: H_def F_def)
  have "\<exists>s\<in>H. sig_TimestampMs s \<le> t"
  proof (rule ccontr)
    assume none: "\<not> ?thesis"
    have "?P (\<lambda>s. sig_TimestampMs s \<le> t) sigs \<le> F"
      unfolding F_def by (rule power_of_mono [OF nn]) (use none in \<open>auto simp: H_def\<close>)
    moreover have "0 < F"
      using own none power_of_pos [OF pos, of _ "\<lambda>s. \<not> honest s"] by (auto simp: F_def H_def)
    ultimately show False using half faulty by (simp add: F_def)
  qed
  then show ?thesis using t above hi by (auto simp: H_def)
qed

lemma MedianTime_mset:
  assumes "mset (c_Signatures c) = mset (c_Signatures c')"
    and pos: "\<forall>s\<in>set (c_Signatures c). counted E vals s \<longrightarrow> 0 \<le> sig_power E vals s"
    and "power_of E vals (\<lambda>_. True) (c_Signatures c) < 2 ^ 63"
  shows "MedianTime E (Some c) vals = MedianTime E (Some c') vals"
proof -
  let ?ws = "\<lambda>c. map (weighted_entry E vals) (c_Signatures c)"
  have m: "mset (?ws c) = mset (?ws c')" using assms(1) by simp
  have nn: "nonneg_weights (?ws c)"
    using pos by (auto simp: nonneg_weights_def counted_def sig_power_def
        split: option.splits dest!: bspec)
  then have nn': "nonneg_weights (?ws c')"
    using mset_eq_setD [OF m] by (simp add: nonneg_weights_def)
  have W: "wsum (\<lambda>_. True) (?ws c) = power_of E vals (\<lambda>_. True) (c_Signatures c)"
    by (rule wsum_eq_power_of [of "\<lambda>_. True"])
  have "sum_power 0 (?ws c) = wsum (\<lambda>_. True) (?ws c)"
    using sum_power_eq [OF nn, of 0] W assms(3) by simp
  moreover have "sum_power 0 (?ws c') = wsum (\<lambda>_. True) (?ws c)"
    using sum_power_eq [OF nn', of 0] wsum_mset [OF m] W assms(3) by simp
  ultimately show ?thesis
    using weightedMedian_mset [OF m nn refl] W assms(3) by (simp add: MedianTime_def)
qed

section \<open>Properties\<close>


text \<open>The witness: four signers of power 1, of which the one with the latest time is faulty.\<close>

definition median_sample_sig :: "address \<Rightarrow> u64 \<Rightarrow> commit_sig" where
  "median_sample_sig a t = \<lparr>sig_BlockIDFlag = BlockIDFlagCommit, sig_ValidatorAddress = a,
     sig_TimestampMs = t, sig_Signature = []\<rparr>"

definition median_sample_sigs :: "commit_sig list" where
  "median_sample_sigs =
     [median_sample_sig 1 30, median_sample_sig 2 10, median_sample_sig 3 20, median_sample_sig 4 99]"

definition median_sample_vals :: "validator list" where
  "median_sample_vals = map (\<lambda>a. \<lparr>val_Address = a, val_PubKey = [], val_VotingPower = 1\<rparr>) [1, 2, 3, 4]"


text \<open>C36. The median time does not depend on the order of the signatures in the commit, although
  \<open>sort.Slice\<close> is not stable: two commits with the same signatures in any order give the same
  time, so honest nodes that list the precommits differently agree on the time of the block.\<close>

theorem median_time_order_independent:
  assumes "mset (c_Signatures c) = mset (c_Signatures c')"
    and "\<forall>s\<in>set (c_Signatures c). counted E vals s \<longrightarrow> 0 \<le> sig_power E vals s"
    and "power_of E vals (\<lambda>_. True) (c_Signatures c) < 2 ^ 63"
  shows "MedianTime E (Some c) vals = MedianTime E (Some c') vals"
  using assms by (rule MedianTime_mset)

theorem median_time_order_independent_witness:
  "MedianTime sample_ext (Some \<lparr>c_Height = 1, c_Round = 0, c_BlockID = 7,
       c_Signatures = median_sample_sigs\<rparr>) (Some median_sample_vals)
   = MedianTime sample_ext (Some \<lparr>c_Height = 2, c_Round = 5, c_BlockID = 9,
       c_Signatures = rev median_sample_sigs\<rparr>) (Some median_sample_vals)"
  by (rule median_time_order_independent)
    (simp_all add: median_sample_sigs_def median_sample_sig_def median_sample_vals_def
      counted_def sig_power_def weighted_entry_def sample_ext_def sample_vals_def)

end
