(* ===== verification/Chain_State.thy ===== *)
theory Chain_State
  imports Median_Time
begin

text \<open>
  \<open>consensus/chain_state.go\<close>: the state of the committed chain, its copy, the two constructors and
  the block built from it.
\<close>

record 'val chain_state =
  st_ChainID :: string
  st_InitialHeight :: u64
  st_LastBlockHeight :: u64
  st_LastBlockID :: hash
  st_LastBlockTime :: u64
  st_Validators :: "'val option"
  st_LastValidators :: "'val option"
  st_LastHeightValidatorsChanged :: int
  st_Epoch :: u64
  st_AppHash :: bytes

definition ChainState_IsEmpty :: "'val chain_state \<Rightarrow> bool" where
  "ChainState_IsEmpty state \<longleftrightarrow> st_Validators state = None"

definition ChainState_Copy ::
  "('val, 'vs, 'hvs, 'blk, 'e) ext_scheme \<Rightarrow> 'val chain_state \<Rightarrow> 'val chain_state" where
  "ChainState_Copy E state =
     \<lparr>st_ChainID = st_ChainID state,
      st_InitialHeight = st_InitialHeight state,
      st_LastBlockHeight = st_LastBlockHeight state,
      st_LastBlockID = st_LastBlockID state,
      st_LastBlockTime = st_LastBlockTime state,
      st_Validators = vals_Copy E (st_Validators state),
      st_LastValidators = vals_Copy E (st_LastValidators state),
      st_LastHeightValidatorsChanged = st_LastHeightValidatorsChanged state,
      st_Epoch = st_Epoch state,
      st_AppHash = st_AppHash state\<rparr>"

definition MakeGenesisChainState ::
  "('val, 'vs, 'hvs, 'blk, 'e) ext_scheme \<Rightarrow> string \<Rightarrow> u64 \<Rightarrow> address list \<Rightarrow> int list \<Rightarrow> u64 \<Rightarrow> int
     \<Rightarrow> 'val chain_state" where
  "MakeGenesisChainState E chainID genesisTimeMs validatorAddrs votingPowers epoch proposerReptition =
     (let vs = NewValidatorSet E validatorAddrs votingPowers proposerReptition in
      \<lparr>st_ChainID = chainID,
       st_InitialHeight = 1,
       st_LastBlockHeight = 0,
       st_LastBlockID = 0,
       st_LastBlockTime = genesisTimeMs,
       st_Validators = Some vs,
       st_LastValidators = Some (EmptyValidatorSet E),
       st_LastHeightValidatorsChanged = 1,
       st_Epoch = epoch,
       st_AppHash = []\<rparr>)"

definition MakeChainState ::
  "string \<Rightarrow> u64 \<Rightarrow> hash \<Rightarrow> u64 \<Rightarrow> 'val option \<Rightarrow> 'val option \<Rightarrow> u64 \<Rightarrow> 'val chain_state" where
  "MakeChainState chainID parentHeight parentHash parentTimeMs lastValSet valSet epoch =
     \<lparr>st_ChainID = chainID,
      st_InitialHeight = 1,
      st_LastBlockHeight = parentHeight,
      st_LastBlockID = parentHash,
      st_LastBlockTime = parentTimeMs,
      st_Validators = valSet,
      st_LastValidators = lastValSet,
      st_LastHeightValidatorsChanged = 1,
      st_Epoch = epoch,
      st_AppHash = []\<rparr>"

section \<open>Making a block\<close>

definition ChainState_MakeBlock ::
  "('val, 'vs, 'hvs, 'blk, 'e) ext_scheme \<Rightarrow> 'val chain_state \<Rightarrow> u64 \<Rightarrow> commit option \<Rightarrow> address
     \<Rightarrow> 'blk option res" where
  "ChainState_MakeBlock E state height commit proposerAddress =
     andThen
       (if height = st_InitialHeight state then Inr (st_LastBlockTime state)
        else MedianTime E commit (st_LastValidators state))
       (\<lambda>timestamp.
         Inr (Some (NewFullBlock E
           \<lparr>h_ParentHash = st_LastBlockID state,
            h_Number = i64_of_u64 height,
            h_Time = timestamp div 1000,
            h_TimeMs = timestamp,
            h_Coinbase = proposerAddress,
            h_LastCommitHash = commit_Hash E commit,
            h_Difficulty = i64_of_u64 height,
            h_Extra = [],
            h_BaseFee = 0\<rparr> commit)))"

end
