(* ===== verification/Block_Executor.thy ===== *)
theory Block_Executor
  imports Chain_State
begin

text \<open>
  \<open>consensus/default_block_executor.go\<close>: the checks a block has to pass on top of a chain state, and
  the chain state after it. The locale \<open>block_executor\<close> is the contract of the \<open>BlockExecutor\<close>
  interface that the consensus state machine and block sync rely on; it is interpreted on the
  functions of \<open>DefaultBlockExecutor\<close> at the end.
\<close>

section \<open>The code\<close>

text \<open>\<open>validateBlock\<close> returns the first error, in the order of the source; the two runtime panics
  are the dereference of a missing \<open>LastCommit\<close> and the remainder by an epoch of 0.\<close>

definition validateBlock_time ::
  "('val, 'vs, 'hvs, 'blk, 'e) ext_scheme \<Rightarrow> 'val chain_state \<Rightarrow> 'blk \<Rightarrow> go_error option res" where
  "validateBlock_time E state block =
     (if blk_NumberU64 E block > st_InitialHeight state then
        if blk_TimeMs E block \<le> st_LastBlockTime state then Inr (Some BlockTimeNotAfterLast)
        else andThen (MedianTime E (blk_LastCommit E block) (st_LastValidators state)) (\<lambda>medianTime.
          if blk_TimeMs E block \<noteq> medianTime then Inr (Some InvalidBlockTime) else Inr None)
      else if blk_NumberU64 E block = st_InitialHeight state then
        if blk_TimeMs E block \<noteq> st_LastBlockTime state then Inr (Some NotGenesisTime) else Inr None
      else Inr (Some HeightBelowInitial))"

definition validateBlock_header ::
  "('val, 'vs, 'hvs, 'blk, 'e) ext_scheme \<Rightarrow> 'val chain_state \<Rightarrow> 'blk \<Rightarrow> go_error option res" where
  "validateBlock_header E state block =
     (if st_Epoch state = 0 then Inl DivideByZero
      else if blk_NumberU64 E block mod st_Epoch state \<noteq> 0 \<and> blk_NextValidators E block \<noteq> []
      then Inr (Some ValidatorChangeWithinEpoch)
      else if \<not> vals_HasAddress E (st_Validators state) (blk_Coinbase E block)
      then Inr (Some ProposerNotValidator)
      else if blk_TimeMs E block div 1000 \<noteq> blk_Time E block then Inr (Some IncorrectTimestamp)
      else validateBlock_time E state block)"

definition validateBlock ::
  "('val, 'vs, 'hvs, 'blk, 'e) ext_scheme \<Rightarrow> 'val chain_state \<Rightarrow> 'blk \<Rightarrow> go_error option res" where
  "validateBlock E state block =
     (if st_LastBlockHeight state = 0 \<and> blk_NumberU64 E block \<noteq> st_InitialHeight state
      then Inr (Some WrongInitialHeight)
      else if st_LastBlockHeight state > 0 \<and> blk_NumberU64 E block \<noteq> st_LastBlockHeight state + 1
      then Inr (Some WrongHeight)
      else if blk_ParentHash E block \<noteq> st_LastBlockID state then Inr (Some WrongLastBlockID)
      else if blk_NumberU64 E block = st_InitialHeight state then
        andThen (deref (blk_LastCommit E block)) (\<lambda>lastCommit.
          if length (c_Signatures lastCommit) \<noteq> 0 then Inr (Some InitialCommitHasSignatures)
          else validateBlock_header E state block)
      else
        (case vals_VerifyCommit E (st_LastValidators state) (st_ChainID state)
            (st_LastBlockID state) (blk_NumberU64 E block - 1) (blk_LastCommit E block) of
           Some err \<Rightarrow> Inr (Some err)
         | None \<Rightarrow> validateBlock_header E state block))"

definition updateState ::
  "('val, 'vs, 'hvs, 'blk, 'e) ext_scheme \<Rightarrow> 'val chain_state \<Rightarrow> hash \<Rightarrow> 'blk \<Rightarrow> address list
     \<Rightarrow> int list \<Rightarrow> (go_error + 'val chain_state) res" where
  "updateState E state blockID block nextValidators nextVotingPowers =
     andThen
       (if length nextValidators \<noteq> 0 then
          if length nextValidators \<noteq> length nextVotingPowers then Inl ValidatorPowersMismatch
          else
            \<comment> \<open>the code reads the field \<open>ProposerReptition\<close> of \<open>nValSet\<close>, still \<open>nil\<close> here\<close>
            andThen (deref None) (\<lambda>nValSet.
              Inr (Some (NewValidatorSet E nextValidators nextVotingPowers
                (vals_ProposerReptition E nValSet))))
        else vals_IncrementProposerPriority E 1 (vals_Copy E (st_Validators state)))
       (\<lambda>nValSet. Inr (Inr
          \<lparr>st_ChainID = st_ChainID state,
           st_InitialHeight = st_InitialHeight state,
           st_LastBlockHeight = blk_NumberU64 E block,
           st_LastBlockID = blockID,
           st_LastBlockTime = blk_TimeMs E block,
           st_Validators = nValSet,
           st_LastValidators = vals_Copy E (st_Validators state),
           st_LastHeightValidatorsChanged = 0,
           st_Epoch = st_Epoch state,
           st_AppHash = []\<rparr>))"

definition DefaultBlockExecutor_ApplyBlock ::
  "('val, 'vs, 'hvs, 'blk, 'e) ext_scheme \<Rightarrow> 'val chain_state \<Rightarrow> 'blk \<Rightarrow> (go_error + 'val chain_state) res"
  where
  "DefaultBlockExecutor_ApplyBlock E state block =
     andThen (updateState E state (blk_Hash E block) block [] []) (\<lambda>r.
       case r of
         Inl err \<Rightarrow> Inr (Inl (OtherError ''commit failed for application''))
       | Inr state' \<Rightarrow> Inr (Inr state'))"

definition DefaultBlockExecutor_MakeBlock ::
  "('val, 'vs, 'hvs, 'blk, 'e) ext_scheme \<Rightarrow> 'val chain_state \<Rightarrow> u64 \<Rightarrow> commit option \<Rightarrow> address
     \<Rightarrow> 'blk option res" where
  "DefaultBlockExecutor_MakeBlock E chainState height commit proposerAddress =
     ChainState_MakeBlock E chainState height commit proposerAddress"

section \<open>What the checks mean\<close>

text \<open>The height of the block that may follow a chain state.\<close>

definition next_number :: "'val chain_state \<Rightarrow> u64" where
  "next_number state =
     (if st_LastBlockHeight state = 0 then st_InitialHeight state else st_LastBlockHeight state + 1)"

lemma validateBlock_number:
  "validateBlock E state block = Inr None \<Longrightarrow> blk_NumberU64 E block = next_number state"
  by (auto simp: validateBlock_def next_number_def word_gt_0 split: if_splits)

lemma validateBlock_parent:
  "validateBlock E state block = Inr None \<Longrightarrow> blk_ParentHash E block = st_LastBlockID state"
  by (auto simp: validateBlock_def split: if_splits)

lemma validateBlock_header_ok:
  "validateBlock E state block = Inr None \<Longrightarrow> validateBlock_header E state block = Inr None"
  by (auto simp: validateBlock_def andThen_eq_Inr split: if_splits option.splits)

lemma validateBlock_time_ok:
  "validateBlock_header E state block = Inr None \<Longrightarrow> validateBlock_time E state block = Inr None"
  by (auto simp: validateBlock_header_def split: if_splits)

lemma validateBlock_time_after:
  assumes "validateBlock E state block = Inr None" and "st_InitialHeight state < blk_NumberU64 E block"
  shows "st_LastBlockTime state < blk_TimeMs E block"
  using validateBlock_time_ok [OF validateBlock_header_ok [OF assms(1)]] assms(2)
  by (auto simp: validateBlock_time_def split: if_splits)

text \<open>The conditions of the source, written out.\<close>

definition block_conditions ::
  "('val, 'vs, 'hvs, 'blk, 'e) ext_scheme \<Rightarrow> 'val chain_state \<Rightarrow> 'blk \<Rightarrow> bool" where
  "block_conditions E state block \<longleftrightarrow>
     blk_NumberU64 E block = next_number state
     \<and> blk_ParentHash E block = st_LastBlockID state
     \<and> (if blk_NumberU64 E block = st_InitialHeight state
        then \<exists>c. blk_LastCommit E block = Some c \<and> c_Signatures c = []
        else vals_VerifyCommit E (st_LastValidators state) (st_ChainID state) (st_LastBlockID state)
               (blk_NumberU64 E block - 1) (blk_LastCommit E block) = None)
     \<and> st_Epoch state \<noteq> 0
     \<and> (blk_NextValidators E block = [] \<or> blk_NumberU64 E block mod st_Epoch state = 0)
     \<and> vals_HasAddress E (st_Validators state) (blk_Coinbase E block)
     \<and> blk_Time E block = blk_TimeMs E block div 1000
     \<and> st_InitialHeight state \<le> blk_NumberU64 E block
     \<and> (if blk_NumberU64 E block = st_InitialHeight state
        then blk_TimeMs E block = st_LastBlockTime state
        else st_LastBlockTime state < blk_TimeMs E block
          \<and> MedianTime E (blk_LastCommit E block) (st_LastValidators state) = Inr (blk_TimeMs E block))"

lemma validateBlock_time_iff:
  "validateBlock_time E state block = Inr None \<longleftrightarrow>
     st_InitialHeight state \<le> blk_NumberU64 E block
     \<and> (if blk_NumberU64 E block = st_InitialHeight state
        then blk_TimeMs E block = st_LastBlockTime state
        else st_LastBlockTime state < blk_TimeMs E block
          \<and> MedianTime E (blk_LastCommit E block) (st_LastValidators state) = Inr (blk_TimeMs E block))"
  by (auto simp: validateBlock_time_def andThen_eq_Inr not_less not_le)

lemma validateBlock_iff: "validateBlock E state block = Inr None \<longleftrightarrow> block_conditions E state block"
  unfolding block_conditions_def validateBlock_time_iff [symmetric]
  by (auto simp: validateBlock_def validateBlock_header_def next_number_def andThen_eq_Inr
      deref_eq_Inr word_gt_0 split: option.splits)

lemma ApplyBlock_state:
  assumes "DefaultBlockExecutor_ApplyBlock E state block = Inr (Inr state')"
  shows "st_LastBlockHeight state' = blk_NumberU64 E block"
    and "st_LastBlockID state' = blk_Hash E block"
    and "st_LastBlockTime state' = blk_TimeMs E block"
    and "st_InitialHeight state' = st_InitialHeight state"
    and "st_ChainID state' = st_ChainID state"
    and "st_LastValidators state' = vals_Copy E (st_Validators state)"
  using assms
  by (auto simp: DefaultBlockExecutor_ApplyBlock_def updateState_def andThen_eq_Inr)

lemma ApplyBlock_never_errs: "DefaultBlockExecutor_ApplyBlock E state block \<noteq> Inr (Inl err)"
  by (auto simp: DefaultBlockExecutor_ApplyBlock_def updateState_def andThen_eq_Inr split: sum.splits)

section \<open>The contract of the BlockExecutor interface\<close>

text \<open>
  What the callers of \<open>ValidateBlock\<close> and \<open>ApplyBlock\<close> rely on: a valid block has the next height and
  points to the last block, and applying a block makes it the last one. \<open>obs\<close> is the part of the
  chain state the contract speaks about: the height and the hash of the last block and the initial
  height.
\<close>

locale block_executor =
  fixes validate :: "'st \<Rightarrow> 'blk \<Rightarrow> go_error option res"
    and exec :: "'st \<Rightarrow> 'blk \<Rightarrow> (go_error + 'st) res"
    and last_height :: "'st \<Rightarrow> u64"
    and last_id :: "'st \<Rightarrow> hash"
    and initial :: "'st \<Rightarrow> u64"
    and number :: "'blk \<Rightarrow> u64"
    and block_id :: "'blk \<Rightarrow> hash"
    and parent :: "'blk \<Rightarrow> hash"
  assumes valid_number: "validate st b = Inr None \<Longrightarrow>
      number b = (if last_height st = 0 then initial st else last_height st + 1)"
    and valid_parent: "validate st b = Inr None \<Longrightarrow> parent b = last_id st"
    and exec_height: "exec st b = Inr (Inr st') \<Longrightarrow> last_height st' = number b"
    and exec_id: "exec st b = Inr (Inr st') \<Longrightarrow> last_id st' = block_id b"
    and exec_initial: "exec st b = Inr (Inr st') \<Longrightarrow> initial st' = initial st"
begin

text \<open>One committed block moves the height by one (or to the initial height).\<close>

lemma exec_next:
  assumes "validate st b = Inr None" and "exec st b = Inr (Inr st')"
  shows "last_height st' = (if last_height st = 0 then initial st else last_height st + 1)"
  using valid_number [OF assms(1)] exec_height [OF assms(2)] by simp

text \<open>Two blocks committed one after the other are linked by their hashes.\<close>

lemma exec_linked:
  assumes "exec st b = Inr (Inr st')" and "validate st' b' = Inr None"
  shows "parent b' = block_id b"
  using exec_id [OF assms(1)] valid_parent [OF assms(2)] by simp

lemma exec_contiguous:
  assumes "exec st b = Inr (Inr st')" and "validate st' b' = Inr None" and "number b \<noteq> 0"
  shows "number b' = number b + 1"
  using exec_height [OF assms(1)] valid_number [OF assms(2)] assms(3) by simp

end

interpretation default_executor: block_executor
  "validateBlock E" "DefaultBlockExecutor_ApplyBlock E"
  st_LastBlockHeight st_LastBlockID st_InitialHeight
  "blk_NumberU64 E" "blk_Hash E" "blk_ParentHash E"
  for E :: "('val, 'vs, 'hvs, 'blk, 'e) ext_scheme"
  by unfold_locales
    (auto simp: validateBlock_number next_number_def validateBlock_parent ApplyBlock_state)

section \<open>A block that MakeBlock builds is valid\<close>

text \<open>What the code relies on of \<open>types.NewBlock\<close> and the accessors of \<open>FullBlock\<close>: the accessors
  return the header fields the block was made from, and a new block carries no next validators.\<close>

definition block_accessors_ok :: "('val, 'vs, 'hvs, 'blk, 'e) ext_scheme \<Rightarrow> bool" where
  "block_accessors_ok E \<longleftrightarrow> (\<forall>h c.
     blk_NumberU64 E (NewFullBlock E h c) = word_of_int (h_Number h)
     \<and> blk_ParentHash E (NewFullBlock E h c) = h_ParentHash h
     \<and> blk_Time E (NewFullBlock E h c) = h_Time h
     \<and> blk_TimeMs E (NewFullBlock E h c) = h_TimeMs h
     \<and> blk_Coinbase E (NewFullBlock E h c) = h_Coinbase h
     \<and> blk_LastCommit E (NewFullBlock E h c) = c
     \<and> blk_NextValidators E (NewFullBlock E h c) = [])"

lemma word_of_int_i64_of_u64 [simp]: "word_of_int (i64_of_u64 w) = w"
  by (simp add: i64_of_u64_def)

lemma MakeBlock_valid:
  assumes acc: "block_accessors_ok E"
    and made: "ChainState_MakeBlock E state (next_number state) commit addr = Inr (Some block)"
    and epoch: "st_Epoch state \<noteq> 0"
    and addr: "vals_HasAddress E (st_Validators state) addr"
    and init: "st_InitialHeight state \<le> next_number state"
    and first: "next_number state = st_InitialHeight state \<Longrightarrow> \<exists>c. commit = Some c \<and> c_Signatures c = []"
    and later: "next_number state \<noteq> st_InitialHeight state \<Longrightarrow>
       vals_VerifyCommit E (st_LastValidators state) (st_ChainID state) (st_LastBlockID state)
         (next_number state - 1) commit = None
       \<and> (\<forall>t. MedianTime E commit (st_LastValidators state) = Inr t \<longrightarrow> st_LastBlockTime state < t)"
  shows "validateBlock E state block = Inr None"
proof -
  obtain t where t: "(if next_number state = st_InitialHeight state then Inr (st_LastBlockTime state)
      else MedianTime E commit (st_LastValidators state)) = Inr t"
    and b: "block = NewFullBlock E
           \<lparr>h_ParentHash = st_LastBlockID state, h_Number = i64_of_u64 (next_number state),
            h_Time = t div 1000, h_TimeMs = t, h_Coinbase = addr,
            h_LastCommitHash = commit_Hash E commit,
            h_Difficulty = i64_of_u64 (next_number state), h_Extra = [], h_BaseFee = 0\<rparr> commit"
    using made unfolding ChainState_MakeBlock_def andThen_eq_Inr by blast
  note A = acc [unfolded block_accessors_ok_def, rule_format]
  show ?thesis
    unfolding validateBlock_iff block_conditions_def b
    using A t epoch addr init first later by (auto split: if_splits)
qed

section \<open>Properties\<close>

text \<open>C11. \<open>validateBlock\<close> accepts a block exactly when it has the next height, points to the last
  block, carries a verified commit for it (an empty one at the initial height), changes validators
  at an epoch boundary only, names a known proposer, has matching second and millisecond times and
  the right block time (the genesis time, or the median of its commit, later than the last
  block).\<close>

theorem validateBlock_accepts_iff:
  "validateBlock E state block = Inr None \<longleftrightarrow> block_conditions E state block"
  by (rule validateBlock_iff)

end
