(* ===== verification/Validator_Keys.thy ===== *)
theory Validator_Keys
  imports Sample_Instance
begin

text \<open>
  \<open>consensus/pubkey.go\<close> and \<open>consensus/priv_validator_local.go\<close>: a validator's public key is known
  by its address and a signature is checked by recovering the key; the local private validator
  signs votes and proposals with an ECDSA key it holds in memory. The locale \<open>priv_validator\<close> is
  the contract of the \<open>PrivValidator\<close> interface, interpreted on \<open>PrivValidatorLocal\<close>.
\<close>

section \<open>Public keys\<close>

text \<open>The interface \<open>PubKey\<close> has one implementation.\<close>

datatype pubkey = EcdsaPubKey (pubkey_Address: address)

definition NewEcdsaPubKey :: "address \<Rightarrow> pubkey" where
  "NewEcdsaPubKey addr = EcdsaPubKey addr"

definition pubkey_Type :: "pubkey \<Rightarrow> string" where
  "pubkey_Type k = ''ECDSA_PUBKEY''"

text \<open>\<open>copy(addr[:], bs)\<close> into a zero address: the first 20 bytes, big-endian.\<close>

definition address_of_bytes :: "bytes \<Rightarrow> address" where
  "address_of_bytes bs =
     foldl (\<lambda>a b. push_bit 8 a + ucast b) 0 (take 20 (bs @ replicate 20 0))"

definition pubKeyToAddress :: "('val, 'vs, 'hvs, 'blk, 'e) ext_scheme \<Rightarrow> bytes \<Rightarrow> address" where
  "pubKeyToAddress E pub = address_of_bytes (drop 12 (Keccak256 E (drop 1 pub)))"

definition EcdsaPubKey_VerifySignature ::
  "('val, 'vs, 'hvs, 'blk, 'e) ext_scheme \<Rightarrow> pubkey \<Rightarrow> bytes \<Rightarrow> bytes \<Rightarrow> bool" where
  "EcdsaPubKey_VerifySignature E pubkey msg sig =
     (let h = Keccak256 E msg in
      case Ecrecover E h sig of
        Inl err \<Rightarrow> False
      | Inr pub \<Rightarrow>
          if length pub = 0 \<or> pub ! 0 \<noteq> 4 then False
          else pubKeyToAddress E pub = pubkey_Address pubkey)"

section \<open>The local private validator\<close>

datatype PrivValidatorType =
    MockSignerClient | FileSignerClient | RetrySignerClient
  | SignerSocketClient | ErrorMockSignerClient | SignerGRPCClient

record priv_validator_local =
  PrivKey :: bytes

definition NewPrivValidatorLocal :: "bytes \<Rightarrow> priv_validator_local" where
  "NewPrivValidatorLocal privKey = \<lparr>PrivKey = privKey\<rparr>"

definition PrivValidatorLocal_Address ::
  "('val, 'vs, 'hvs, 'blk, 'e) ext_scheme \<Rightarrow> priv_validator_local \<Rightarrow> address" where
  "PrivValidatorLocal_Address E pv = PubkeyToAddress E (PrivKey pv)"

definition PrivValidatorLocal_GetPubKey ::
  "('val, 'vs, 'hvs, 'blk, 'e) ext_scheme \<Rightarrow> priv_validator_local \<Rightarrow> go_error + pubkey" where
  "PrivValidatorLocal_GetPubKey E pv = Inr (EcdsaPubKey (PrivValidatorLocal_Address E pv))"

text \<open>A signing function returns its error, if any, and the vote it changed. \<open>now\<close> is the reading of
  the clock that \<open>CanonicalNowMs\<close> makes. On an error \<open>crypto.Sign\<close> returns no signature.\<close>

definition sign_result :: "go_error + bytes \<Rightarrow> go_error option \<times> bytes" where
  "sign_result r = (case r of Inl err \<Rightarrow> (Some err, []) | Inr s \<Rightarrow> (None, s))"

definition PrivValidatorLocal_SignVote ::
  "('val, 'vs, 'hvs, 'blk, 'e) ext_scheme \<Rightarrow> priv_validator_local \<Rightarrow> gotime \<Rightarrow> string \<Rightarrow> vote
     \<Rightarrow> go_error option \<times> vote" where
  "PrivValidatorLocal_SignVote E pv now chainId vote =
     (let vote = vote\<lparr>v_TimestampMs := to_u64 (UnixMilli now)\<rparr>;
          b = VoteSignBytes E vote chainId;
          h = Keccak256 E b;
          (err, sign) = sign_result (Sign E h (PrivKey pv))
      in (err, vote\<lparr>v_Signature := sign\<rparr>))"

definition PrivValidatorLocal_SignProposal ::
  "('val, 'vs, 'hvs, 'blk, 'e) ext_scheme \<Rightarrow> priv_validator_local \<Rightarrow> string \<Rightarrow> 'blk proposal
     \<Rightarrow> go_error option \<times> 'blk proposal" where
  "PrivValidatorLocal_SignProposal E pv chainID proposal =
     (let b = ProposalSignBytes E proposal chainID;
          h = Keccak256 E b;
          (err, sign) = sign_result (Sign E h (PrivKey pv))
      in (err, proposal\<lparr>p_Signature := sign\<rparr>))"

section \<open>Signing\<close>

lemma SignVote_fields:
  assumes "PrivValidatorLocal_SignVote E pv now ch v = (err, v')"
  shows "v_Height v' = v_Height v \<and> v_Round v' = v_Round v \<and> v_Type v' = v_Type v
    \<and> v_BlockID v' = v_BlockID v \<and> v_ValidatorAddress v' = v_ValidatorAddress v
    \<and> v_ValidatorIndex v' = v_ValidatorIndex v"
  using assms by (auto simp: PrivValidatorLocal_SignVote_def Let_def split: prod.splits)

lemma SignVote_timestamp:
  assumes "PrivValidatorLocal_SignVote E pv now ch v = (err, v')"
  shows "v_TimestampMs v' = to_u64 (UnixMilli now)"
  using assms by (auto simp: PrivValidatorLocal_SignVote_def Let_def split: prod.splits)

lemma SignProposal_fields:
  assumes "PrivValidatorLocal_SignProposal E pv ch p = (err, p')"
  shows "p_Height p' = p_Height p \<and> p_Round p' = p_Round p \<and> p_POLRound p' = p_POLRound p
    \<and> p_Block p' = p_Block p"
  using assms by (auto simp: PrivValidatorLocal_SignProposal_def Let_def split: prod.splits)

text \<open>What the code relies on of \<open>crypto\<close> and of the sign bytes: the key recovered from a signature
  is the uncompressed public key of the signer, its address is that of the private key, and the
  bytes to sign do not cover the signature field.\<close>

definition crypto_ok :: "('val, 'vs, 'hvs, 'blk, 'e) ext_scheme \<Rightarrow> bool" where
  "crypto_ok E \<longleftrightarrow>
     (\<forall>h k s. Sign E h k = Inr s \<longrightarrow>
        (\<exists>pub. Ecrecover E h s = Inr pub \<and> length pub > 0 \<and> pub ! 0 = 4
           \<and> pubKeyToAddress E pub = PubkeyToAddress E k))
     \<and> (\<forall>v ch s. VoteSignBytes E (v\<lparr>v_Signature := s\<rparr>) ch = VoteSignBytes E v ch)
     \<and> (\<forall>p ch s. ProposalSignBytes E (p\<lparr>p_Signature := s\<rparr>) ch = ProposalSignBytes E p ch)"

lemma crypto_ok_verify:
  assumes "crypto_ok E" and "Sign E (Keccak256 E msg) (PrivKey pv) = Inr s"
    and "PrivValidatorLocal_GetPubKey E pv = Inr k"
  shows "EcdsaPubKey_VerifySignature E k msg s"
proof -
  obtain pub where "Ecrecover E (Keccak256 E msg) s = Inr pub" "length pub > 0" "pub ! 0 = 4"
    "pubKeyToAddress E pub = PubkeyToAddress E (PrivKey pv)"
    using assms(1,2) unfolding crypto_ok_def by blast
  then show ?thesis
    using assms(3)
    by (auto simp: EcdsaPubKey_VerifySignature_def PrivValidatorLocal_GetPubKey_def
        PrivValidatorLocal_Address_def)
qed

lemma sign_result_ok [simp]: "sign_result r = (None, s) \<longleftrightarrow> r = Inr s"
  by (auto simp: sign_result_def split: sum.splits)

lemma SignVote_verifies:
  assumes "crypto_ok E" and "PrivValidatorLocal_SignVote E pv now ch v = (None, v')"
    and "PrivValidatorLocal_GetPubKey E pv = Inr k"
  shows "EcdsaPubKey_VerifySignature E k (VoteSignBytes E v' ch) (v_Signature v')"
proof -
  let ?w = "v\<lparr>v_TimestampMs := to_u64 (UnixMilli now)\<rparr>"
  obtain s where s: "Sign E (Keccak256 E (VoteSignBytes E ?w ch)) (PrivKey pv) = Inr s"
    and v': "v' = ?w\<lparr>v_Signature := s\<rparr>"
    using assms(2) by (auto simp: PrivValidatorLocal_SignVote_def Let_def split: prod.splits)
  have "VoteSignBytes E v' ch = VoteSignBytes E ?w ch"
    using assms(1) unfolding crypto_ok_def v' by blast
  then show ?thesis using crypto_ok_verify [OF assms(1) s assms(3)] v' by simp
qed

lemma SignProposal_verifies:
  assumes "crypto_ok E" and "PrivValidatorLocal_SignProposal E pv ch p = (None, p')"
    and "PrivValidatorLocal_GetPubKey E pv = Inr k"
  shows "EcdsaPubKey_VerifySignature E k (ProposalSignBytes E p' ch) (p_Signature p')"
proof -
  obtain s where s: "Sign E (Keccak256 E (ProposalSignBytes E p ch)) (PrivKey pv) = Inr s"
    and p': "p' = p\<lparr>p_Signature := s\<rparr>"
    using assms(2) by (auto simp: PrivValidatorLocal_SignProposal_def Let_def split: prod.splits)
  have "ProposalSignBytes E p' ch = ProposalSignBytes E p ch"
    using assms(1) unfolding crypto_ok_def p' by blast
  then show ?thesis using crypto_ok_verify [OF assms(1) s assms(3)] p' by simp
qed

section \<open>The contract of the PrivValidator interface\<close>

text \<open>
  A signer returns the vote it was given with a signature and a timestamp of its own, and its
  signatures verify under its public key whenever the cryptography is sound (\<open>sound\<close>).
\<close>

locale priv_validator =
  fixes get_pub_key :: "'pv \<Rightarrow> go_error + 'pk"
    and sign_vote :: "'pv \<Rightarrow> gotime \<Rightarrow> string \<Rightarrow> vote \<Rightarrow> go_error option \<times> vote"
    and sign_proposal :: "'pv \<Rightarrow> string \<Rightarrow> 'blk proposal \<Rightarrow> go_error option \<times> 'blk proposal"
    and verify :: "'pk \<Rightarrow> bytes \<Rightarrow> bytes \<Rightarrow> bool"
    and vote_bytes :: "vote \<Rightarrow> string \<Rightarrow> bytes"
    and proposal_bytes :: "'blk proposal \<Rightarrow> string \<Rightarrow> bytes"
    and sound :: bool
  assumes vote_fields: "sign_vote pv now ch v = (err, v') \<Longrightarrow>
      v_Height v' = v_Height v \<and> v_Round v' = v_Round v \<and> v_Type v' = v_Type v
      \<and> v_BlockID v' = v_BlockID v \<and> v_ValidatorAddress v' = v_ValidatorAddress v
      \<and> v_ValidatorIndex v' = v_ValidatorIndex v"
    and proposal_fields: "sign_proposal pv ch p = (perr, p') \<Longrightarrow>
      p_Height p' = p_Height p \<and> p_Round p' = p_Round p \<and> p_POLRound p' = p_POLRound p
      \<and> p_Block p' = p_Block p"
    and vote_verifies: "sound \<Longrightarrow> sign_vote pv now ch v = (None, v') \<Longrightarrow> get_pub_key pv = Inr k \<Longrightarrow>
      verify k (vote_bytes v' ch) (v_Signature v')"
    and proposal_verifies: "sound \<Longrightarrow> sign_proposal pv ch p = (None, p') \<Longrightarrow> get_pub_key pv = Inr k \<Longrightarrow>
      verify k (proposal_bytes p' ch) (p_Signature p')"
begin

text \<open>A vote signed for one height, round and type is not a vote for another.\<close>

lemma signed_votes_distinct:
  assumes "sign_vote pv now ch v = (e, v')" and "sign_vote pv now2 ch w = (e2, w')"
    and "(v_Height v, v_Round v, v_Type v) \<noteq> (v_Height w, v_Round w, v_Type w)"
  shows "v' \<noteq> w'"
  using vote_fields [OF assms(1)] vote_fields [OF assms(2)] assms(3) by auto

end

interpretation local_signer: priv_validator
  "PrivValidatorLocal_GetPubKey E" "PrivValidatorLocal_SignVote E" "PrivValidatorLocal_SignProposal E"
  "EcdsaPubKey_VerifySignature E" "VoteSignBytes E" "ProposalSignBytes E" "crypto_ok E"
  for E :: "('val, 'vs, 'hvs, 'blk, 'e) ext_scheme"
  by unfold_locales
    (auto dest: SignVote_fields SignProposal_fields SignVote_verifies SignProposal_verifies)

section \<open>Property\<close>

text \<open>C35. Whatever vote or proposal the local private validator signs without an error verifies under
  its own public key, for the chain it was signed for: the key \<open>VerifySignature\<close> recovers from the
  signature has the signer's address.\<close>

theorem signatures_verify:
  assumes "crypto_ok E" and "PrivValidatorLocal_GetPubKey E pv = Inr k"
  shows "(PrivValidatorLocal_SignVote E pv now ch v = (None, v') \<longrightarrow>
       EcdsaPubKey_VerifySignature E k (VoteSignBytes E v' ch) (v_Signature v'))
    \<and> (PrivValidatorLocal_SignProposal E pv ch p = (None, p') \<longrightarrow>
       EcdsaPubKey_VerifySignature E k (ProposalSignBytes E p' ch) (p_Signature p'))"
  using SignVote_verifies SignProposal_verifies assms by blast

text \<open>A sample cryptography: the signature is the private key, the recovered key follows a byte 4.\<close>

definition sample_crypto :: sample_ext where
  "sample_crypto = sample_ext\<lparr>PubkeyToAddress := (\<lambda>k. address_of_bytes (drop 12 k))\<rparr>"

lemma sample_crypto_ok: "crypto_ok sample_crypto"
  by (auto simp: crypto_ok_def sample_crypto_def sample_ext_def pubKeyToAddress_def)

theorem signatures_verify_witness:
  "\<exists>v'. PrivValidatorLocal_SignVote sample_crypto \<lparr>PrivKey = replicate 32 1\<rparr> 0 ''test''
       \<lparr>v_ValidatorAddress = 0, v_ValidatorIndex = 0, v_Height = 1, v_Round = 0, v_TimestampMs = 0,
        v_Type = PrevoteType, v_BlockID = 0, v_Signature = []\<rparr> = (None, v')
     \<and> EcdsaPubKey_VerifySignature sample_crypto
         (EcdsaPubKey (PrivValidatorLocal_Address sample_crypto \<lparr>PrivKey = replicate 32 1\<rparr>))
         (VoteSignBytes sample_crypto v' ''test'') (v_Signature v')"
proof -
  let ?pv = "\<lparr>PrivKey = replicate 32 1\<rparr>"
  let ?v = "\<lparr>v_ValidatorAddress = 0, v_ValidatorIndex = 0, v_Height = 1, v_Round = 0, v_TimestampMs = 0,
        v_Type = PrevoteType, v_BlockID = 0, v_Signature = []\<rparr>"
  obtain v' where v': "PrivValidatorLocal_SignVote sample_crypto ?pv 0 ''test'' ?v = (None, v')"
    by (simp add: PrivValidatorLocal_SignVote_def sign_result_def sample_crypto_def sample_ext_def)
  have "PrivValidatorLocal_GetPubKey sample_crypto ?pv
      = Inr (EcdsaPubKey (PrivValidatorLocal_Address sample_crypto ?pv))"
    by (simp add: PrivValidatorLocal_GetPubKey_def)
  from signatures_verify [OF sample_crypto_ok this] v' show ?thesis by blast
qed

end
