(* ===== verification/Block_Store.thy ===== *)
theory Block_Store
  imports Sample_Instance Go_Binary
begin

text \<open>
  \<open>cmd/main/default_block_store.go\<close>: blocks and their commits in a LevelDB database, under keys made
  of a name and the big-endian height. The database and the RLP codec are not in the repository:
  the record \<open>db_ext\<close> holds their operations. \<open>Get\<close> returns \<open>None\<close> for an error (a missing key
  included), and \<open>Put\<close> whether it succeeded and the database after it.

  The locale \<open>block_store\<close> is the contract of the \<open>BlockStore\<close> interface of the consensus package,
  interpreted on \<open>DefaultBlockStore\<close>.
\<close>

record ('db, 'blk) db_ext =
  db_Get :: "'db \<Rightarrow> bytes \<Rightarrow> bytes option"
  db_Put :: "bytes \<Rightarrow> bytes \<Rightarrow> 'db \<Rightarrow> bool \<times> 'db"
  rlp_EncodeBlock :: "'blk \<Rightarrow> bytes option"
  rlp_DecodeBlock :: "bytes \<Rightarrow> 'blk option"
  rlp_EncodeCommit :: "commit option \<Rightarrow> bytes option"
  rlp_DecodeCommit :: "bytes \<Rightarrow> commit option"

section \<open>The code\<close>

definition block_key :: "u64 \<Rightarrow> bytes" where
  "block_key height = string_bytes ''block'' @ PutUint64 height"

definition commit_key :: "u64 \<Rightarrow> bytes" where
  "commit_key height = string_bytes ''commit'' @ PutUint64 height"

definition BlockStore_Height :: "('db, 'blk) db_ext \<Rightarrow> 'db \<Rightarrow> u64" where
  "BlockStore_Height D db =
     (case db_Get D db (string_bytes ''height'') of
        None \<Rightarrow> 0
      | Some data \<Rightarrow> if length data \<noteq> 8 then 0 else Uint64 data)"

definition BlockStore_Base :: "('db, 'blk) db_ext \<Rightarrow> 'db \<Rightarrow> u64" where
  "BlockStore_Base D db = 0"

definition BlockStore_Size :: "('db, 'blk) db_ext \<Rightarrow> 'db \<Rightarrow> u64" where
  "BlockStore_Size D db =
     (let height = BlockStore_Height D db in
      if height = 0 then 0 else height + 1 - BlockStore_Base D db)"

definition BlockStore_LoadBlock :: "('db, 'blk) db_ext \<Rightarrow> 'db \<Rightarrow> u64 \<Rightarrow> 'blk option res" where
  "BlockStore_LoadBlock D db height =
     (case db_Get D db (block_key height) of
        None \<Rightarrow> Inr None
      | Some blockData \<Rightarrow>
          (case rlp_DecodeBlock D blockData of
             None \<Rightarrow> Inl CorruptStore
           | Some b \<Rightarrow> Inr (Some b)))"

definition BlockStore_LoadBlockCommit :: "('db, 'blk) db_ext \<Rightarrow> 'db \<Rightarrow> u64 \<Rightarrow> commit option res" where
  "BlockStore_LoadBlockCommit D db height =
     (case db_Get D db (commit_key height) of
        None \<Rightarrow> Inr None
      | Some commitData \<Rightarrow>
          (case rlp_DecodeCommit D commitData of
             None \<Rightarrow> Inl CorruptStore
           | Some c \<Rightarrow> Inr (Some c)))"

definition BlockStore_LoadSeenCommit :: "('db, 'blk) db_ext \<Rightarrow> 'db \<Rightarrow> commit option res" where
  "BlockStore_LoadSeenCommit D db =
     (case db_Get D db (string_bytes ''seen_commit'') of
        None \<Rightarrow> Inr None
      | Some commitData \<Rightarrow>
          (case rlp_DecodeCommit D commitData of
             None \<Rightarrow> Inl CorruptStore
           | Some c \<Rightarrow> Inr (Some c)))"

text \<open>\<open>SaveBlock\<close> returns silently, with what it has written so far, when an encoding or a write
  fails. \<open>number\<close> is \<open>FullBlock.NumberU64\<close>.\<close>

definition BlockStore_SaveBlock ::
  "('db, 'blk) db_ext \<Rightarrow> ('blk \<Rightarrow> u64) \<Rightarrow> 'blk \<Rightarrow> commit option \<Rightarrow> 'db \<Rightarrow> 'db res" where
  "BlockStore_SaveBlock D number b c db =
     (if number b \<noteq> BlockStore_Height D db + 1 then Inl NonContiguousBlock
      else
        case rlp_EncodeBlock D b of
          None \<Rightarrow> Inr db
        | Some blockData \<Rightarrow>
            let (ok1, db1) = db_Put D (block_key (number b)) blockData db in
            if \<not> ok1 then Inr db1
            else
              case rlp_EncodeCommit D c of
                None \<Rightarrow> Inr db1
              | Some commitData \<Rightarrow>
                  let (ok2, db2) = db_Put D (commit_key (number b)) commitData db1 in
                  if \<not> ok2 then Inr db2
                  else Inr (snd (db_Put D (string_bytes ''height'') (PutUint64 (number b)) db2)))"

section \<open>Keys\<close>

lemma neq_by_length: "length xs \<noteq> length ys \<Longrightarrow> xs \<noteq> ys"
  by auto

lemma store_key_length [simp]: "length (block_key h) = 13" "length (commit_key h) = 14"
  by (simp_all add: block_key_def commit_key_def)

lemma store_keys_inject [simp]:
  "block_key h = block_key h' \<longleftrightarrow> h = h'" "commit_key h = commit_key h' \<longleftrightarrow> h = h'"
  by (simp_all add: block_key_def commit_key_def)

lemma store_keys_distinct [simp]:
  "block_key h \<noteq> commit_key h'" "commit_key h' \<noteq> block_key h"
  "block_key h \<noteq> string_bytes ''height''" "string_bytes ''height'' \<noteq> block_key h"
  "commit_key h \<noteq> string_bytes ''height''" "string_bytes ''height'' \<noteq> commit_key h"
  "block_key h \<noteq> string_bytes ''seen_commit''" "string_bytes ''seen_commit'' \<noteq> block_key h"
  "commit_key h \<noteq> string_bytes ''seen_commit''" "string_bytes ''seen_commit'' \<noteq> commit_key h"
  "string_bytes ''height'' \<noteq> string_bytes ''seen_commit''"
  "string_bytes ''seen_commit'' \<noteq> string_bytes ''height''"
  by (rule neq_by_length; simp)+

section \<open>The database and codec the code relies on\<close>

text \<open>A successful \<open>Put\<close> changes the value of its key only, a failed one nothing; decoding an
  encoding gives the value back.\<close>

definition db_ok :: "('db, 'blk) db_ext \<Rightarrow> bool" where
  "db_ok D \<longleftrightarrow>
     (\<forall>k v db ok db'. db_Put D k v db = (ok, db') \<longrightarrow>
        db_Get D db' = (if ok then (db_Get D db)(k \<mapsto> v) else db_Get D db))
     \<and> (\<forall>b bs. rlp_EncodeBlock D b = Some bs \<longrightarrow> rlp_DecodeBlock D bs = Some b)
     \<and> (\<forall>c bs. rlp_EncodeCommit D (Some c) = Some bs \<longrightarrow> rlp_DecodeCommit D bs = Some c)"

lemma db_ok_put:
  "db_ok D \<Longrightarrow> db_Put D k v db = (ok, db') \<Longrightarrow>
     db_Get D db' = (if ok then (db_Get D db)(k \<mapsto> v) else db_Get D db)"
  by (auto simp: db_ok_def)

lemma db_ok_rlp:
  "db_ok D \<Longrightarrow> rlp_EncodeBlock D b = Some bs \<Longrightarrow> rlp_DecodeBlock D bs = Some b"
  "db_ok D \<Longrightarrow> rlp_EncodeCommit D (Some c) = Some bs \<Longrightarrow> rlp_DecodeCommit D bs = Some c"
  by (auto simp: db_ok_def)

text \<open>The invariant of the store: every height from 1 to the last one has a block and a commit that
  decode, and the block carries its height.\<close>

definition store_inv :: "('db, 'blk) db_ext \<Rightarrow> ('blk \<Rightarrow> u64) \<Rightarrow> 'db \<Rightarrow> bool" where
  "store_inv D number db \<longleftrightarrow> db_ok D \<and>
     (\<forall>h. 0 < h \<longrightarrow> h \<le> BlockStore_Height D db \<longrightarrow>
        (\<exists>b c. BlockStore_LoadBlock D db h = Inr (Some b) \<and> number b = h
           \<and> BlockStore_LoadBlockCommit D db h = Inr (Some c)))"

text \<open>The operations that read see the database through \<open>Get\<close> only.\<close>

lemma store_reads_cong:
  assumes "db_Get D db' = db_Get D db"
  shows "BlockStore_Height D db' = BlockStore_Height D db"
    and "BlockStore_LoadBlock D db' h = BlockStore_LoadBlock D db h"
    and "BlockStore_LoadBlockCommit D db' h = BlockStore_LoadBlockCommit D db h"
    and "BlockStore_LoadSeenCommit D db' = BlockStore_LoadSeenCommit D db"
  using assms by (simp_all add: BlockStore_Height_def BlockStore_LoadBlock_def
      BlockStore_LoadBlockCommit_def BlockStore_LoadSeenCommit_def)

text \<open>The four databases \<open>SaveBlock\<close> can leave: unchanged, with the block, with the block and the
  commit, and with the new height as well.\<close>

inductive saved :: "('db, 'blk) db_ext \<Rightarrow> u64 \<Rightarrow> 'blk \<Rightarrow> commit \<Rightarrow> (bytes \<rightharpoonup> bytes) \<Rightarrow> (bytes \<rightharpoonup> bytes) \<Rightarrow> bool"
  for D n b c where
  unchanged: "saved D n b c m m"
| block: "rlp_EncodeBlock D b = Some bd \<Longrightarrow> saved D n b c m (m(block_key n \<mapsto> bd))"
| block_commit: "rlp_EncodeBlock D b = Some bd \<Longrightarrow> rlp_EncodeCommit D (Some c) = Some cd \<Longrightarrow>
    saved D n b c m (m(block_key n \<mapsto> bd, commit_key n \<mapsto> cd))"
| complete: "rlp_EncodeBlock D b = Some bd \<Longrightarrow> rlp_EncodeCommit D (Some c) = Some cd \<Longrightarrow>
    saved D n b c m
      (m(block_key n \<mapsto> bd, commit_key n \<mapsto> cd, string_bytes ''height'' \<mapsto> PutUint64 n))"

lemma SaveBlock_saved:
  assumes ok: "db_ok D" and save: "BlockStore_SaveBlock D number b (Some c) db = Inr db'"
  shows "number b = BlockStore_Height D db + 1"
    and "saved D (number b) b c (db_Get D db) (db_Get D db')"
proof -
  show n: "number b = BlockStore_Height D db + 1"
    using save by (auto simp: BlockStore_SaveBlock_def split: if_splits)
  obtain ok1 db1 where put1: "\<And>bd. rlp_EncodeBlock D b = Some bd \<Longrightarrow>
      db_Put D (block_key (number b)) bd db = (ok1, db1)"
    by (cases "rlp_EncodeBlock D b") (auto, metis surj_pair)
  obtain ok2 db2 where put2: "\<And>cd. rlp_EncodeCommit D (Some c) = Some cd \<Longrightarrow>
      db_Put D (commit_key (number b)) cd db1 = (ok2, db2)"
    by (cases "rlp_EncodeCommit D (Some c)") (auto, metis surj_pair)
  obtain ok3 db3 where put3: "db_Put D (string_bytes ''height'') (PutUint64 (number b)) db2 = (ok3, db3)"
    by fastforce
  note P = db_ok_put [OF ok put1] db_ok_put [OF ok put2] db_ok_put [OF ok put3]
  show "saved D (number b) b c (db_Get D db) (db_Get D db')"
    using save n put1 put2 put3 P
    by (auto simp: BlockStore_SaveBlock_def intro: saved.intros split: if_splits option.splits)
qed

lemma SaveBlock_effect:
  assumes ok: "db_ok D" and save: "BlockStore_SaveBlock D number b (Some c) db = Inr db'"
  shows "(\<forall>h. h \<noteq> number b \<longrightarrow> BlockStore_LoadBlock D db' h = BlockStore_LoadBlock D db h
         \<and> BlockStore_LoadBlockCommit D db' h = BlockStore_LoadBlockCommit D db h)
    \<and> (BlockStore_Height D db' = BlockStore_Height D db
       \<or> BlockStore_Height D db' = number b
         \<and> BlockStore_LoadBlock D db' (number b) = Inr (Some b)
         \<and> BlockStore_LoadBlockCommit D db' (number b) = Inr (Some c))
    \<and> BlockStore_LoadSeenCommit D db' = BlockStore_LoadSeenCommit D db"
  using SaveBlock_saved(2) [OF ok save]
  by (cases rule: saved.cases)
    (auto simp: BlockStore_Height_def BlockStore_LoadBlock_def BlockStore_LoadBlockCommit_def
      BlockStore_LoadSeenCommit_def db_ok_rlp [OF ok])

lemma store_inv_save:
  assumes "store_inv D number db" and "BlockStore_SaveBlock D number b (Some c) db = Inr db'"
    and "number b \<noteq> 0"
  shows "store_inv D number db'"
proof -
  have ok: "db_ok D" using assms(1) by (simp add: store_inv_def)
  have n: "number b = BlockStore_Height D db + 1" using SaveBlock_saved(1) [OF ok assms(2)] .
  have above: "h = number b \<or> h \<noteq> number b \<and> h \<le> BlockStore_Height D db" if "h \<le> number b" for h
    using that n assms(3) by (metis word_le_Suc_iff)
  have below: "h \<noteq> number b" if "h \<le> BlockStore_Height D db" for h
    using that n assms(3) by (metis word_less_Suc not_less)
  show ?thesis
    using assms(1) SaveBlock_effect [OF ok assms(2)] above below
    unfolding store_inv_def by (metis (no_types, lifting))
qed

section \<open>The contract of the BlockStore interface\<close>

fun save_all :: "('blk \<Rightarrow> commit option \<Rightarrow> 's \<Rightarrow> 's res) \<Rightarrow> ('blk \<times> commit) list \<Rightarrow> 's \<Rightarrow> 's res" where
  "save_all save [] s = Inr s"
| "save_all save ((b, c) # bcs) s = andThen (save b (Some c) s) (save_all save bcs)"

locale block_store =
  fixes height :: "'s \<Rightarrow> u64"
    and load_block :: "'s \<Rightarrow> u64 \<Rightarrow> 'blk option res"
    and load_commit :: "'s \<Rightarrow> u64 \<Rightarrow> commit option res"
    and save :: "'blk \<Rightarrow> commit option \<Rightarrow> 's \<Rightarrow> 's res"
    and number :: "'blk \<Rightarrow> u64"
    and inv :: "'s \<Rightarrow> bool"
  assumes save_inv: "inv s \<Longrightarrow> save b (Some c) s = Inr s' \<Longrightarrow> number b \<noteq> 0 \<Longrightarrow> inv s'"
    and save_number: "save b co s = Inr s' \<Longrightarrow> number b = height s + 1"
    and save_height: "inv s \<Longrightarrow> save b (Some c) s = Inr s' \<Longrightarrow>
      height s' = height s \<or> height s' = number b"
    and load_saved: "inv s \<Longrightarrow> save b (Some c) s = Inr s' \<Longrightarrow> height s' \<noteq> height s \<Longrightarrow>
      load_block s' (number b) = Inr (Some b) \<and> load_commit s' (number b) = Inr (Some c)"
    and load_other: "inv s \<Longrightarrow> save b (Some c) s = Inr s' \<Longrightarrow> h \<noteq> number b \<Longrightarrow>
      load_block s' h = load_block s h \<and> load_commit s' h = load_commit s h"
    and load_present: "inv s \<Longrightarrow> 0 < h \<Longrightarrow> h \<le> height s \<Longrightarrow>
      \<exists>b c. load_block s h = Inr (Some b) \<and> number b = h \<and> load_commit s h = Inr (Some c)"
begin

lemma save_all_inv:
  assumes "save_all save bcs s = Inr s'" and "inv s" and "\<forall>(b, c)\<in>set bcs. number b \<noteq> 0"
  shows "inv s'"
  using assms
proof (induction bcs arbitrary: s)
  case (Cons bc bcs)
  then show ?case by (cases bc) (auto simp: andThen_eq_Inr intro: save_inv)
qed simp

text \<open>A store reached by saving blocks holds a block and a commit for every height up to the last.\<close>

lemma save_all_present:
  assumes "save_all save bcs s = Inr s'" and "inv s" and "\<forall>(b, c)\<in>set bcs. number b \<noteq> 0"
    and "0 < h" and "h \<le> height s'"
  shows "\<exists>b c. load_block s' h = Inr (Some b) \<and> number b = h \<and> load_commit s' h = Inr (Some c)"
  using save_all_inv [OF assms(1-3)] assms(4,5) by (rule load_present)

end

interpretation default_store: block_store
  "BlockStore_Height D" "BlockStore_LoadBlock D" "BlockStore_LoadBlockCommit D"
  "BlockStore_SaveBlock D number" number "store_inv D number"
  for D :: "('db, 'blk) db_ext" and number :: "'blk \<Rightarrow> u64"
proof unfold_locales
  fix s b co s' assume "BlockStore_SaveBlock D number b co s = Inr s'"
  then show "number b = BlockStore_Height D s + 1"
    by (auto simp: BlockStore_SaveBlock_def split: if_splits)
next
  fix s h assume "store_inv D number s" "0 < h" "h \<le> BlockStore_Height D s"
  then show "\<exists>b c. BlockStore_LoadBlock D s h = Inr (Some b) \<and> number b = h
      \<and> BlockStore_LoadBlockCommit D s h = Inr (Some c)"
    by (simp add: store_inv_def)
next
  fix s b c s'
  assume inv: "store_inv D number s" and save: "BlockStore_SaveBlock D number b (Some c) s = Inr s'"
  note eff = SaveBlock_effect [OF _ save]
  show "number b \<noteq> 0 \<Longrightarrow> store_inv D number s'"
    by (rule store_inv_save [OF inv save])
  show "BlockStore_Height D s' = BlockStore_Height D s \<or> BlockStore_Height D s' = number b"
    using eff inv by (simp add: store_inv_def) blast
  show "BlockStore_Height D s' \<noteq> BlockStore_Height D s \<Longrightarrow>
      BlockStore_LoadBlock D s' (number b) = Inr (Some b)
      \<and> BlockStore_LoadBlockCommit D s' (number b) = Inr (Some c)"
    using eff inv by (simp add: store_inv_def)
  show "h \<noteq> number b \<Longrightarrow> BlockStore_LoadBlock D s' h = BlockStore_LoadBlock D s h
      \<and> BlockStore_LoadBlockCommit D s' h = BlockStore_LoadBlockCommit D s h" for h
    using eff inv by (simp add: store_inv_def)
qed

section \<open>Sample database\<close>

text \<open>For the witnesses: a database that is a map, blocks that are their own height, one commit.\<close>

definition sample_store_commit :: commit where
  "sample_store_commit = \<lparr>c_Height = 1, c_Round = 0, c_BlockID = 5, c_Signatures = []\<rparr>"

definition sample_db :: "(bytes \<Rightarrow> bytes option, u64) db_ext" where
  "sample_db =
     \<lparr>db_Get = (\<lambda>db. db),
      db_Put = (\<lambda>k v db. (True, db(k \<mapsto> v))),
      rlp_EncodeBlock = (\<lambda>b. Some (PutUint64 b)),
      rlp_DecodeBlock = (\<lambda>bs. Some (Uint64 bs)),
      rlp_EncodeCommit = (\<lambda>c. if c = Some sample_store_commit then Some [1] else None),
      rlp_DecodeCommit = (\<lambda>bs. if bs = [1] then Some sample_store_commit else None)\<rparr>"

lemma sample_db_ok: "db_ok sample_db"
  by (auto simp: db_ok_def sample_db_def split: if_splits)

lemma sample_db_empty: "store_inv sample_db (\<lambda>b. b) Map.empty"
  using sample_db_ok by (auto simp: store_inv_def BlockStore_Height_def sample_db_def)

section \<open>Properties\<close>

text \<open>C30. Whatever sequence of blocks was saved, each with its commit, and wherever encodings or
  database writes failed on the way, every height up to the one the store reports has a block with
  that number and a commit, and both load.\<close>

theorem store_heights_present:
  assumes "store_inv D number db" and "save_all (BlockStore_SaveBlock D number) bcs db = Inr db'"
    and "\<forall>(b, c)\<in>set bcs. number b \<noteq> 0" and "0 < h" and "h \<le> BlockStore_Height D db'"
  shows "\<exists>b c. BlockStore_LoadBlock D db' h = Inr (Some b) \<and> number b = h
    \<and> BlockStore_LoadBlockCommit D db' h = Inr (Some c)"
  using assms(2,1,3-5) by (rule default_store.save_all_present)

theorem store_heights_present_witness:
  "\<exists>db'. save_all (BlockStore_SaveBlock sample_db (\<lambda>b. b))
       [(1, sample_store_commit), (2, sample_store_commit)] Map.empty = Inr db'
     \<and> BlockStore_Height sample_db db' = 2
     \<and> (\<exists>b c. BlockStore_LoadBlock sample_db db' 1 = Inr (Some b) \<and> b = 1
          \<and> BlockStore_LoadBlockCommit sample_db db' 1 = Inr (Some c))"
proof -
  obtain db' where s: "save_all (BlockStore_SaveBlock sample_db (\<lambda>b. b))
       [(1, sample_store_commit), (2, sample_store_commit)] Map.empty = Inr db'"
    and h: "BlockStore_Height sample_db db' = 2"
    by (simp add: BlockStore_SaveBlock_def BlockStore_Height_def sample_db_def)
  show ?thesis
    using s h store_heights_present [OF sample_db_empty s, of 1] by simp
qed

end
