(* ===== verification/Round_State.thy ===== *)
theory Round_State
  imports Ext_Types
begin

text \<open>
  \<open>consensus/round_state.go\<close>: the steps of a round as the \<open>uint8\<close> constants of the source, their
  names and validity check, and the \<open>RoundState\<close> struct with the event made from it.
\<close>

section \<open>RoundStepType\<close>

type_synonym round_step = u8

abbreviation RoundStepNewHeight :: round_step where "RoundStepNewHeight \<equiv> 0x01"
abbreviation RoundStepNewRound :: round_step where "RoundStepNewRound \<equiv> 0x02"
abbreviation RoundStepPropose :: round_step where "RoundStepPropose \<equiv> 0x03"
abbreviation RoundStepPrevote :: round_step where "RoundStepPrevote \<equiv> 0x04"
abbreviation RoundStepPrevoteWait :: round_step where "RoundStepPrevoteWait \<equiv> 0x05"
abbreviation RoundStepPrecommit :: round_step where "RoundStepPrecommit \<equiv> 0x06"
abbreviation RoundStepPrecommitWait :: round_step where "RoundStepPrecommitWait \<equiv> 0x07"
abbreviation RoundStepCommit :: round_step where "RoundStepCommit \<equiv> 0x08"

definition RoundStepType_IsValid :: "round_step \<Rightarrow> bool" where
  "RoundStepType_IsValid rs \<longleftrightarrow> rs \<ge> 0x01 \<and> rs \<le> 0x08"

definition RoundStepType_String :: "round_step \<Rightarrow> string" where
  "RoundStepType_String rs =
     (if rs = RoundStepNewHeight then ''RoundStepNewHeight''
      else if rs = RoundStepNewRound then ''RoundStepNewRound''
      else if rs = RoundStepPropose then ''RoundStepPropose''
      else if rs = RoundStepPrevote then ''RoundStepPrevote''
      else if rs = RoundStepPrevoteWait then ''RoundStepPrevoteWait''
      else if rs = RoundStepPrecommit then ''RoundStepPrecommit''
      else if rs = RoundStepPrecommitWait then ''RoundStepPrecommitWait''
      else if rs = RoundStepCommit then ''RoundStepCommit''
      else ''RoundStepUnknown'')"

section \<open>RoundState\<close>

record ('val, 'vs, 'hvs, 'blk) round_state =
  Height :: u64
  Round :: int
  Step :: round_step
  StartTime :: gotime
  CommitTime :: gotime
  Validators :: "'val option"
  Proposal :: "'blk proposal option"
  ProposalBlock :: "'blk option"
  LockedRound :: int
  LockedBlock :: "'blk option"
  ValidRound :: int
  ValidBlock :: "'blk option"
  Votes :: "'hvs option"
  CommitRound :: int
  LastCommit :: "'vs option"
  LastValidators :: "'val option"
  TriggeredTimeoutPrecommit :: bool

record event_data_round_state =
  ev_Height :: u64
  ev_Round :: int
  ev_Step :: string

definition RoundStateEvent ::
  "('val, 'vs, 'hvs, 'blk, 'more) round_state_scheme \<Rightarrow> event_data_round_state" where
  "RoundStateEvent rs =
     \<lparr>ev_Height = Height rs, ev_Round = Round rs, ev_Step = RoundStepType_String (Step rs)\<rparr>"

section \<open>Steps\<close>

text \<open>The valid steps are exactly the eight constants.\<close>

lemma step_le_8_cases:
  fixes rs :: round_step
  assumes "rs \<le> 8"
  shows "rs \<in> {0, 1, 2, 3, 4, 5, 6, 7, 8}"
proof -
  have "unat rs \<le> 8" using assms by (simp add: word_le_nat_alt)
  then have "unat rs \<in> {0, 1, 2, 3, 4, 5, 6, 7, 8}" by auto
  then have "(of_nat (unat rs) :: round_step) \<in> of_nat ` {0, 1, 2, 3, 4, 5, 6, 7, 8}"
    by (rule imageI)
  then show ?thesis by simp
qed

lemma RoundStepType_IsValid_iff:
  "RoundStepType_IsValid rs \<longleftrightarrow> rs \<in> {1, 2, 3, 4, 5, 6, 7, 8}"
  using step_le_8_cases [of rs] by (auto simp: RoundStepType_IsValid_def)

lemma RoundStepType_String_unknown:
  "RoundStepType_String rs = ''RoundStepUnknown'' \<longleftrightarrow> \<not> RoundStepType_IsValid rs"
  unfolding RoundStepType_IsValid_iff by (auto simp: RoundStepType_String_def)

end
