(* ===== verification/Timeout_Ticker.thy ===== *)
theory Timeout_Ticker
  imports Round_State "HOL-Library.Product_Lexorder" "HOL-Library.Multiset"
begin

text \<open>
  \<open>consensus/timeout_ticker.go\<close>: one timer that carries the latest timeout asked for. The state of
  \<open>timeoutRoutine\<close> is its variable \<open>ti\<close> and whether the timer is armed. Each timeout that fires is
  handed to a goroutine of its own, which sends it on \<open>tockChan\<close>: these are kept as a list, in the order
  in which they fired. The goroutines are not ordered, so the list says nothing about the order in
  which the timeouts are received: \<open>CS_Run\<close> lets the receive routine take any element of it next.
  Time itself is abstracted: an armed timer may fire at any moment. The locale \<open>timeout_ticker\<close> is the contract of the \<open>TimeoutTicker\<close>
  interface, interpreted on this ticker.
\<close>

record timeout_info =
  ti_Duration :: duration
  ti_Height :: u64
  ti_Round :: int
  ti_Step :: round_step

record timeout_ticker =
  tt_ti :: timeout_info
  tt_armed :: bool
  tt_tockChan :: "timeout_info list"

section \<open>The code\<close>

definition zero_timeout :: timeout_info where
  "zero_timeout = \<lparr>ti_Duration = 0, ti_Height = 0, ti_Round = 0, ti_Step = 0\<rparr>"

definition ticker_stopTimer :: "timeout_ticker \<Rightarrow> timeout_ticker" where
  "ticker_stopTimer t = t\<lparr>tt_armed := False\<rparr>"

definition NewTimeoutTicker :: timeout_ticker where
  "NewTimeoutTicker =
     ticker_stopTimer \<lparr>tt_ti = zero_timeout, tt_armed = True, tt_tockChan = []\<rparr>"

text \<open>The tests of \<open>timeoutRoutine\<close> that make it ignore a tick.\<close>

definition tick_ignored :: "timeout_info \<Rightarrow> timeout_info \<Rightarrow> bool" where
  "tick_ignored ti newti =
     (if ti_Height newti < ti_Height ti then True
      else if ti_Height newti = ti_Height ti then
        if ti_Round newti < ti_Round ti then True
        else if ti_Round newti = ti_Round ti then
          ti_Step ti > 0 \<and> ti_Step newti \<le> ti_Step ti
        else False
      else False)"

text \<open>A tick from \<open>tickChan\<close>: stop the last timer, take the new timeout, arm the timer.\<close>

definition ticker_tick :: "timeout_info \<Rightarrow> timeout_ticker \<Rightarrow> timeout_ticker" where
  "ticker_tick newti t =
     (if tick_ignored (tt_ti t) newti then t
      else (ticker_stopTimer t)\<lparr>tt_ti := newti, tt_armed := True\<rparr>)"

text \<open>The timer fires: a new goroutine is to relay the current timeout to \<open>tockChan\<close>. It is one more
  element of the list of those that fired; the order of the list is not an order of delivery.\<close>

definition ticker_fire :: "timeout_ticker \<Rightarrow> timeout_ticker" where
  "ticker_fire t =
     (if tt_armed t then t\<lparr>tt_armed := False, tt_tockChan := tt_tockChan t @ [tt_ti t]\<rparr> else t)"

section \<open>Ticks only move forward\<close>

definition ti_key :: "timeout_info \<Rightarrow> u64 \<times> int \<times> round_step" where
  "ti_key ti = (ti_Height ti, ti_Round ti, ti_Step ti)"

lemma tick_ignored_iff:
  "tick_ignored ti newti \<longleftrightarrow>
     (if ti_Step ti = 0 \<and> ti_Height newti = ti_Height ti \<and> ti_Round newti = ti_Round ti then False
      else ti_key newti \<le> ti_key ti)"
  by (auto simp: tick_ignored_def ti_key_def less_eq_prod_def less_prod_def word_gt_0)

lemma tick_accepted_later:
  assumes "\<not> tick_ignored ti newti" and "0 < ti_Step newti"
  shows "ti_key ti < ti_key newti"
  using assms by (auto simp: tick_ignored_iff not_le ti_key_def less_prod_def split: if_splits)

section \<open>Runs\<close>

datatype ticker_event = Tick timeout_info | Fire

fun ticker_run :: "ticker_event list \<Rightarrow> timeout_ticker \<Rightarrow> timeout_ticker" where
  "ticker_run [] t = t"
| "ticker_run (Tick ti # es) t = ticker_run es (ticker_tick ti t)"
| "ticker_run (Fire # es) t = ticker_run es (ticker_fire t)"

fun ticks :: "ticker_event list \<Rightarrow> timeout_info list" where
  "ticks [] = []"
| "ticks (Tick ti # es) = ti # ticks es"
| "ticks (Fire # es) = ticks es"

text \<open>The timeouts fired so far are strictly ordered, before the current one if it is still armed.\<close>

definition ticker_inv :: "timeout_ticker \<Rightarrow> bool" where
  "ticker_inv t \<longleftrightarrow> sorted_wrt (<) (map ti_key (tt_tockChan t))
     \<and> (\<forall>x\<in>set (tt_tockChan t). if tt_armed t then ti_key x < ti_key (tt_ti t) else ti_key x \<le> ti_key (tt_ti t))"

lemma ticker_inv_new: "ticker_inv NewTimeoutTicker"
  by (simp add: ticker_inv_def NewTimeoutTicker_def ticker_stopTimer_def)

lemma ticker_inv_tick:
  assumes "ticker_inv t" and "0 < ti_Step newti"
  shows "ticker_inv (ticker_tick newti t)"
proof (cases "tick_ignored (tt_ti t) newti")
  case False
  then have "ti_key (tt_ti t) < ti_key newti" using assms(2) by (rule tick_accepted_later)
  then show ?thesis
    using assms(1) False
    by (auto simp: ticker_inv_def ticker_tick_def ticker_stopTimer_def split: if_splits)
qed (use assms in \<open>simp add: ticker_tick_def\<close>)

lemma ticker_inv_fire: "ticker_inv t \<Longrightarrow> ticker_inv (ticker_fire t)"
  by (auto simp: ticker_inv_def ticker_fire_def sorted_wrt_append)

lemma ticker_run_inv:
  "ticker_inv t \<Longrightarrow> \<forall>ti\<in>set (ticks es). 0 < ti_Step ti \<Longrightarrow> ticker_inv (ticker_run es t)"
  by (induction es t rule: ticker_run.induct) (auto intro: ticker_inv_tick ticker_inv_fire)

text \<open>The current timeout is the latest of all ticks, so the refinement is to the maximum.\<close>

lemma ticker_tick_max:
  assumes "0 < ti_Step newti"
  shows "ti_key (tt_ti (ticker_tick newti t)) = max (ti_key (tt_ti t)) (ti_key newti)"
proof (cases "tick_ignored (tt_ti t) newti")
  case True
  then have "ti_key newti \<le> ti_key (tt_ti t)" by (simp add: tick_ignored_iff split: if_splits)
  then show ?thesis using True by (simp add: ticker_tick_def max_absorb1)
next
  case False
  then have "ti_key (tt_ti t) < ti_key newti" using assms by (rule tick_accepted_later)
  then show ?thesis using False by (simp add: ticker_tick_def max_absorb2)
qed

lemma ticker_fire_ti [simp]: "tt_ti (ticker_fire t) = tt_ti t"
  by (simp add: ticker_fire_def)

lemma ticker_run_max:
  "\<forall>ti\<in>set (ticks es). 0 < ti_Step ti \<Longrightarrow>
   ti_key (tt_ti (ticker_run es t)) = fold max (map ti_key (ticks es)) (ti_key (tt_ti t))"
  by (induction es t rule: ticker_run.induct) (auto simp: ticker_tick_max max.commute)

section \<open>The contract of the TimeoutTicker interface\<close>

text \<open>What the consensus state machine relies on: the ticker delivers only timeouts it was asked for.\<close>

locale timeout_ticker =
  fixes schedule :: "'ti \<Rightarrow> 't \<Rightarrow> 't"
    and fire :: "'t \<Rightarrow> 't"
    and held :: "'t \<Rightarrow> 'ti set"
  assumes schedule_held: "held (schedule ti t) \<subseteq> insert ti (held t)"
    and fire_held: "held (fire t) \<subseteq> held t"
begin

text \<open>A property of every timeout asked for is a property of every timeout delivered.\<close>

lemma schedule_all: "\<forall>x\<in>held t. P x \<Longrightarrow> P ti \<Longrightarrow> \<forall>x\<in>held (schedule ti t). P x"
  using schedule_held by blast

lemma fire_all: "\<forall>x\<in>held t. P x \<Longrightarrow> \<forall>x\<in>held (fire t). P x"
  using fire_held by blast

end

text \<open>The timeouts the ticker can still deliver: the one its timer is armed with and those on their
  way to \<open>tockChan\<close>.\<close>

definition ticker_held :: "timeout_ticker \<Rightarrow> timeout_info set" where
  "ticker_held t = set (tt_tockChan t) \<union> (if tt_armed t then {tt_ti t} else {})"

interpretation default_ticker: timeout_ticker ticker_tick ticker_fire ticker_held
  by unfold_locales
    (auto simp: ticker_held_def ticker_tick_def ticker_fire_def ticker_stopTimer_def)

text \<open>A timeout that fired was asked for.\<close>

lemma ticker_run_held: "ticker_held (ticker_run es t) \<subseteq> set (ticks es) \<union> ticker_held t"
proof (induction es t rule: ticker_run.induct)
  case (2 ti es t)
  then show ?case using default_ticker.schedule_held [of ti t] by auto
next
  case (3 es t)
  then show ?case using default_ticker.fire_held [of t] by auto
qed simp

section \<open>Properties\<close>

text \<open>C29. The ticker fires in strictly increasing order of height, round and step, and only timeouts it
  was asked for. So whatever part of what fired the receive routine has got, and in whatever order
  the relaying goroutines brought it, no position has timed out twice.\<close>

theorem ticker_fires_in_order:
  assumes "\<forall>ti\<in>set (ticks es). 0 < ti_Step ti"
    and "fired = tt_tockChan (ticker_run es NewTimeoutTicker)"
  shows "sorted_wrt (<) (map ti_key fired) \<and> set fired \<subseteq> set (ticks es)
    \<and> (\<forall>received. mset received \<subseteq># mset fired \<longrightarrow> distinct (map ti_key received))"
proof (intro conjI allI impI)
  show sorted: "sorted_wrt (<) (map ti_key fired)"
    using ticker_run_inv [OF ticker_inv_new assms(1)] by (simp add: ticker_inv_def assms(2))
  show "set fired \<subseteq> set (ticks es)"
    using ticker_run_held [of es NewTimeoutTicker]
    by (auto simp: assms(2) ticker_held_def NewTimeoutTicker_def ticker_stopTimer_def)
  fix received
  assume "mset received \<subseteq># mset fired"
  then obtain rest where "mset fired = mset (received @ rest)"
    by (metis ex_mset mset_append subset_mset.add_diff_inverse)
  then have "mset (map ti_key fired) = mset (map ti_key (received @ rest))" by (simp only: mset_map)
  moreover have "distinct (map ti_key fired)"
    using sorted by (simp add: strict_sorted_iff)
  ultimately have "distinct (map ti_key (received @ rest))" by (rule mset_eq_imp_distinct_iff [THEN iffD1])
  then show "distinct (map ti_key received)" by simp
qed

definition sample_tick :: "u64 \<Rightarrow> int \<Rightarrow> round_step \<Rightarrow> timeout_info" where
  "sample_tick h r s = \<lparr>ti_Duration = 5, ti_Height = h, ti_Round = r, ti_Step = s\<rparr>"

text \<open>The witness: two timeouts fire, and the second is received first.\<close>

theorem ticker_fires_in_order_witness:
  "\<exists>fired. fired = tt_tockChan (ticker_run
       [Tick (sample_tick 1 0 3), Fire, Tick (sample_tick 1 0 1), Tick (sample_tick 1 0 5), Fire]
       NewTimeoutTicker)
   \<and> fired = [sample_tick 1 0 3, sample_tick 1 0 5] \<and> distinct (map ti_key (rev fired))"
proof -
  let ?es = "[Tick (sample_tick 1 0 3), Fire, Tick (sample_tick 1 0 1), Tick (sample_tick 1 0 5), Fire]"
  have f: "tt_tockChan (ticker_run ?es NewTimeoutTicker) = [sample_tick 1 0 3, sample_tick 1 0 5]"
    by (simp add: sample_tick_def ticker_tick_def ticker_fire_def ticker_stopTimer_def
        NewTimeoutTicker_def zero_timeout_def tick_ignored_def)
  have "\<forall>ti\<in>set (ticks ?es). 0 < ti_Step ti" by (simp add: sample_tick_def)
  then have "mset received \<subseteq># mset (tt_tockChan (ticker_run ?es NewTimeoutTicker))
      \<longrightarrow> distinct (map ti_key received)" for received
    using ticker_fires_in_order [of ?es, OF _ refl] by blast
  from this [of "rev (tt_tockChan (ticker_run ?es NewTimeoutTicker))"]
  have "distinct (map ti_key (rev (tt_tockChan (ticker_run ?es NewTimeoutTicker))))"
    by (simp only: mset_rev subset_mset.order_refl simp_thms)
  then show ?thesis using f by blast
qed

text \<open>The timeout the ticker holds is the lexicographic maximum of the initial one and all ticks
  it has been given, in whatever order they came and wherever the timer fired between them.\<close>

lemma ticker_holds_latest:
  assumes "\<forall>ti\<in>set (ticks es). 0 < ti_Step ti"
  shows "ti_key (tt_ti (ticker_run es NewTimeoutTicker))
    = fold max (map ti_key (ticks es)) (ti_key zero_timeout)"
  using ticker_run_max [OF assms, of NewTimeoutTicker]
  by (simp add: NewTimeoutTicker_def ticker_stopTimer_def)

end
