(* ===== verification/CS_State.thy ===== *)
theory CS_State
  imports Block_Executor Validator_Keys Block_Store Timeout_Ticker
begin

text \<open>
  The state of the consensus state machine (\<open>consensus/consensus_state.go\<close>) and the operations every
  transition is made of: reading the clock, moving height, round and step, scheduling a timeout,
  sending on the queues, signing a vote, refreshing the public key.

  The record \<open>node\<close> extends the external operations by the methods of the three interfaces the
  state machine calls (\<open>BlockExecutor\<close>, \<open>BlockStore\<close>, \<open>PrivValidator\<close>); \<open>default_node\<close> fills them with
  the implementations of the repository, as \<open>cmd/main/node.go\<close> does. \<open>consensus_state\<close> extends
  \<open>round_state\<close>, as the Go struct embeds \<open>RoundState\<close>.

  Channels: \<open>internalMsgQueue\<close> is the buffer of 1000 messages and \<open>internalOverflow\<close> the messages
  held by the goroutines that wait to send when it is full; \<open>peerOutMsgQueue\<close> and \<open>tickChan\<close> hold
  what was sent and not yet taken. The context is live while a handler runs. The last two fields
  are history variables that no operation reads: every vote and every proposal handed to the
  private validator for signing.

  A handler takes the state last and returns the state after it, or a panic. A panic ends the
  receive routine (\<open>recover\<close> logs it and closes \<open>done\<close>), so the state after it is dropped.
\<close>

section \<open>The node and its state\<close>

record ('val, 'vs, 'hvs, 'blk, 'bs, 'pv) node = "('val, 'vs, 'hvs, 'blk) ext" +
  be_ValidateBlock :: "'val chain_state \<Rightarrow> 'blk \<Rightarrow> go_error option res"
  be_ApplyBlock :: "'val chain_state \<Rightarrow> 'blk \<Rightarrow> (go_error + 'val chain_state) res"
  be_MakeBlock :: "'val chain_state \<Rightarrow> u64 \<Rightarrow> commit option \<Rightarrow> address \<Rightarrow> 'blk option res"
  store_Height :: "'bs \<Rightarrow> u64"
  store_LoadBlock :: "'bs \<Rightarrow> u64 \<Rightarrow> 'blk option res"
  store_LoadBlockCommit :: "'bs \<Rightarrow> u64 \<Rightarrow> commit option res"
  store_LoadSeenCommit :: "'bs \<Rightarrow> commit option res"
  store_SaveBlock :: "'blk \<Rightarrow> commit option \<Rightarrow> 'bs \<Rightarrow> 'bs res"
  pv_GetPubKey :: "'pv \<Rightarrow> go_error + pubkey"
  pv_SignVote :: "'pv \<Rightarrow> gotime \<Rightarrow> string \<Rightarrow> vote \<Rightarrow> go_error option \<times> vote"
  pv_SignProposal :: "'pv \<Rightarrow> string \<Rightarrow> 'blk proposal \<Rightarrow> go_error option \<times> 'blk proposal"

record ('val, 'vs, 'hvs, 'blk, 'bs, 'pv) consensus_state = "('val, 'vs, 'hvs, 'blk) round_state" +
  cs_config :: config
  privValidator :: "'pv option"
  blockStore :: "'bs"
  chainState :: "'val chain_state"
  privValidatorPubKey :: "pubkey option"
  internalMsgQueue :: "'blk msg_info list"
  internalOverflow :: "'blk msg_info list"
  peerOutMsgQueue :: "'blk message list"
  tickChan :: "timeout_info list"
  replayMode :: bool
  nSteps :: nat
  cs_clock :: nat
  signedVotes :: "vote list"
  signedProposals :: "'blk proposal list"

text \<open>The wiring of \<open>runNode\<close>: the default executor, the default store over a database, and a local
  private validator.\<close>

definition default_node ::
  "('val, 'vs, 'hvs, 'blk) ext \<Rightarrow> ('db, 'blk) db_ext
     \<Rightarrow> ('val, 'vs, 'hvs, 'blk, 'db, priv_validator_local) node" where
  "default_node E D = ext.extend E
     \<lparr>be_ValidateBlock = validateBlock E,
      be_ApplyBlock = DefaultBlockExecutor_ApplyBlock E,
      be_MakeBlock = DefaultBlockExecutor_MakeBlock E,
      store_Height = BlockStore_Height D,
      store_LoadBlock = BlockStore_LoadBlock D,
      store_LoadBlockCommit = BlockStore_LoadBlockCommit D,
      store_LoadSeenCommit = BlockStore_LoadSeenCommit D,
      store_SaveBlock = BlockStore_SaveBlock D (blk_NumberU64 E),
      pv_GetPubKey = PrivValidatorLocal_GetPubKey E,
      pv_SignVote = PrivValidatorLocal_SignVote E,
      pv_SignProposal = PrivValidatorLocal_SignProposal E\<rparr>"

section \<open>Clock, steps, timeouts, queues\<close>

text \<open>\<open>CanonicalNow\<close> and \<open>CanonicalNowMs\<close> (\<open>types.go\<close>) read the clock once.\<close>

definition CanonicalNow ::
  "('val, 'vs, 'hvs, 'blk, 'bs, 'pv) node \<Rightarrow> ('val, 'vs, 'hvs, 'blk, 'bs, 'pv) consensus_state
     \<Rightarrow> gotime \<times> ('val, 'vs, 'hvs, 'blk, 'bs, 'pv) consensus_state" where
  "CanonicalNow E cs = (Canonical (TimeNow E (cs_clock cs)), cs\<lparr>cs_clock := Suc (cs_clock cs)\<rparr>)"

definition CanonicalNowMs ::
  "('val, 'vs, 'hvs, 'blk, 'bs, 'pv) node \<Rightarrow> ('val, 'vs, 'hvs, 'blk, 'bs, 'pv) consensus_state
     \<Rightarrow> int \<times> ('val, 'vs, 'hvs, 'blk, 'bs, 'pv) consensus_state" where
  "CanonicalNowMs E cs = (UnixMilli (TimeNow E (cs_clock cs)), cs\<lparr>cs_clock := Suc (cs_clock cs)\<rparr>)"

definition updateHeight ::
  "u64 \<Rightarrow> ('val, 'vs, 'hvs, 'blk, 'bs, 'pv) consensus_state
     \<Rightarrow> ('val, 'vs, 'hvs, 'blk, 'bs, 'pv) consensus_state" where
  [machine_defs]: "updateHeight height cs = cs\<lparr>Height := height\<rparr>"

definition updateRoundStep ::
  "int \<Rightarrow> round_step \<Rightarrow> ('val, 'vs, 'hvs, 'blk, 'bs, 'pv) consensus_state
     \<Rightarrow> ('val, 'vs, 'hvs, 'blk, 'bs, 'pv) consensus_state" where
  [machine_defs]: "updateRoundStep round step cs = cs\<lparr>Round := round, Step := step\<rparr>"

definition newStep ::
  "('val, 'vs, 'hvs, 'blk, 'bs, 'pv) consensus_state
     \<Rightarrow> ('val, 'vs, 'hvs, 'blk, 'bs, 'pv) consensus_state" where
  [machine_defs]: "newStep cs = cs\<lparr>nSteps := Suc (nSteps cs)\<rparr>"

definition scheduleTimeout ::
  "duration \<Rightarrow> u64 \<Rightarrow> int \<Rightarrow> round_step \<Rightarrow> ('val, 'vs, 'hvs, 'blk, 'bs, 'pv) consensus_state
     \<Rightarrow> ('val, 'vs, 'hvs, 'blk, 'bs, 'pv) consensus_state" where
  [machine_defs]: "scheduleTimeout dur height round step cs =
     cs\<lparr>tickChan := tickChan cs @
       [\<lparr>ti_Duration = dur, ti_Height = height, ti_Round = round, ti_Step = step\<rparr>]\<rparr>"

definition scheduleRound0 ::
  "('val, 'vs, 'hvs, 'blk, 'bs, 'pv) node \<Rightarrow> ('val, 'vs, 'hvs, 'blk) round_state
     \<Rightarrow> ('val, 'vs, 'hvs, 'blk, 'bs, 'pv) consensus_state
     \<Rightarrow> ('val, 'vs, 'hvs, 'blk, 'bs, 'pv) consensus_state" where
  "scheduleRound0 E rs cs =
     (let (now, cs) = CanonicalNow E cs;
          sleepDuration = time_Sub (StartTime rs) now
      in scheduleTimeout sleepDuration (Height rs) 0 RoundStepNewHeight cs)"

definition msgQueueSize :: nat where
  "msgQueueSize = 1000"

definition sendInternalMessage ::
  "'blk msg_info \<Rightarrow> ('val, 'vs, 'hvs, 'blk, 'bs, 'pv) consensus_state
     \<Rightarrow> ('val, 'vs, 'hvs, 'blk, 'bs, 'pv) consensus_state" where
  [machine_defs]: "sendInternalMessage mi cs =
     (if length (internalMsgQueue cs) < msgQueueSize
      then cs\<lparr>internalMsgQueue := internalMsgQueue cs @ [mi]\<rparr>
      else cs\<lparr>internalOverflow := internalOverflow cs @ [mi]\<rparr>)"

definition broadcastMessageToPeers ::
  "'blk message \<Rightarrow> ('val, 'vs, 'hvs, 'blk, 'bs, 'pv) consensus_state
     \<Rightarrow> ('val, 'vs, 'hvs, 'blk, 'bs, 'pv) consensus_state" where
  [machine_defs]: "broadcastMessageToPeers msg cs = cs\<lparr>peerOutMsgQueue := peerOutMsgQueue cs @ [msg]\<rparr>"

section \<open>Signing\<close>

text \<open>\<open>voteTime\<close>: the clock, but at least a millisecond after the block voted on.\<close>

definition voteTime ::
  "('val, 'vs, 'hvs, 'blk, 'bs, 'pv) node \<Rightarrow> ('val, 'vs, 'hvs, 'blk, 'bs, 'pv) consensus_state
     \<Rightarrow> u64 \<times> ('val, 'vs, 'hvs, 'blk, 'bs, 'pv) consensus_state" where
  "voteTime E cs =
     (let (nowMs, cs) = CanonicalNowMs E cs;
          now = to_u64 nowMs;
          timeIota = 1;
          minVoteTime =
            (case LockedBlock cs of
               Some b \<Rightarrow> blk_TimeMs E b + timeIota
             | None \<Rightarrow>
                 (case ProposalBlock cs of
                    Some b \<Rightarrow> blk_TimeMs E b + timeIota
                  | None \<Rightarrow> now))
      in (if now > minVoteTime then now else minVoteTime, cs))"

text \<open>\<open>signVote\<close> is called with a private validator \<open>pv\<close> that is not \<open>nil\<close>. The vote handed to the
  signer, as the signer returns it, is recorded in the history. The signer reads the clock once.\<close>

definition signVote ::
  "('val, 'vs, 'hvs, 'blk, 'bs, 'pv) node \<Rightarrow> 'pv \<Rightarrow> SignedMsgType \<Rightarrow> hash
     \<Rightarrow> ('val, 'vs, 'hvs, 'blk, 'bs, 'pv) consensus_state
     \<Rightarrow> (go_error + vote) \<times> ('val, 'vs, 'hvs, 'blk, 'bs, 'pv) consensus_state" where
  "signVote E pv msgType blockID cs =
     (case privValidatorPubKey cs of
        None \<Rightarrow> (Inl ErrPubKeyIsNotSet, cs)
      | Some pubKey \<Rightarrow>
          let addr = pubkey_Address pubKey;
              (valIdx, _) = vals_GetByAddress E (Validators cs) addr;
              (time, cs) = voteTime E cs;
              vote = \<lparr>v_ValidatorAddress = addr, v_ValidatorIndex = valIdx, v_Height = Height cs,
                v_Round = Round cs, v_TimestampMs = time, v_Type = msgType, v_BlockID = blockID,
                v_Signature = []\<rparr>;
              (now, cs) = CanonicalNow E cs;
              (err, vote) = pv_SignVote E pv now (st_ChainID (chainState cs)) vote;
              cs = cs\<lparr>signedVotes := signedVotes cs @ [vote]\<rparr>
          in (case err of None \<Rightarrow> (Inr vote, cs) | Some e \<Rightarrow> (Inl e, cs)))"

definition signAddVote ::
  "('val, 'vs, 'hvs, 'blk, 'bs, 'pv) node \<Rightarrow> SignedMsgType \<Rightarrow> hash
     \<Rightarrow> ('val, 'vs, 'hvs, 'blk, 'bs, 'pv) consensus_state
     \<Rightarrow> ('val, 'vs, 'hvs, 'blk, 'bs, 'pv) consensus_state" where
  "signAddVote E msgType blockID cs =
     (case privValidator cs of
        None \<Rightarrow> cs
      | Some pv \<Rightarrow>
          (case privValidatorPubKey cs of
             None \<Rightarrow> cs
           | Some pubKey \<Rightarrow>
               if \<not> vals_HasAddress E (Validators cs) (pubkey_Address pubKey) then cs
               else
                 (case signVote E pv msgType blockID cs of
                    (Inr vote, cs) \<Rightarrow>
                      sendInternalMessage \<lparr>mi_Msg = VoteMessage vote, mi_PeerID = []\<rparr> cs
                  | (Inl err, cs) \<Rightarrow> cs)))"

text \<open>\<open>updatePrivValidatorPubKey\<close>: on an error, which the callers log, the key stays.\<close>

definition updatePrivValidatorPubKey ::
  "('val, 'vs, 'hvs, 'blk, 'bs, 'pv) node \<Rightarrow> ('val, 'vs, 'hvs, 'blk, 'bs, 'pv) consensus_state
     \<Rightarrow> go_error option \<times> ('val, 'vs, 'hvs, 'blk, 'bs, 'pv) consensus_state" where
  "updatePrivValidatorPubKey E cs =
     (case privValidator cs of
        None \<Rightarrow> (None, cs)
      | Some pv \<Rightarrow>
          (case pv_GetPubKey E pv of
             Inl err \<Rightarrow> (Some err, cs)
           | Inr pubKey \<Rightarrow> (None, cs\<lparr>privValidatorPubKey := Some pubKey\<rparr>)))"

definition SetPrivValidator ::
  "('val, 'vs, 'hvs, 'blk, 'bs, 'pv) node \<Rightarrow> 'pv option
     \<Rightarrow> ('val, 'vs, 'hvs, 'blk, 'bs, 'pv) consensus_state
     \<Rightarrow> ('val, 'vs, 'hvs, 'blk, 'bs, 'pv) consensus_state" where
  "SetPrivValidator E priv cs = snd (updatePrivValidatorPubKey E (cs\<lparr>privValidator := priv\<rparr>))"

section \<open>Queries\<close>

definition GetLastHeight :: "('val, 'vs, 'hvs, 'blk, 'bs, 'pv) consensus_state \<Rightarrow> u64" where
  "GetLastHeight cs = Height cs - 1"

definition GetRoundState ::
  "('val, 'vs, 'hvs, 'blk, 'bs, 'pv) consensus_state \<Rightarrow> ('val, 'vs, 'hvs, 'blk) round_state" where
  "GetRoundState cs = round_state.truncate cs"

definition LoadCommit ::
  "('val, 'vs, 'hvs, 'blk, 'bs, 'pv) node \<Rightarrow> u64 \<Rightarrow> ('val, 'vs, 'hvs, 'blk, 'bs, 'pv) consensus_state
     \<Rightarrow> commit option res" where
  "LoadCommit E height cs =
     andThen
       (if height = store_Height E (blockStore cs) then store_LoadSeenCommit E (blockStore cs)
        else Inr None)
       (\<lambda>seen. case seen of
          Some commit \<Rightarrow>
            if c_Height commit = height then Inr (Some commit)
            else store_LoadBlockCommit E (blockStore cs) height
        | None \<Rightarrow> store_LoadBlockCommit E (blockStore cs) height)"

definition isProposer ::
  "('val, 'vs, 'hvs, 'blk, 'bs, 'pv) node \<Rightarrow> address
     \<Rightarrow> ('val, 'vs, 'hvs, 'blk, 'bs, 'pv) consensus_state \<Rightarrow> bool res" where
  "isProposer E addr cs =
     andThen (deref (vals_GetProposer E (Validators cs))) (\<lambda>proposer. Inr (val_Address proposer = addr))"

definition isProposalComplete ::
  "('val, 'vs, 'hvs, 'blk, 'bs, 'pv) node \<Rightarrow> ('val, 'vs, 'hvs, 'blk, 'bs, 'pv) consensus_state \<Rightarrow> bool"
  where
  "isProposalComplete E cs =
     (case Proposal cs of
        None \<Rightarrow> False
      | Some proposal \<Rightarrow>
          if ProposalBlock cs = None then False
          else if p_POLRound proposal < 0 then True
          else vs_HasTwoThirdsMajority E (hvs_Prevotes E (Votes cs) (p_POLRound proposal)))"

end
