(* ===== verification/CS_Enter.thy ===== *)
theory CS_Enter
  imports CS_State Safe_Math
begin

text \<open>
  The transitions of a round (\<open>consensus/consensus_state.go\<close>, from \<open>enterNewRound\<close> to
  \<open>enterPrecommitWait\<close>). Each function keeps the guard of the source as its first test; what the
  source defers to the end of the function is the last operation here. The functions the source
  allows tests to overwrite (\<open>decideProposal\<close>, \<open>doPrevote\<close>, \<open>setProposal\<close>,
  \<open>createProposalBlockFunc\<close>) are the defaults.
\<close>

type_synonym ('val, 'vs, 'hvs, 'blk, 'bs, 'pv) handler =
  "('val, 'vs, 'hvs, 'blk, 'bs, 'pv) consensus_state
     \<Rightarrow> ('val, 'vs, 'hvs, 'blk, 'bs, 'pv) consensus_state res"

section \<open>Prevote\<close>

definition defaultDoPrevote ::
  "('val, 'vs, 'hvs, 'blk, 'bs, 'pv) node \<Rightarrow> u64 \<Rightarrow> int
     \<Rightarrow> ('val, 'vs, 'hvs, 'blk, 'bs, 'pv) handler" where
  "defaultDoPrevote E height round cs =
     (case LockedBlock cs of
        Some locked \<Rightarrow> Inr (signAddVote E PrevoteType (blk_Hash E locked) cs)
      | None \<Rightarrow>
          (case ProposalBlock cs of
             None \<Rightarrow> Inr (signAddVote E PrevoteType 0 cs)
           | Some block \<Rightarrow>
               andThen (be_ValidateBlock E (chainState cs) block) (\<lambda>err.
                 case err of
                   Some e \<Rightarrow> Inr (signAddVote E PrevoteType 0 cs)
                 | None \<Rightarrow> Inr (signAddVote E PrevoteType (blk_Hash E block) cs))))"

definition enterPrevote ::
  "('val, 'vs, 'hvs, 'blk, 'bs, 'pv) node \<Rightarrow> u64 \<Rightarrow> int
     \<Rightarrow> ('val, 'vs, 'hvs, 'blk, 'bs, 'pv) handler" where
  "enterPrevote E height round cs =
     (if Height cs \<noteq> height \<or> round < Round cs \<or> (Round cs = round \<and> RoundStepPrevote \<le> Step cs)
      then Inr cs
      else andThen (defaultDoPrevote E height round cs) (\<lambda>cs.
        Inr (newStep (updateRoundStep round RoundStepPrevote cs))))"

definition enterPrevoteWait ::
  "('val, 'vs, 'hvs, 'blk, 'bs, 'pv) node \<Rightarrow> u64 \<Rightarrow> int
     \<Rightarrow> ('val, 'vs, 'hvs, 'blk, 'bs, 'pv) handler" where
  "enterPrevoteWait E height round cs =
     (if Height cs \<noteq> height \<or> round < Round cs \<or> (Round cs = round \<and> RoundStepPrevoteWait \<le> Step cs)
      then Inr cs
      else if \<not> vs_HasTwoThirdsAny E (hvs_Prevotes E (Votes cs) round)
      then Inl PrevoteWaitWithoutTwoThirds
      else
        let cs = scheduleTimeout (cfg_Prevote E (cs_config cs) round) height round RoundStepPrevoteWait cs
        in Inr (newStep (updateRoundStep round RoundStepPrevoteWait cs)))"

section \<open>Propose\<close>

definition createProposalBlock ::
  "('val, 'vs, 'hvs, 'blk, 'bs, 'pv) node \<Rightarrow> ('val, 'vs, 'hvs, 'blk, 'bs, 'pv) consensus_state
     \<Rightarrow> 'blk option res" where
  "createProposalBlock E cs =
     (if privValidator cs = None then Inl ProposalWithoutPrivValidator
      else
        andThen
          (if Height cs = st_InitialHeight (chainState cs)
           then Inr (Some (Some (NewCommit E 0 0 0 [])))
           else if vs_HasTwoThirdsMajority E (LastCommit cs)
           then andThen (vs_MakeCommit E (LastCommit cs)) (\<lambda>commit. Inr (Some commit))
           else Inr None)
          (\<lambda>commit. case commit of
             None \<Rightarrow> Inr None
           | Some commit \<Rightarrow>
               (case privValidatorPubKey cs of
                  None \<Rightarrow> Inr None
                | Some pubKey \<Rightarrow>
                    be_MakeBlock E (chainState cs) (Height cs) commit (pubkey_Address pubKey))))"

definition defaultDecideProposal ::
  "('val, 'vs, 'hvs, 'blk, 'bs, 'pv) node \<Rightarrow> u64 \<Rightarrow> int
     \<Rightarrow> ('val, 'vs, 'hvs, 'blk, 'bs, 'pv) handler" where
  "defaultDecideProposal E height round cs =
     andThen
       (case ValidBlock cs of
          Some block \<Rightarrow> Inr (Some block)
        | None \<Rightarrow> createProposalBlock E cs)
       (\<lambda>block. case block of
          None \<Rightarrow> Inr cs
        | Some block \<Rightarrow>
            let proposal = NewProposal E height round (ValidRound cs) (Some block) in
            andThen (deref (privValidator cs)) (\<lambda>pv.
              let (err, proposal) = pv_SignProposal E pv (st_ChainID (chainState cs)) proposal;
                  cs = cs\<lparr>signedProposals := signedProposals cs @ [proposal]\<rparr>
              in case err of
                   None \<Rightarrow>
                     Inr (sendInternalMessage
                       \<lparr>mi_Msg = ProposalMessage proposal, mi_PeerID = []\<rparr> cs)
                 | Some e \<Rightarrow> Inr cs))"

text \<open>The part of \<open>enterPropose\<close> before its deferred function.\<close>

definition enterPropose_body ::
  "('val, 'vs, 'hvs, 'blk, 'bs, 'pv) node \<Rightarrow> u64 \<Rightarrow> int
     \<Rightarrow> ('val, 'vs, 'hvs, 'blk, 'bs, 'pv) handler" where
  "enterPropose_body E height round cs =
     (let cs = scheduleTimeout (cfg_Propose E (cs_config cs) round) height round RoundStepPropose cs in
      case privValidator cs of
        None \<Rightarrow> Inr cs
      | Some pv \<Rightarrow>
          (case privValidatorPubKey cs of
             None \<Rightarrow> Inr cs
           | Some pubKey \<Rightarrow>
               let address = pubkey_Address pubKey in
               if \<not> vals_HasAddress E (Validators cs) address then Inr cs
               else
                 andThen (isProposer E address cs) (\<lambda>ours.
                   if ours then defaultDecideProposal E height round cs else Inr cs)))"

definition enterPropose ::
  "('val, 'vs, 'hvs, 'blk, 'bs, 'pv) node \<Rightarrow> u64 \<Rightarrow> int
     \<Rightarrow> ('val, 'vs, 'hvs, 'blk, 'bs, 'pv) handler" where
  "enterPropose E height round cs =
     (if Height cs \<noteq> height \<or> round < Round cs \<or> (Round cs = round \<and> RoundStepPropose \<le> Step cs)
      then Inr cs
      else andThen (enterPropose_body E height round cs) (\<lambda>cs.
        let cs = newStep (updateRoundStep round RoundStepPropose cs) in
        if isProposalComplete E cs then enterPrevote E height (Round cs) cs else Inr cs))"

section \<open>New round\<close>

text \<open>
  The loop \<open>for i := uint64(0); i < uint64(validators.ProposerReptition); i++\<close>. The counter is a
  \<open>uint64\<close> below a \<open>uint64\<close> bound, so the loop ends within \<open>2 ^ 64\<close> iterations.
\<close>

function incrementPriorities ::
  "('val, 'vs, 'hvs, 'blk, 'bs, 'pv) node \<Rightarrow> int res \<Rightarrow> nat \<Rightarrow> 'val option \<Rightarrow> 'val option res" where
  "incrementPriorities E delta i validators =
     andThen (deref validators) (\<lambda>v.
       if i < unat (to_u64 (vals_ProposerReptition E v))
       then
         andThen delta (\<lambda>n.
           andThen (vals_IncrementProposerPriority E n validators) (\<lambda>validators.
             incrementPriorities E delta (Suc i) validators))
       else Inr validators)"
  by pat_completeness auto
termination
proof (relation "measure (\<lambda>(E, delta, i, validators). 2 ^ 64 - i)", goal_cases)
  case (2 E delta i validators v n validators')
  then show ?case using unat_u64_less [of "to_u64 (vals_ProposerReptition E v)"] by simp
qed simp

declare incrementPriorities.simps [simp del]

definition enterNewRound ::
  "('val, 'vs, 'hvs, 'blk, 'bs, 'pv) node \<Rightarrow> u64 \<Rightarrow> int
     \<Rightarrow> ('val, 'vs, 'hvs, 'blk, 'bs, 'pv) handler" where
  "enterNewRound E height round cs =
     (if Height cs \<noteq> height \<or> round < Round cs \<or> (Round cs = round \<and> Step cs \<noteq> RoundStepNewHeight)
      then Inr cs
      else
        let (now, cs) = CanonicalNow E cs in
        andThen
          (if Round cs < round
           then incrementPriorities E (SafeSubInt32 round (Round cs)) 0 (vals_Copy E (Validators cs))
           else Inr (Validators cs))
          (\<lambda>validators.
            let cs = (updateRoundStep round RoundStepNewRound cs)\<lparr>Validators := validators\<rparr>;
                cs = (if round = 0 then cs else cs\<lparr>Proposal := None, ProposalBlock := None\<rparr>)
            in
            andThen (SafeAddInt32 round 1) (\<lambda>next.
              andThen (hvs_SetRound E next (Votes cs)) (\<lambda>votes.
                enterPropose E height round
                  (cs\<lparr>Votes := votes, TriggeredTimeoutPrecommit := False\<rparr>)))))"

section \<open>Precommit\<close>

text \<open>The part of \<open>enterPrecommit\<close> before its deferred function.\<close>

definition enterPrecommit_body ::
  "('val, 'vs, 'hvs, 'blk, 'bs, 'pv) node \<Rightarrow> u64 \<Rightarrow> int
     \<Rightarrow> ('val, 'vs, 'hvs, 'blk, 'bs, 'pv) handler" where
  "enterPrecommit_body E height round cs =
     (let (blockID, ok) = vs_TwoThirdsMajority E (hvs_Prevotes E (Votes cs) round) in
      if \<not> ok then Inr (signAddVote E PrecommitType 0 cs)
      else if fst (hvs_POLInfo E (Votes cs)) < round then Inl POLRoundTooSmall
      else if blockID = 0 then
        let cs = (if LockedBlock cs = None then cs else cs\<lparr>LockedRound := -1, LockedBlock := None\<rparr>)
        in Inr (signAddVote E PrecommitType 0 cs)
      else if blk_HashTo E (LockedBlock cs) blockID then
        Inr (signAddVote E PrecommitType blockID (cs\<lparr>LockedRound := round\<rparr>))
      else if blk_HashTo E (ProposalBlock cs) blockID then
        andThen (deref (ProposalBlock cs)) (\<lambda>block.
          andThen (be_ValidateBlock E (chainState cs) block) (\<lambda>err.
            case err of
              Some e \<Rightarrow> Inl PolkaForInvalidBlock
            | None \<Rightarrow>
                Inr (signAddVote E PrecommitType blockID
                  (cs\<lparr>LockedRound := round, LockedBlock := ProposalBlock cs\<rparr>))))
      else Inr (signAddVote E PrecommitType 0 (cs\<lparr>LockedRound := -1, LockedBlock := None\<rparr>)))"

definition enterPrecommit ::
  "('val, 'vs, 'hvs, 'blk, 'bs, 'pv) node \<Rightarrow> u64 \<Rightarrow> int
     \<Rightarrow> ('val, 'vs, 'hvs, 'blk, 'bs, 'pv) handler" where
  "enterPrecommit E height round cs =
     (if Height cs \<noteq> height \<or> round < Round cs \<or> (Round cs = round \<and> RoundStepPrecommit \<le> Step cs)
      then Inr cs
      else andThen (enterPrecommit_body E height round cs) (\<lambda>cs.
        Inr (newStep (updateRoundStep round RoundStepPrecommit cs))))"

definition enterPrecommitWait ::
  "('val, 'vs, 'hvs, 'blk, 'bs, 'pv) node \<Rightarrow> u64 \<Rightarrow> int
     \<Rightarrow> ('val, 'vs, 'hvs, 'blk, 'bs, 'pv) handler" where
  "enterPrecommitWait E height round cs =
     (if Height cs \<noteq> height \<or> round < Round cs \<or> (Round cs = round \<and> TriggeredTimeoutPrecommit cs)
      then Inr cs
      else if \<not> vs_HasTwoThirdsAny E (hvs_Precommits E (Votes cs) round)
      then Inl PrecommitWaitWithoutTwoThirds
      else
        let cs = scheduleTimeout (cfg_Precommit E (cs_config cs) round) height round
                   RoundStepPrecommitWait cs
        in Inr (newStep (cs\<lparr>TriggeredTimeoutPrecommit := True\<rparr>)))"

end
