(* ===== verification/CS_Commit.thy ===== *)
theory CS_Commit
  imports CS_Enter
begin

text \<open>
  Committing a block (\<open>consensus/consensus_state.go\<close>): \<open>updateToState\<close>, \<open>finalizeCommit\<close>,
  \<open>tryFinalizeCommit\<close>, \<open>enterCommit\<close> and \<open>processCommitedBlock\<close>, the fast path for a block that
  arrives with its commit.
\<close>

section \<open>Moving to the next height\<close>

text \<open>The three panics that \<open>updateToState\<close> raises before it changes anything.\<close>

definition updateToState_check ::
  "'val chain_state \<Rightarrow> ('val, 'vs, 'hvs, 'blk, 'bs, 'pv) consensus_state \<Rightarrow> unit res" where
  "updateToState_check state cs =
     (if CommitRound cs > -1 \<and> 0 < Height cs \<and> Height cs \<noteq> st_LastBlockHeight state
      then Inl StateHeightMismatch
      else if \<not> ChainState_IsEmpty (chainState cs) \<and> st_LastBlockHeight (chainState cs) > 0
        \<and> st_LastBlockHeight (chainState cs) + 1 \<noteq> Height cs
      then Inl InconsistentLastBlockHeight
      else if \<not> ChainState_IsEmpty (chainState cs) \<and> st_LastBlockHeight (chainState cs) > 0
        \<and> Height cs = st_InitialHeight (chainState cs)
      then Inl InconsistentInitialHeight
      else Inr ())"

text \<open>The last commit of the new height.\<close>

definition updateToState_lastCommit ::
  "('val, 'vs, 'hvs, 'blk, 'bs, 'pv) node \<Rightarrow> 'val chain_state
     \<Rightarrow> ('val, 'vs, 'hvs, 'blk, 'bs, 'pv) consensus_state \<Rightarrow> 'vs option res" where
  "updateToState_lastCommit E state cs =
     (if st_LastBlockHeight state = 0 then Inr None
      else if CommitRound cs > -1 \<and> Votes cs \<noteq> None then
        let precommits = hvs_Precommits E (Votes cs) (CommitRound cs) in
        if \<not> vs_HasTwoThirdsMajority E precommits then Inl PrecommitsWithoutMajority
        else Inr precommits
      else if LastCommit cs = None then Inl EmptyLastCommit
      else Inr (LastCommit cs))"

text \<open>The height that follows a chain state.\<close>

definition next_height :: "'val chain_state \<Rightarrow> u64" where
  "next_height state =
     (let height = st_LastBlockHeight state + 1 in
      if height = 1 then st_InitialHeight state else height)"

definition updateToState_reset ::
  "('val, 'vs, 'hvs, 'blk, 'bs, 'pv) node \<Rightarrow> 'val chain_state
     \<Rightarrow> ('val, 'vs, 'hvs, 'blk, 'bs, 'pv) consensus_state
     \<Rightarrow> ('val, 'vs, 'hvs, 'blk, 'bs, 'pv) consensus_state" where
  "updateToState_reset E state cs =
     (let height = next_height state;
          cs = updateRoundStep 0 RoundStepNewHeight (updateHeight height cs);
          cs = (if CommitTime cs = 0
                then let (now, cs) = CanonicalNow E cs
                     in cs\<lparr>StartTime := cfg_Commit E (cs_config cs) now\<rparr>
                else cs\<lparr>StartTime := cfg_Commit E (cs_config cs) (CommitTime cs)\<rparr>)
      in newStep (cs\<lparr>
           Validators := st_Validators state,
           Proposal := None,
           ProposalBlock := None,
           LockedRound := -1,
           LockedBlock := None,
           ValidRound := -1,
           ValidBlock := None,
           Votes := Some (NewHeightVoteSet E (st_ChainID state) height (st_Validators state)),
           CommitRound := -1,
           LastValidators := st_LastValidators state,
           TriggeredTimeoutPrecommit := False,
           chainState := state\<rparr>))"

definition updateToState ::
  "('val, 'vs, 'hvs, 'blk, 'bs, 'pv) node \<Rightarrow> 'val chain_state
     \<Rightarrow> ('val, 'vs, 'hvs, 'blk, 'bs, 'pv) handler" where
  "updateToState E state cs =
     andThen (updateToState_check state cs) (\<lambda>_.
       if \<not> ChainState_IsEmpty (chainState cs)
         \<and> st_LastBlockHeight state \<le> st_LastBlockHeight (chainState cs)
       then Inr (newStep cs)
       else
         andThen (updateToState_lastCommit E state cs) (\<lambda>lastCommit.
           Inr (updateToState_reset E state (cs\<lparr>LastCommit := lastCommit\<rparr>))))"

section \<open>Committing\<close>

text \<open>Saving the block, unless the store has it already. \<open>seenCommit\<close> is computed only when the
  block is saved.\<close>

definition saveBlock ::
  "('val, 'vs, 'hvs, 'blk, 'bs, 'pv) node \<Rightarrow> 'blk \<Rightarrow> commit option res
     \<Rightarrow> ('val, 'vs, 'hvs, 'blk, 'bs, 'pv) handler" where
  "saveBlock E block seenCommit cs =
     (if store_Height E (blockStore cs) < blk_NumberU64 E block then
        andThen seenCommit (\<lambda>commit.
          andThen (store_SaveBlock E block commit (blockStore cs)) (\<lambda>bs.
            Inr (cs\<lparr>blockStore := bs\<rparr>)))
      else Inr cs)"

text \<open>Applying the block and moving to the next height; \<open>after\<close> schedules what comes next. An error
  of \<open>ApplyBlock\<close> is logged and nothing follows.\<close>

definition applyBlock ::
  "('val, 'vs, 'hvs, 'blk, 'bs, 'pv) node \<Rightarrow> 'blk
     \<Rightarrow> ('val, 'vs, 'hvs, 'blk, 'bs, 'pv) handler
     \<Rightarrow> ('val, 'vs, 'hvs, 'blk, 'bs, 'pv) handler" where
  "applyBlock E block after cs =
     (let stateCopy = ChainState_Copy E (chainState cs) in
      andThen (be_ApplyBlock E stateCopy block) (\<lambda>r.
        case r of
          Inl err \<Rightarrow> Inr cs
        | Inr stateCopy \<Rightarrow>
            andThen (updateToState E stateCopy cs) (\<lambda>cs.
              after (snd (updatePrivValidatorPubKey E cs)))))"

definition finalizeCommit ::
  "('val, 'vs, 'hvs, 'blk, 'bs, 'pv) node \<Rightarrow> u64
     \<Rightarrow> ('val, 'vs, 'hvs, 'blk, 'bs, 'pv) handler" where
  "finalizeCommit E height cs =
     (if Height cs \<noteq> height \<or> Step cs \<noteq> RoundStepCommit then Inr cs
      else
        let precommits = hvs_Precommits E (Votes cs) (CommitRound cs);
            (blockID, ok) = vs_TwoThirdsMajority E precommits
        in
        if \<not> ok then Inl FinalizeWithoutMajority
        else if \<not> blk_HashTo E (ProposalBlock cs) blockID then Inl FinalizeWrongBlock
        else
          andThen (deref (ProposalBlock cs)) (\<lambda>block.
            andThen (be_ValidateBlock E (chainState cs) block) (\<lambda>err.
              case err of
                Some e \<Rightarrow> Inl CommittedInvalidBlock
              | None \<Rightarrow>
                  andThen (saveBlock E block (vs_MakeCommit E precommits) cs) (\<lambda>cs.
                    applyBlock E block
                      (\<lambda>cs. Inr (scheduleRound0 E (GetRoundState cs) cs)) cs))))"

definition tryFinalizeCommit ::
  "('val, 'vs, 'hvs, 'blk, 'bs, 'pv) node \<Rightarrow> u64
     \<Rightarrow> ('val, 'vs, 'hvs, 'blk, 'bs, 'pv) handler" where
  "tryFinalizeCommit E height cs =
     (if Height cs \<noteq> height then Inl FinalizeHeightMismatch
      else
        let (blockID, ok) = vs_TwoThirdsMajority E (hvs_Precommits E (Votes cs) (CommitRound cs)) in
        if \<not> ok \<or> blockID = 0 then Inr cs
        else if \<not> blk_HashTo E (ProposalBlock cs) blockID then Inr cs
        else finalizeCommit E height cs)"

text \<open>The part of \<open>enterCommit\<close> before its deferred function.\<close>

definition enterCommit_body ::
  "('val, 'vs, 'hvs, 'blk, 'bs, 'pv) node \<Rightarrow> int
     \<Rightarrow> ('val, 'vs, 'hvs, 'blk, 'bs, 'pv) handler" where
  "enterCommit_body E commitRound cs =
     (let (blockID, ok) = vs_TwoThirdsMajority E (hvs_Precommits E (Votes cs) commitRound) in
      if \<not> ok then Inl CommitWithoutMajority
      else
        let cs = (if blk_HashTo E (LockedBlock cs) blockID
                  then cs\<lparr>ProposalBlock := LockedBlock cs\<rparr> else cs)
        in Inr (if \<not> blk_HashTo E (ProposalBlock cs) blockID
                then cs\<lparr>ProposalBlock := None\<rparr> else cs))"

definition enterCommit ::
  "('val, 'vs, 'hvs, 'blk, 'bs, 'pv) node \<Rightarrow> u64 \<Rightarrow> int
     \<Rightarrow> ('val, 'vs, 'hvs, 'blk, 'bs, 'pv) handler" where
  "enterCommit E height commitRound cs =
     (if Height cs \<noteq> height \<or> RoundStepCommit \<le> Step cs then Inr cs
      else
        andThen (enterCommit_body E commitRound cs) (\<lambda>cs.
          let cs = (updateRoundStep (Round cs) RoundStepCommit cs)\<lparr>CommitRound := commitRound\<rparr>;
              (now, cs) = CanonicalNow E cs
          in tryFinalizeCommit E height (newStep (cs\<lparr>CommitTime := now\<rparr>))))"

section \<open>A committed block from a peer\<close>

definition processCommitedBlock ::
  "('val, 'vs, 'hvs, 'blk, 'bs, 'pv) node \<Rightarrow> 'blk
     \<Rightarrow> ('val, 'vs, 'hvs, 'blk, 'bs, 'pv) handler" where
  "processCommitedBlock E block cs =
     (if blk_NumberU64 E block \<noteq> Height cs then Inr cs
      else
        andThen (be_ValidateBlock E (chainState cs) block) (\<lambda>err.
          case err of
            Some e \<Rightarrow> Inr cs
          | None \<Rightarrow>
              (case vals_VerifyCommit E (st_Validators (chainState cs)) (st_ChainID (chainState cs))
                  (blk_Hash E block) (blk_NumberU64 E block) (blk_HeaderCommit E block) of
                 Some e \<Rightarrow> Inr cs
               | None \<Rightarrow>
                   let cs = (updateRoundStep (Round cs) RoundStepCommit cs)\<lparr>CommitRound := -1\<rparr> in
                   andThen (CommitToVoteSet E (st_ChainID (chainState cs)) (blk_Commit E block)
                       (st_Validators (chainState cs))) (\<lambda>lastCommit.
                     let (now, cs) = CanonicalNow E (cs\<lparr>LastCommit := lastCommit\<rparr>);
                         cs = cs\<lparr>CommitTime := now\<rparr>
                     in
                     andThen (saveBlock E block (Inr (blk_Commit E block)) cs) (\<lambda>cs.
                       applyBlock E block
                         (\<lambda>cs. if SkipTimeoutCommit (cs_config cs) \<and> vs_HasAll E (LastCommit cs)
                               then enterNewRound E (Height cs) 0 cs
                               else Inr (scheduleRound0 E (GetRoundState cs) cs)) cs)))))"

end
