(* ===== verification/CS_Receive.thy ===== *)
theory CS_Receive
  imports CS_Commit
begin

text \<open>
  The inputs of the consensus state machine (\<open>consensus/consensus_state.go\<close>): proposals and votes
  from \<open>handleMsg\<close>, timeouts from \<open>handleTimeout\<close>, and the construction and start of the state.
  A result \<open>(bool, error)\<close> of the source is a pair of a boolean and an optional error.
\<close>

section \<open>Proposals\<close>

text \<open>The update of \<open>Valid*\<close> when a proposal arrives after its polka.\<close>

definition setProposal_valid ::
  "('val, 'vs, 'hvs, 'blk, 'bs, 'pv) node \<Rightarrow> hash \<Rightarrow> bool
     \<Rightarrow> ('val, 'vs, 'hvs, 'blk, 'bs, 'pv) consensus_state
     \<Rightarrow> ('val, 'vs, 'hvs, 'blk, 'bs, 'pv) consensus_state" where
  "setProposal_valid E blockID hasTwoThirds cs =
     (if hasTwoThirds \<and> blockID \<noteq> 0 \<and> ValidRound cs < Round cs
        \<and> blk_HashTo E (ProposalBlock cs) blockID
      then cs\<lparr>ValidRound := Round cs, ValidBlock := ProposalBlock cs\<rparr>
      else cs)"

definition setProposal_step ::
  "('val, 'vs, 'hvs, 'blk, 'bs, 'pv) node \<Rightarrow> bool
     \<Rightarrow> ('val, 'vs, 'hvs, 'blk, 'bs, 'pv) handler" where
  "setProposal_step E hasTwoThirds cs =
     (if Step cs \<le> RoundStepPropose \<and> isProposalComplete E cs then
        andThen (enterPrevote E (Height cs) (Round cs) cs) (\<lambda>cs.
          if hasTwoThirds then enterPrecommit E (Height cs) (Round cs) cs else Inr cs)
      else if Step cs = RoundStepCommit then tryFinalizeCommit E (Height cs) cs
      else Inr cs)"

definition defaultSetProposal ::
  "('val, 'vs, 'hvs, 'blk, 'bs, 'pv) node \<Rightarrow> 'blk proposal
     \<Rightarrow> ('val, 'vs, 'hvs, 'blk, 'bs, 'pv) consensus_state
     \<Rightarrow> ((bool \<times> go_error option) \<times> ('val, 'vs, 'hvs, 'blk, 'bs, 'pv) consensus_state) res" where
  "defaultSetProposal E proposal cs =
     (if Proposal cs \<noteq> None then Inr ((False, None), cs)
      else if p_Height proposal \<noteq> Height cs \<or> p_Round proposal \<noteq> Round cs
      then Inr ((False, None), cs)
      else if p_POLRound proposal < -1
        \<or> (p_POLRound proposal \<ge> 0 \<and> p_POLRound proposal \<ge> p_Round proposal)
      then Inr ((False, Some ErrInvalidProposalPOLRound), cs)
      else
        andThen (deref (vals_GetProposer E (Validators cs))) (\<lambda>proposer.
          if \<not> PubKey_VerifySignature E (val_PubKey proposer)
               (ProposalSignBytes E proposal (st_ChainID (chainState cs))) (p_Signature proposal)
          then Inr ((False, Some ErrInvalidProposalSignature), cs)
          else
            let cs = cs\<lparr>Proposal := Some proposal, ProposalBlock := p_Block proposal\<rparr>;
                (blockID, hasTwoThirds) =
                  vs_TwoThirdsMajority E (hvs_Prevotes E (Votes cs) (Round cs));
                cs = setProposal_valid E blockID hasTwoThirds cs
            in andThen (setProposal_step E hasTwoThirds cs) (\<lambda>cs. Inr ((True, None), cs))))"

section \<open>Votes\<close>

text \<open>A prevote completed a polka: unlock if it is a later one for another block, and update
  \<open>Valid*\<close> and the proposal block in the current round.\<close>

definition addVote_polka ::
  "('val, 'vs, 'hvs, 'blk, 'bs, 'pv) node \<Rightarrow> vote \<Rightarrow> hash
     \<Rightarrow> ('val, 'vs, 'hvs, 'blk, 'bs, 'pv) consensus_state
     \<Rightarrow> ('val, 'vs, 'hvs, 'blk, 'bs, 'pv) consensus_state" where
  "addVote_polka E vote blockID cs =
     (let cs = (if LockedBlock cs \<noteq> None \<and> LockedRound cs < v_Round vote
                  \<and> v_Round vote \<le> Round cs \<and> \<not> blk_HashTo E (LockedBlock cs) blockID
                then cs\<lparr>LockedRound := -1, LockedBlock := None\<rparr> else cs)
      in
      if blockID \<noteq> 0 \<and> ValidRound cs < v_Round vote \<and> v_Round vote = Round cs then
        if blk_HashTo E (ProposalBlock cs) blockID
        then cs\<lparr>ValidRound := v_Round vote, ValidBlock := ProposalBlock cs\<rparr>
        else cs\<lparr>ProposalBlock := None\<rparr>
      else cs)"

definition addVote_prevote ::
  "('val, 'vs, 'hvs, 'blk, 'bs, 'pv) node \<Rightarrow> u64 \<Rightarrow> vote
     \<Rightarrow> ('val, 'vs, 'hvs, 'blk, 'bs, 'pv) handler" where
  "addVote_prevote E height vote cs =
     (let prevotes = hvs_Prevotes E (Votes cs) (v_Round vote);
          (blockID, ok) = vs_TwoThirdsMajority E prevotes;
          cs = (if ok then addVote_polka E vote blockID cs else cs)
      in
      if Round cs < v_Round vote \<and> vs_HasTwoThirdsAny E prevotes
      then enterNewRound E height (v_Round vote) cs
      else if Round cs = v_Round vote \<and> RoundStepPrevote \<le> Step cs then
        if ok \<and> (isProposalComplete E cs \<or> blockID = 0)
        then enterPrecommit E height (v_Round vote) cs
        else if vs_HasTwoThirdsAny E prevotes then enterPrevoteWait E height (v_Round vote) cs
        else Inr cs
      else
        (case Proposal cs of
           None \<Rightarrow> Inr cs
         | Some proposal \<Rightarrow>
             if 0 \<le> p_POLRound proposal \<and> p_POLRound proposal = v_Round vote
               \<and> isProposalComplete E cs
             then enterPrevote E height (Round cs) cs
             else Inr cs))"

definition addVote_precommit ::
  "('val, 'vs, 'hvs, 'blk, 'bs, 'pv) node \<Rightarrow> u64 \<Rightarrow> vote
     \<Rightarrow> ('val, 'vs, 'hvs, 'blk, 'bs, 'pv) handler" where
  "addVote_precommit E height vote cs =
     (let precommits = hvs_Precommits E (Votes cs) (v_Round vote);
          (blockID, ok) = vs_TwoThirdsMajority E precommits
      in
      if ok then
        andThen (enterNewRound E height (v_Round vote) cs) (\<lambda>cs.
          andThen (enterPrecommit E height (v_Round vote) cs) (\<lambda>cs.
            if blockID \<noteq> 0 then
              andThen (enterCommit E height (v_Round vote) cs) (\<lambda>cs.
                if SkipTimeoutCommit (cs_config cs) \<and> vs_HasAll E precommits
                then enterNewRound E (Height cs) 0 cs
                else Inr cs)
            else enterPrecommitWait E height (v_Round vote) cs))
      else if Round cs \<le> v_Round vote \<and> vs_HasTwoThirdsAny E precommits then
        andThen (enterNewRound E height (v_Round vote) cs)
          (enterPrecommitWait E height (v_Round vote))
      else Inr cs)"

text \<open>A precommit for the previous height, which is taken while the node waits for the new height to
  start.\<close>

definition addVote_late ::
  "('val, 'vs, 'hvs, 'blk, 'bs, 'pv) node \<Rightarrow> vote
     \<Rightarrow> ('val, 'vs, 'hvs, 'blk, 'bs, 'pv) consensus_state
     \<Rightarrow> ((bool \<times> go_error option) \<times> ('val, 'vs, 'hvs, 'blk, 'bs, 'pv) consensus_state) res" where
  "addVote_late E vote cs =
     (if Step cs \<noteq> RoundStepNewHeight then Inr ((False, None), cs)
      else
        andThen (vs_AddVote E vote (LastCommit cs)) (\<lambda>((added, err), lastCommit).
          let cs = cs\<lparr>LastCommit := lastCommit\<rparr> in
          if \<not> added then Inr ((added, err), cs)
          else if SkipTimeoutCommit (cs_config cs) \<and> vs_HasAll E (LastCommit cs)
          then andThen (enterNewRound E (Height cs) 0 cs) (\<lambda>cs. Inr ((added, err), cs))
          else Inr ((added, err), cs)))"

definition addVote ::
  "('val, 'vs, 'hvs, 'blk, 'bs, 'pv) node \<Rightarrow> vote \<Rightarrow> string
     \<Rightarrow> ('val, 'vs, 'hvs, 'blk, 'bs, 'pv) consensus_state
     \<Rightarrow> ((bool \<times> go_error option) \<times> ('val, 'vs, 'hvs, 'blk, 'bs, 'pv) consensus_state) res" where
  "addVote E vote peerID cs =
     (if v_Height vote + 1 = Height cs \<and> v_Type vote = PrecommitType then addVote_late E vote cs
      else if v_Height vote \<noteq> Height cs then Inr ((False, None), cs)
      else
        let height = Height cs in
        andThen (hvs_AddVote E vote peerID (Votes cs)) (\<lambda>((added, err), votes).
          let cs = cs\<lparr>Votes := votes\<rparr> in
          if \<not> added then Inr ((added, err), cs)
          else
            andThen
              (case v_Type vote of
                 PrevoteType \<Rightarrow> addVote_prevote E height vote cs
               | PrecommitType \<Rightarrow> addVote_precommit E height vote cs
               | _ \<Rightarrow> Inl UnexpectedVoteType)
              (\<lambda>cs. Inr ((added, err), cs))))"

text \<open>\<open>tryAddVote\<close> turns the errors of \<open>addVote\<close> into those the caller sees.\<close>

definition tryAddVote_result ::
  "('val, 'vs, 'hvs, 'blk, 'bs, 'pv) consensus_state \<Rightarrow> bool \<times> go_error option
     \<Rightarrow> bool \<times> go_error option" where
  "tryAddVote_result cs r =
     (case r of
        (added, None) \<Rightarrow> (added, None)
      | (added, Some (ErrVoteConflictingVotes a b)) \<Rightarrow>
          if privValidatorPubKey cs = None then (False, Some ErrPubKeyIsNotSet)
          else (added, Some (ErrVoteConflictingVotes a b))
      | (added, Some ErrVoteNonDeterministicSignature) \<Rightarrow> (added, None)
      | (added, Some _) \<Rightarrow> (added, Some ErrAddingVote))"

definition tryAddVote ::
  "('val, 'vs, 'hvs, 'blk, 'bs, 'pv) node \<Rightarrow> vote \<Rightarrow> string
     \<Rightarrow> ('val, 'vs, 'hvs, 'blk, 'bs, 'pv) consensus_state
     \<Rightarrow> ((bool \<times> go_error option) \<times> ('val, 'vs, 'hvs, 'blk, 'bs, 'pv) consensus_state) res" where
  "tryAddVote E vote peerID cs =
     andThen (addVote E vote peerID cs) (\<lambda>(r, cs). Inr (tryAddVote_result cs r, cs))"

section \<open>Messages and timeouts\<close>

text \<open>\<open>handleMsg\<close> relays what it added to the peers and logs errors.\<close>

definition handleMsg ::
  "('val, 'vs, 'hvs, 'blk, 'bs, 'pv) node \<Rightarrow> 'blk msg_info
     \<Rightarrow> ('val, 'vs, 'hvs, 'blk, 'bs, 'pv) handler" where
  "handleMsg E mi cs =
     (case mi_Msg mi of
        ProposalMessage proposal \<Rightarrow>
          andThen (defaultSetProposal E proposal cs) (\<lambda>((added, err), cs).
            Inr (if added then broadcastMessageToPeers (ProposalMessage proposal) cs else cs))
      | VoteMessage vote \<Rightarrow>
          andThen (tryAddVote E vote (mi_PeerID mi) cs) (\<lambda>((added, err), cs).
            Inr (if added then broadcastMessageToPeers (VoteMessage vote) cs else cs))
      | SyncRequestMessage req \<Rightarrow> Inr cs)"

definition handleTimeout ::
  "('val, 'vs, 'hvs, 'blk, 'bs, 'pv) node \<Rightarrow> timeout_info \<Rightarrow> ('val, 'vs, 'hvs, 'blk) round_state
     \<Rightarrow> ('val, 'vs, 'hvs, 'blk, 'bs, 'pv) handler" where
  "handleTimeout E ti rs cs =
     (if ti_Height ti \<noteq> Height rs \<or> ti_Round ti < Round rs
        \<or> (ti_Round ti = Round rs \<and> ti_Step ti < Step rs)
      then Inr cs
      else if ti_Step ti = RoundStepNewHeight then enterNewRound E (ti_Height ti) 0 cs
      else if ti_Step ti = RoundStepNewRound then enterPropose E (ti_Height ti) 0 cs
      else if ti_Step ti = RoundStepPropose then enterPrevote E (ti_Height ti) (ti_Round ti) cs
      else if ti_Step ti = RoundStepPrevoteWait then enterPrecommit E (ti_Height ti) (ti_Round ti) cs
      else if ti_Step ti = RoundStepPrecommitWait then
        andThen (enterPrecommit E (ti_Height ti) (ti_Round ti) cs)
          (enterNewRound E (ti_Height ti) (i32 (ti_Round ti + 1)))
      else Inl InvalidTimeoutStep)"

section \<open>Construction and start\<close>

text \<open>\<open>reconstructLastCommit\<close>.\<close>

definition reconstructLastCommit ::
  "('val, 'vs, 'hvs, 'blk, 'bs, 'pv) node \<Rightarrow> 'val chain_state
     \<Rightarrow> ('val, 'vs, 'hvs, 'blk, 'bs, 'pv) handler" where
  "reconstructLastCommit E state cs =
     andThen (store_LoadSeenCommit E (blockStore cs)) (\<lambda>seen.
       andThen
         (case seen of
            Some commit \<Rightarrow>
              if c_Height commit \<noteq> st_LastBlockHeight state
              then store_LoadBlockCommit E (blockStore cs) (st_LastBlockHeight state)
              else Inr (Some commit)
          | None \<Rightarrow> store_LoadBlockCommit E (blockStore cs) (st_LastBlockHeight state))
         (\<lambda>commit.
           if commit = None then Inl NoLastCommit
           else
             andThen (CommitToVoteSet E (st_ChainID state) commit (st_LastValidators state))
               (\<lambda>lastPrecommits. Inr (cs\<lparr>LastCommit := lastPrecommits\<rparr>))))"

text \<open>The zero \<open>ConsensusState\<close> that \<open>NewConsensusState\<close> starts from: the chain state is empty.\<close>

definition zero_chain_state :: "'val chain_state" where
  "zero_chain_state =
     \<lparr>st_ChainID = [], st_InitialHeight = 0, st_LastBlockHeight = 0, st_LastBlockID = 0,
      st_LastBlockTime = 0, st_Validators = None, st_LastValidators = None,
      st_LastHeightValidatorsChanged = 0, st_Epoch = 0, st_AppHash = []\<rparr>"

definition zero_consensus_state ::
  "config \<Rightarrow> 'bs \<Rightarrow> ('val, 'vs, 'hvs, 'blk, 'bs, 'pv) consensus_state" where
  "zero_consensus_state cfg store =
     \<lparr>Height = 0, Round = 0, Step = 0, StartTime = 0, CommitTime = 0, Validators = None,
      Proposal = None, ProposalBlock = None, LockedRound = 0, LockedBlock = None, ValidRound = 0,
      ValidBlock = None, Votes = None, CommitRound = 0, LastCommit = None, LastValidators = None,
      TriggeredTimeoutPrecommit = False,
      cs_config = cfg, privValidator = None, blockStore = store, chainState = zero_chain_state,
      privValidatorPubKey = None, internalMsgQueue = [], internalOverflow = [],
      peerOutMsgQueue = [], tickChan = [], replayMode = False, nSteps = 0, cs_clock = 0,
      signedVotes = [], signedProposals = []\<rparr>"

definition NewConsensusState ::
  "('val, 'vs, 'hvs, 'blk, 'bs, 'pv) node \<Rightarrow> config \<Rightarrow> 'val chain_state \<Rightarrow> 'bs
     \<Rightarrow> ('val, 'vs, 'hvs, 'blk, 'bs, 'pv) consensus_state res" where
  "NewConsensusState E cfg state store =
     (let cs = zero_consensus_state cfg store in
      andThen (if st_LastBlockHeight state > 0 then reconstructLastCommit E state cs else Inr cs)
        (updateToState E state))"

text \<open>\<open>checkDoubleSigningRisk\<close>: the loop over the last commits, which stops at the first of our own
  signatures.\<close>

fun checkDoubleSigning_loop ::
  "(u64 \<Rightarrow> commit option res) \<Rightarrow> address \<Rightarrow> u64 \<Rightarrow> nat \<Rightarrow> nat \<Rightarrow> go_error option res" where
  "checkDoubleSigning_loop load valAddr height i 0 = Inr None"
| "checkDoubleSigning_loop load valAddr height i (Suc n) =
     andThen (load (height - word_of_nat i)) (\<lambda>lastCommit.
       if (case lastCommit of
             None \<Rightarrow> False
           | Some c \<Rightarrow> \<exists>s\<in>set (c_Signatures c).
               sig_BlockIDFlag s = BlockIDFlagCommit \<and> sig_ValidatorAddress s = valAddr)
       then Inr (Some ErrSignatureFoundInPastBlocks)
       else checkDoubleSigning_loop load valAddr height (Suc i) n)"

definition checkDoubleSigningRisk ::
  "('val, 'vs, 'hvs, 'blk, 'bs, 'pv) node \<Rightarrow> u64
     \<Rightarrow> ('val, 'vs, 'hvs, 'blk, 'bs, 'pv) consensus_state \<Rightarrow> go_error option res" where
  "checkDoubleSigningRisk E height cs =
     (case privValidatorPubKey cs of
        None \<Rightarrow> Inr None
      | Some pubKey \<Rightarrow>
          if privValidator cs \<noteq> None \<and> DoubleSignCheckHeight (cs_config cs) > 0 \<and> height > 0 then
            let valAddr = pubkey_Address pubKey;
                doubleSignCheckHeight =
                  (if DoubleSignCheckHeight (cs_config cs) > height then height
                   else DoubleSignCheckHeight (cs_config cs))
            in checkDoubleSigning_loop (\<lambda>h. LoadCommit E h cs) valAddr height 1
                 (unat doubleSignCheckHeight - 1)
          else Inr None)"

text \<open>\<open>OnStart\<close>, after the ticker has been started: the error, if any, or the state with the first
  round scheduled.\<close>

definition ConsensusState_OnStart ::
  "('val, 'vs, 'hvs, 'blk, 'bs, 'pv) node \<Rightarrow> ('val, 'vs, 'hvs, 'blk, 'bs, 'pv) consensus_state
     \<Rightarrow> (go_error option \<times> ('val, 'vs, 'hvs, 'blk, 'bs, 'pv) consensus_state) res" where
  "ConsensusState_OnStart E cs =
     andThen (checkDoubleSigningRisk E (Height cs) cs) (\<lambda>err.
       case err of
         Some e \<Rightarrow> Inr (Some e, cs)
       | None \<Rightarrow> Inr (None, scheduleRound0 E (GetRoundState cs) cs))"

end
