(* ===== verification/CS_Sync.thy ===== *)
theory CS_Sync
  imports CS_Receive
begin

text \<open>
  The sync requests of the consensus state machine (\<open>consensus/consensus_state.go\<close>): the request a
  node broadcasts when its sync timer fires, and the answer to a peer's request. An answer is a list
  of the values the source puts into its \<open>[]interface{}\<close>; a \<open>VoteMessage\<close> may carry a \<open>nil\<close> vote,
  since the package decides what \<open>GetByIndex\<close> and \<open>GetVote\<close> return.
\<close>

datatype 'blk sync_response =
    RespBlock "'blk option"
  | RespProposal "'blk proposal"
  | RespVote "vote option"

section \<open>The request\<close>

definition createSyncRequest ::
  "('val, 'vs, 'hvs, 'blk, 'bs, 'pv) node \<Rightarrow> ('val, 'vs, 'hvs, 'blk, 'bs, 'pv) consensus_state
     \<Rightarrow> sync_request res" where
  "createSyncRequest E cs =
     (let round =
            (case Proposal cs of
               Some proposal \<Rightarrow>
                 if p_POLRound proposal \<noteq> -1 \<and> \<not> isProposalComplete E cs then LockedRound cs
                 else Round cs
             | None \<Rightarrow> Round cs);
          hasProposal = (if Proposal cs \<noteq> None then 1 else 0)
      in
      andThen (deref (ba_Copy E (vs_BitArray E (hvs_Prevotes E (Votes cs) round)))) (\<lambda>prevotes.
        andThen (deref (ba_Copy E (vs_BitArray E (hvs_Precommits E (Votes cs) round)))) (\<lambda>precommits.
          Inr \<lparr>sr_Height = Height cs, sr_Round = to_u32 round, sr_HasProposal = hasProposal,
               sr_PrevotesBitmap = ba_Elems prevotes, sr_PrecommitsBitmap = ba_Elems precommits\<rparr>)))"

section \<open>The answer\<close>

text \<open>The loop of \<open>appendDiffVotes\<close> over the indices \<open>i\<close> of the bit array: \<open>n\<close> iterations are left.\<close>

fun appendDiffVotes_loop ::
  "('val, 'vs, 'hvs, 'blk, 'e) ext_scheme \<Rightarrow> 'vs option \<Rightarrow> bitarray \<Rightarrow> int \<Rightarrow> nat
     \<Rightarrow> 'blk sync_response list \<Rightarrow> 'blk sync_response list" where
  "appendDiffVotes_loop E vs votesBA i 0 msgs = msgs"
| "appendDiffVotes_loop E vs votesBA i (Suc n) msgs =
     (if ba_GetIndex E (Some votesBA) i then appendDiffVotes_loop E vs votesBA (i + 1) n msgs
      else if \<not> ba_GetIndex E (vs_BitArray E vs) i
      then appendDiffVotes_loop E vs votesBA (i + 1) n msgs
      else appendDiffVotes_loop E vs votesBA (i + 1) n (msgs @ [RespVote (vs_GetByIndex E vs (i32 i))]))"

definition appendDiffVotes ::
  "('val, 'vs, 'hvs, 'blk, 'e) ext_scheme \<Rightarrow> 'vs option \<Rightarrow> u64 list \<Rightarrow> 'blk sync_response list
     \<Rightarrow> 'blk sync_response list" where
  "appendDiffVotes E vs bm msgs =
     (if length bm \<noteq> 0 then
        (case NewBitArrayFromUint64 E (vs_Size E vs) bm of
           Inl err \<Rightarrow> msgs
         | Inr votesBA \<Rightarrow>
             appendDiffVotes_loop E vs votesBA 0 (nat (ba_Size E (Some votesBA))) msgs)
      else msgs)"

text \<open>The loop over the precommits of a stored commit.\<close>

fun commitVotes_loop ::
  "('val, 'vs, 'hvs, 'blk, 'e) ext_scheme \<Rightarrow> commit option \<Rightarrow> int \<Rightarrow> nat \<Rightarrow> 'blk sync_response list
     \<Rightarrow> 'blk sync_response list" where
  "commitVotes_loop E commit i 0 msgs = msgs"
| "commitVotes_loop E commit i (Suc n) msgs =
     (if ba_GetIndex E (commit_BitArray E commit) i
      then commitVotes_loop E commit (i + 1) n (msgs @ [RespVote (commit_GetVote E commit (i32 i))])
      else commitVotes_loop E commit (i + 1) n msgs)"

definition processSyncRequest ::
  "('val, 'vs, 'hvs, 'blk, 'bs, 'pv) node \<Rightarrow> sync_request
     \<Rightarrow> ('val, 'vs, 'hvs, 'blk, 'bs, 'pv) consensus_state \<Rightarrow> 'blk sync_response list res" where
  "processSyncRequest E csq cs =
     (if sr_Height csq < st_InitialHeight (chainState cs) then Inr []
      else if sr_Height csq < Height cs then
        if sr_HasProposal csq = 0 then
          andThen (store_LoadBlock E (blockStore cs) (sr_Height csq)) (\<lambda>fb.
            andThen (store_LoadBlockCommit E (blockStore cs) (sr_Height csq)) (\<lambda>commit.
              andThen (blk_WithCommit E commit fb) (\<lambda>fb. Inr [RespBlock fb])))
        else
          andThen (store_LoadBlockCommit E (blockStore cs) (sr_Height csq)) (\<lambda>commit.
            Inr (commitVotes_loop E commit 0 (nat (commit_Size E commit)) []))
      else if sr_Height csq > Height cs \<or> sr_Round csq > to_u32 (Round cs) then Inr []
      else
        let msgs = (case Proposal cs of
              Some proposal \<Rightarrow> if sr_HasProposal csq = 0 then [RespProposal proposal] else []
            | None \<Rightarrow> []);
            round = i32_of_u32 (sr_Round csq);
            msgs = appendDiffVotes E (hvs_Prevotes E (Votes cs) round) (sr_PrevotesBitmap csq) msgs
        in Inr (appendDiffVotes E (hvs_Precommits E (Votes cs) round) (sr_PrecommitsBitmap csq) msgs))"

section \<open>What the loops compute\<close>

lemma upto_nat_Suc: "[i..i + int (Suc n) - 1] = i # [i + 1..(i + 1) + int n - 1]"
  by (simp add: upto_rec1)

lemma appendDiffVotes_loop_eq:
  "appendDiffVotes_loop E vs ba i n msgs =
     msgs @ map (\<lambda>i. RespVote (vs_GetByIndex E vs (i32 i)))
       (filter (\<lambda>i. \<not> ba_GetIndex E (Some ba) i \<and> ba_GetIndex E (vs_BitArray E vs) i)
         [i..i + int n - 1])"
  by (induction n arbitrary: i msgs) (simp_all add: upto_nat_Suc del: of_nat_Suc)

lemma commitVotes_loop_eq:
  "commitVotes_loop E commit i n msgs =
     msgs @ map (\<lambda>i. RespVote (commit_GetVote E commit (i32 i)))
       (filter (\<lambda>i. ba_GetIndex E (commit_BitArray E commit) i) [i..i + int n - 1])"
  by (induction n arbitrary: i msgs) (simp_all add: upto_nat_Suc del: of_nat_Suc)

end
