(* ===== verification/CS_Run.thy ===== *)
theory CS_Run
  imports CS_Sync
begin

text \<open>
  The receive routine (\<open>receiveRoutine\<close> of \<open>consensus/consensus_state.go\<close>) together with the timeout
  ticker it talks to. A \<open>system\<close> is the consensus state, the ticker and the answers given to sync
  requests. Each case of the \<open>select\<close> is an event, and so is every step of the goroutines beside
  it: the ticker takes a tick, its timer fires, a goroutine that waits to send an internal message
  finds room. The scheduler and the peers choose the events: \<open>receiveRoutine\<close> runs a list of them,
  \<open>system_step\<close> is the step relation and \<open>reachable\<close> the states it leads to.

  \<open>tickChan\<close> has a buffer of 10 and \<open>ScheduleTimeout\<close> waits when it is full; the ticker always takes
  ticks, so the channel is an unbounded queue here. Goroutines that relay a fired timeout may
  overtake each other, so any timeout in \<open>tockChan\<close> may be received next.
\<close>

section \<open>Events\<close>

record ('val, 'vs, 'hvs, 'blk, 'bs, 'pv) system =
  sys_cs :: "('val, 'vs, 'hvs, 'blk, 'bs, 'pv) consensus_state"
  sys_ticker :: timeout_ticker
  sys_responses :: "'blk sync_response list list"

datatype 'blk event =
    PeerMsg "'blk msg_info"
  | InternalMsg
  | OverflowSend nat
  | TickerTick
  | TickerFire
  | Tock nat
  | SyncTimer
  | SyncRequest sync_request
  | CommittedBlock 'blk

text \<open>The \<open>k\<close>-th element of a list and the rest.\<close>

definition take_nth :: "nat \<Rightarrow> 'a list \<Rightarrow> ('a \<times> 'a list) option" where
  "take_nth k xs = (if k < length xs then Some (xs ! k, take k xs @ drop (Suc k) xs) else None)"

lemma take_nth_set: "take_nth k xs = Some (x, ys) \<Longrightarrow> x \<in> set xs \<and> set ys \<subseteq> set xs"
  by (auto simp: take_nth_def split: if_splits dest: in_set_takeD in_set_dropD)

text \<open>One event. An event whose channel has nothing to receive (or no room) does not happen, which
  leaves the system as it is.\<close>

fun receive_event ::
  "('val, 'vs, 'hvs, 'blk, 'bs, 'pv) node \<Rightarrow> 'blk event
     \<Rightarrow> ('val, 'vs, 'hvs, 'blk, 'bs, 'pv) system \<Rightarrow> ('val, 'vs, 'hvs, 'blk, 'bs, 'pv) system res" where
  "receive_event E (PeerMsg mi) s =
     andThen (handleMsg E mi (sys_cs s)) (\<lambda>cs. Inr (s\<lparr>sys_cs := cs\<rparr>))"
| "receive_event E InternalMsg s =
     (case internalMsgQueue (sys_cs s) of
        [] \<Rightarrow> Inr s
      | mi # mis \<Rightarrow>
          andThen (handleMsg E mi ((sys_cs s)\<lparr>internalMsgQueue := mis\<rparr>))
            (\<lambda>cs. Inr (s\<lparr>sys_cs := cs\<rparr>)))"
| "receive_event E (OverflowSend k) s =
     (case take_nth k (internalOverflow (sys_cs s)) of
        Some (mi, mis) \<Rightarrow>
          if length (internalMsgQueue (sys_cs s)) < msgQueueSize
          then Inr (s\<lparr>sys_cs := (sys_cs s)\<lparr>internalOverflow := mis,
                 internalMsgQueue := internalMsgQueue (sys_cs s) @ [mi]\<rparr>\<rparr>)
          else Inr s
      | None \<Rightarrow> Inr s)"
| "receive_event E TickerTick s =
     (case tickChan (sys_cs s) of
        [] \<Rightarrow> Inr s
      | ti # tis \<Rightarrow>
          Inr (s\<lparr>sys_cs := (sys_cs s)\<lparr>tickChan := tis\<rparr>,
                 sys_ticker := ticker_tick ti (sys_ticker s)\<rparr>))"
| "receive_event E TickerFire s = Inr (s\<lparr>sys_ticker := ticker_fire (sys_ticker s)\<rparr>)"
| "receive_event E (Tock k) s =
     (case take_nth k (tt_tockChan (sys_ticker s)) of
        Some (ti, tis) \<Rightarrow>
          andThen (handleTimeout E ti (GetRoundState (sys_cs s)) (sys_cs s)) (\<lambda>cs.
            Inr (s\<lparr>sys_cs := cs, sys_ticker := (sys_ticker s)\<lparr>tt_tockChan := tis\<rparr>\<rparr>))
      | None \<Rightarrow> Inr s)"
| "receive_event E SyncTimer s =
     andThen (createSyncRequest E (sys_cs s)) (\<lambda>msg.
       Inr (s\<lparr>sys_cs := broadcastMessageToPeers (SyncRequestMessage msg) (sys_cs s)\<rparr>))"
| "receive_event E (SyncRequest req) s =
     andThen (processSyncRequest E req (sys_cs s)) (\<lambda>msgs.
       Inr (s\<lparr>sys_responses := sys_responses s @ [msgs]\<rparr>))"
| "receive_event E (CommittedBlock block) s =
     andThen (processCommitedBlock E block (sys_cs s)) (\<lambda>cs. Inr (s\<lparr>sys_cs := cs\<rparr>))"

text \<open>\<open>ProcessSyncRequest\<close>, which the stream handler of the server calls: it hands the request to the
  receive routine and waits for the answer. It returns no error.\<close>

definition ProcessSyncRequest ::
  "('val, 'vs, 'hvs, 'blk, 'bs, 'pv) node \<Rightarrow> sync_request
     \<Rightarrow> ('val, 'vs, 'hvs, 'blk, 'bs, 'pv) system
     \<Rightarrow> (('blk sync_response list \<times> go_error option) \<times> ('val, 'vs, 'hvs, 'blk, 'bs, 'pv) system) res" where
  "ProcessSyncRequest E csq s =
     andThen (receive_event E (SyncRequest csq) s) (\<lambda>t. Inr ((last (sys_responses t), None), t))"

text \<open>The caller gets what \<open>processSyncRequest\<close> makes of the state at that moment, and the state stays
  as it is.\<close>

lemma ProcessSyncRequest_answers:
  "ProcessSyncRequest E csq s = Inr ((msgs, err), t) \<longleftrightarrow>
     processSyncRequest E csq (sys_cs s) = Inr msgs \<and> err = None
     \<and> t = s\<lparr>sys_responses := sys_responses s @ [msgs]\<rparr>"
  by (auto simp: ProcessSyncRequest_def andThen_eq_Inr)

section \<open>Runs\<close>

text \<open>\<open>receiveRoutine\<close> on the events of a run, in order: with \<open>maxSteps > 0\<close> it returns once \<open>nSteps\<close>
  has reached \<open>maxSteps\<close>.\<close>

fun receiveRoutine ::
  "('val, 'vs, 'hvs, 'blk, 'bs, 'pv) node \<Rightarrow> nat \<Rightarrow> 'blk event list
     \<Rightarrow> ('val, 'vs, 'hvs, 'blk, 'bs, 'pv) system \<Rightarrow> ('val, 'vs, 'hvs, 'blk, 'bs, 'pv) system res" where
  "receiveRoutine E maxSteps [] s = Inr s"
| "receiveRoutine E maxSteps (ev # evs) s =
     (if maxSteps > 0 \<and> nSteps (sys_cs s) \<ge> maxSteps
      then Inr (s\<lparr>sys_cs := (sys_cs s)\<lparr>nSteps := 0\<rparr>\<rparr>)
      else andThen (receive_event E ev s) (receiveRoutine E maxSteps evs))"

text \<open>The step relation. Its premise says that the height is not the last \<open>uint64\<close>: a height counter
  that wraps around is outside the model.\<close>

inductive system_step ::
  "('val, 'vs, 'hvs, 'blk, 'bs, 'pv) node \<Rightarrow> ('val, 'vs, 'hvs, 'blk, 'bs, 'pv) system
     \<Rightarrow> ('val, 'vs, 'hvs, 'blk, 'bs, 'pv) system \<Rightarrow> bool"
  for E :: "('val, 'vs, 'hvs, 'blk, 'bs, 'pv) node" where
  system_event: "Height (sys_cs s) + 1 \<noteq> 0 \<Longrightarrow> receive_event E ev s = Inr t \<Longrightarrow> system_step E s t"

inductive_cases system_stepE: "system_step E s t"

text \<open>The start of a node: \<open>NewConsensusState\<close>, \<open>SetPrivValidator\<close> and \<open>OnStart\<close>, as \<open>runNode\<close> calls
  them, with a fresh ticker.\<close>

definition start_node ::
  "('val, 'vs, 'hvs, 'blk, 'bs, 'pv) node \<Rightarrow> config \<Rightarrow> 'val chain_state \<Rightarrow> 'bs \<Rightarrow> 'pv option
     \<Rightarrow> (go_error option \<times> ('val, 'vs, 'hvs, 'blk, 'bs, 'pv) system) res" where
  "start_node E cfg state store pv =
     andThen (NewConsensusState E cfg state store) (\<lambda>cs.
       andThen (ConsensusState_OnStart E (SetPrivValidator E pv cs)) (\<lambda>(err, cs).
         Inr (err, \<lparr>sys_cs = cs, sys_ticker = NewTimeoutTicker, sys_responses = []\<rparr>)))"

text \<open>\<open>OnStop\<close>: it stops the ticker, if that is running. What it does before has no effect on the
  system: it waits for a commit in progress, for at most the commit timeout, and closes \<open>onStopCh\<close>,
  which nothing else uses.\<close>

definition ConsensusState_OnStop ::
  "bool \<Rightarrow> ('val, 'vs, 'hvs, 'blk, 'bs, 'pv) system \<Rightarrow> ('val, 'vs, 'hvs, 'blk, 'bs, 'pv) system" where
  "ConsensusState_OnStop running s =
     (if running then s\<lparr>sys_ticker := ticker_stopTimer (sys_ticker s)\<rparr> else s)"

inductive reachable ::
  "('val, 'vs, 'hvs, 'blk, 'bs, 'pv) node \<Rightarrow> config \<Rightarrow> 'val chain_state \<Rightarrow> 'bs \<Rightarrow> 'pv option
     \<Rightarrow> ('val, 'vs, 'hvs, 'blk, 'bs, 'pv) system \<Rightarrow> bool"
  for E :: "('val, 'vs, 'hvs, 'blk, 'bs, 'pv) node" and cfg :: config
    and state :: "'val chain_state" and store :: 'bs and pv :: "'pv option" where
  reachable_start: "start_node E cfg state store pv = Inr (None, s) \<Longrightarrow> reachable E cfg state store pv s"
| reachable_step: "reachable E cfg state store pv s \<Longrightarrow> system_step E s t
     \<Longrightarrow> reachable E cfg state store pv t"

end
