(* ===== verification/CS_Cases.thy ===== *)
theory CS_Cases
  imports CS_Run
begin

text \<open>
  What a handler of the consensus state machine does when it returns, as the sequence of transitions
  it went through. An invariant of the state machine is proved for a handler by following these cases;
  the invariants are in \<open>CS_Safety\<close>, \<open>CS_Locks\<close>, \<open>CS_Timeouts\<close> and \<open>CS_Types\<close>.
\<close>

section \<open>Committing\<close>

lemma finalizeCommit_cases:
  assumes "finalizeCommit N height cs = Inr t"
  shows "t = cs \<or> (\<exists>h block u. Height cs = height \<and> Step cs = RoundStepCommit
    \<and> vs_TwoThirdsMajority N (hvs_Precommits N (Votes cs) (CommitRound cs)) = (h, True)
    \<and> blk_HashTo N (ProposalBlock cs) h \<and> ProposalBlock cs = Some block
    \<and> be_ValidateBlock N (chainState cs) block = Inr None
    \<and> saveBlock N block (vs_MakeCommit N (hvs_Precommits N (Votes cs) (CommitRound cs))) cs = Inr u
    \<and> applyBlock N block (\<lambda>cs. Inr (scheduleRound0 N (GetRoundState cs) cs)) u = Inr t)"
proof (cases "Height cs \<noteq> height \<or> Step cs \<noteq> RoundStepCommit")
  case True
  then show ?thesis using assms by (auto simp: finalizeCommit_def)
next
  case False
  then show ?thesis
    using assms
    by (auto simp: finalizeCommit_def andThen_eq_Inr Let_def deref_eq_Inr
        split: prod.splits if_splits option.splits)
qed

lemma enterCommit_cases:
  assumes "enterCommit N height commitRound cs = Inr t"
  shows "t = cs \<or> (\<exists>u now w. Height cs = height \<and> Step cs < RoundStepCommit
    \<and> enterCommit_body N commitRound cs = Inr u
    \<and> CanonicalNow N ((updateRoundStep (Round u) RoundStepCommit u)\<lparr>CommitRound := commitRound\<rparr>) = (now, w)
    \<and> tryFinalizeCommit N height (newStep (w\<lparr>CommitTime := now\<rparr>)) = Inr t)"
proof (cases "Height cs \<noteq> height \<or> RoundStepCommit \<le> Step cs")
  case True
  then show ?thesis using assms by (auto simp: enterCommit_def)
next
  case False
  then obtain u where u: "enterCommit_body N commitRound cs = Inr u"
    using assms by (auto simp: enterCommit_def andThen_eq_Inr)
  obtain now w where w: "CanonicalNow N ((updateRoundStep (Round u) RoundStepCommit u)
      \<lparr>CommitRound := commitRound\<rparr>) = (now, w)" by fastforce
  then have "tryFinalizeCommit N height (newStep (w\<lparr>CommitTime := now\<rparr>)) = Inr t"
    using assms False u by (simp add: enterCommit_def)
  with u w False show ?thesis by (auto simp: not_le)
qed

text \<open>The state \<open>processCommitedBlock\<close> saves and applies the block in, and what follows.\<close>

abbreviation fast_path_state where
  "fast_path_state N lastCommit cs \<equiv>
     (let (now, cs) = CanonicalNow N
        ((updateRoundStep (Round cs) RoundStepCommit cs)\<lparr>CommitRound := -1, LastCommit := lastCommit\<rparr>)
      in cs\<lparr>CommitTime := now\<rparr>)"

abbreviation fast_path_after where
  "fast_path_after N \<equiv> (\<lambda>cs. if SkipTimeoutCommit (cs_config cs) \<and> vs_HasAll N (LastCommit cs)
     then enterNewRound N (Height cs) 0 cs else Inr (scheduleRound0 N (GetRoundState cs) cs))"

lemma processCommitedBlock_cases:
  assumes "processCommitedBlock N block cs = Inr t"
  shows "t = cs \<or> (\<exists>lc u. blk_NumberU64 N block = Height cs \<and> be_ValidateBlock N (chainState cs) block = Inr None
    \<and> vals_VerifyCommit N (st_Validators (chainState cs)) (st_ChainID (chainState cs))
        (blk_Hash N block) (blk_NumberU64 N block) (blk_HeaderCommit N block) = None
    \<and> saveBlock N block (Inr (blk_Commit N block)) (fast_path_state N lc cs) = Inr u
    \<and> applyBlock N block (fast_path_after N) u = Inr t)"
proof -
  define after where "after = fast_path_after N"
  show ?thesis
    using assms unfolding processCommitedBlock_def after_def [symmetric]
    by (auto simp: andThen_eq_Inr Let_def case_prod_beta split: if_splits option.splits)
qed

section \<open>Proposals\<close>

lemma setProposal_step_cases:
  assumes "setProposal_step N b cs = Inr t"
  shows "t = cs \<or> tryFinalizeCommit N (Height cs) cs = Inr t
    \<or> (\<exists>u. enterPrevote N (Height cs) (Round cs) cs = Inr u
        \<and> (t = u \<or> enterPrecommit N (Height u) (Round u) u = Inr t))"
  using assms unfolding setProposal_step_def by (simp add: andThen_eq_Inr split: if_split_asm) blast+

lemma defaultSetProposal_cases:
  assumes "defaultSetProposal N proposal cs = Inr (r, t)"
  shows "t = cs \<or> (\<exists>b h. setProposal_step N b (setProposal_valid N h b
      (cs\<lparr>Proposal := Some proposal, ProposalBlock := p_Block proposal\<rparr>)) = Inr t)"
  using assms by (auto simp: defaultSetProposal_def andThen_eq_Inr Let_def split: if_splits prod.splits)

section \<open>Votes\<close>

lemma addVote_prevote_cases:
  assumes "addVote_prevote N height vote cs = Inr t"
    and maj: "vs_TwoThirdsMajority N (hvs_Prevotes N (Votes cs) (v_Round vote)) = (h, ok)"
    and u: "u = (if ok then addVote_polka N vote h cs else cs)"
  shows "t = u \<or> enterNewRound N height (v_Round vote) u = Inr t
    \<or> (Round u = v_Round vote \<and> enterPrecommit N height (v_Round vote) u = Inr t)
    \<or> (Round u = v_Round vote \<and> enterPrevoteWait N height (v_Round vote) u = Inr t)
    \<or> enterPrevote N height (Round u) u = Inr t"
  using assms(1) unfolding addVote_prevote_def Let_def maj prod.case u [symmetric]
  by (simp split: if_split_asm option.split_asm)

lemma addVote_precommit_cases:
  assumes "addVote_precommit N height vote cs = Inr t"
  obtains (none) "t = cs"
    | (commit) u w x where "enterNewRound N height (v_Round vote) cs = Inr u"
        "enterPrecommit N height (v_Round vote) u = Inr w" "enterCommit N height (v_Round vote) w = Inr x"
        "t = x \<or> enterNewRound N (Height x) 0 x = Inr t"
    | (nil) u w where "enterNewRound N height (v_Round vote) cs = Inr u"
        "enterPrecommit N height (v_Round vote) u = Inr w" "enterPrecommitWait N height (v_Round vote) w = Inr t"
    | (wait) u where "enterNewRound N height (v_Round vote) cs = Inr u"
        "enterPrecommitWait N height (v_Round vote) u = Inr t"
proof -
  let ?r = "v_Round vote"
  have "t = cs \<or> (\<exists>u w. enterNewRound N height ?r cs = Inr u \<and> enterPrecommit N height ?r u = Inr w
        \<and> ((\<exists>x. enterCommit N height ?r w = Inr x \<and> (t = x \<or> enterNewRound N (Height x) 0 x = Inr t))
         \<or> enterPrecommitWait N height ?r w = Inr t))
    \<or> (\<exists>u. enterNewRound N height ?r cs = Inr u \<and> enterPrecommitWait N height ?r u = Inr t)"
    using assms unfolding addVote_precommit_def Let_def case_prod_beta
    by (simp add: andThen_eq_Inr split: if_split_asm) blast+
  then show ?thesis using that by blast
qed

lemma addVote_late_cases:
  assumes "addVote_late N vote cs = Inr (r, t)"
  shows "t = cs \<or> (\<exists>l. t = cs\<lparr>LastCommit := l\<rparr> \<or> enterNewRound N (Height cs) 0 (cs\<lparr>LastCommit := l\<rparr>) = Inr t)"
  using assms by (auto simp: addVote_late_def andThen_eq_Inr Let_def split: if_splits prod.splits)

lemma addVote_cases:
  assumes "addVote N vote peer cs = Inr (r, t)"
  obtains (same) "t = cs" | (late) "addVote_late N vote cs = Inr (r, t)"
    | (added) x vs where "v_Height vote = Height cs" "hvs_AddVote N vote peer (Votes cs) = Inr (x, vs)"
        "t = cs\<lparr>Votes := vs\<rparr> \<or> addVote_prevote N (Height cs) vote (cs\<lparr>Votes := vs\<rparr>) = Inr t
        \<or> addVote_precommit N (Height cs) vote (cs\<lparr>Votes := vs\<rparr>) = Inr t"
proof -
  have "t = cs \<or> addVote_late N vote cs = Inr (r, t) \<or> (\<exists>x vs. v_Height vote = Height cs
      \<and> hvs_AddVote N vote peer (Votes cs) = Inr (x, vs) \<and> (t = cs\<lparr>Votes := vs\<rparr>
      \<or> addVote_prevote N (Height cs) vote (cs\<lparr>Votes := vs\<rparr>) = Inr t
      \<or> addVote_precommit N (Height cs) vote (cs\<lparr>Votes := vs\<rparr>) = Inr t))"
    using assms
    by (auto simp: addVote_def andThen_eq_Inr Let_def split: if_splits prod.splits SignedMsgType.splits)
  then show ?thesis using that by blast
qed

section \<open>Messages and timeouts\<close>

lemma handleMsg_cases:
  assumes "handleMsg N mi cs = Inr t"
  obtains (same) "t = cs"
    | (proposal) p r u where "mi_Msg mi = ProposalMessage p" "defaultSetProposal N p cs = Inr (r, u)"
        "t = u \<or> t = broadcastMessageToPeers (mi_Msg mi) u"
    | (vote) v r u where "mi_Msg mi = VoteMessage v" "addVote N v (mi_PeerID mi) cs = Inr (r, u)"
        "t = u \<or> t = broadcastMessageToPeers (mi_Msg mi) u"
  using assms
  by (cases "mi_Msg mi") (auto simp: handleMsg_def tryAddVote_def andThen_eq_Inr split: prod.splits if_splits)

text \<open>A timeout of a step the state machine asks for, at or after the current position.\<close>

lemma handleTimeout_cases:
  assumes "handleTimeout N ti (GetRoundState cs) cs = Inr t"
    and "ti_Step ti \<in> {RoundStepNewHeight, RoundStepPropose, RoundStepPrevoteWait, RoundStepPrecommitWait}"
  obtains (late) "ti_Height ti \<noteq> Height cs \<or> ti_Round ti < Round cs
        \<or> (ti_Round ti = Round cs \<and> ti_Step ti < Step cs)" "t = cs"
    | (newHeight) "ti_Height ti = Height cs" "ti_Step ti = RoundStepNewHeight"
        "enterNewRound N (ti_Height ti) 0 cs = Inr t"
    | (propose) "ti_Height ti = Height cs" "ti_Step ti = RoundStepPropose"
        "enterPrevote N (ti_Height ti) (ti_Round ti) cs = Inr t"
    | (prevoteWait) "ti_Height ti = Height cs" "ti_Step ti = RoundStepPrevoteWait"
        "enterPrecommit N (ti_Height ti) (ti_Round ti) cs = Inr t"
    | (precommitWait) u where "ti_Height ti = Height cs" "ti_Step ti = RoundStepPrecommitWait"
        "enterPrecommit N (ti_Height ti) (ti_Round ti) cs = Inr u"
        "enterNewRound N (ti_Height ti) (i32 (ti_Round ti + 1)) u = Inr t"
proof (cases "ti_Height ti \<noteq> Height cs \<or> ti_Round ti < Round cs
     \<or> (ti_Round ti = Round cs \<and> ti_Step ti < Step cs)")
  case True
  then show ?thesis
    using assms(1) by (intro late) (auto simp: handleTimeout_def GetRoundState_def round_state.defs)
next
  case False
  then show ?thesis
    using assms that(2-)
    by (auto simp: handleTimeout_def GetRoundState_def round_state.defs andThen_eq_Inr)
qed

end
