(* ===== verification/CS_Invariant.thy ===== *)
theory CS_Invariant
  imports CS_Cases
begin

text \<open>
  The invariant of the consensus state machine behind its safety: height, round and step only move
  forward, every vote and proposal signed belongs to a position the node has reached, and every
  timeout asked for is for a height and round not after the current ones. The locale
  \<open>consensus_node\<close> states what the state machine needs of the block executor and of the signer, as
  the laws of the locales \<open>block_executor\<close> and \<open>priv_validator\<close>; it is interpreted on
  \<open>default_node\<close>.
\<close>

section \<open>Positions\<close>

definition pos :: "('val, 'vs, 'hvs, 'blk, 'e) round_state_scheme \<Rightarrow> u64 \<times> int \<times> round_step" where
  "pos cs = (Height cs, Round cs, Step cs)"

text \<open>The step at which a vote of a type is cast.\<close>

fun vote_step :: "SignedMsgType \<Rightarrow> round_step" where
  "vote_step PrevoteType = RoundStepPrevote"
| "vote_step PrecommitType = RoundStepPrecommit"
| "vote_step _ = 9"

definition vote_key :: "vote \<Rightarrow> u64 \<times> int \<times> SignedMsgType" where
  "vote_key v = (v_Height v, v_Round v, v_Type v)"

definition vote_pos :: "vote \<Rightarrow> u64 \<times> int \<times> round_step" where
  "vote_pos v = (v_Height v, v_Round v, vote_step (v_Type v))"

definition proposal_key :: "'blk proposal \<Rightarrow> u64 \<times> int" where
  "proposal_key p = (p_Height p, p_Round p)"

definition proposal_pos :: "'blk proposal \<Rightarrow> u64 \<times> int \<times> round_step" where
  "proposal_pos p = (p_Height p, p_Round p, RoundStepPropose)"

text \<open>A timeout that the state machine asks for: a step it handles, not after the current round.\<close>

definition tick_ok :: "u64 \<times> int \<times> round_step \<Rightarrow> timeout_info \<Rightarrow> bool" where
  "tick_ok q ti \<longleftrightarrow>
     ti_Step ti \<in> {RoundStepNewHeight, RoundStepPropose, RoundStepPrevoteWait, RoundStepPrecommitWait}
     \<and> (ti_Height ti < fst q \<or> (ti_Height ti = fst q \<and> ti_Round ti \<le> fst (snd q)))"

lemma tick_ok_mono: "tick_ok q ti \<Longrightarrow> q \<le> q' \<Longrightarrow> tick_ok q' ti"
  by (auto simp: tick_ok_def less_eq_prod_def less_prod_def)

definition step_ok :: "('val, 'vs, 'hvs, 'blk, 'bs, 'pv) consensus_state \<Rightarrow> bool" where
  "step_ok cs \<longleftrightarrow> 1 \<le> Step cs \<and> Step cs \<le> 8 \<and> 0 \<le> Round cs"

definition votes_ok :: "('val, 'vs, 'hvs, 'blk, 'bs, 'pv) consensus_state \<Rightarrow> bool" where
  "votes_ok cs \<longleftrightarrow> distinct (map vote_key (signedVotes cs))
     \<and> (\<forall>v\<in>set (signedVotes cs). vote_pos v \<le> pos cs)"

definition proposals_ok :: "('val, 'vs, 'hvs, 'blk, 'bs, 'pv) consensus_state \<Rightarrow> bool" where
  "proposals_ok cs \<longleftrightarrow> distinct (map proposal_key (signedProposals cs))
     \<and> (\<forall>p\<in>set (signedProposals cs). proposal_pos p \<le> pos cs)"

definition ticks_ok :: "('val, 'vs, 'hvs, 'blk, 'bs, 'pv) consensus_state \<Rightarrow> bool" where
  "ticks_ok cs \<longleftrightarrow> (\<forall>ti\<in>set (tickChan cs). tick_ok (pos cs) ti)"

definition chain_ok :: "('val, 'vs, 'hvs, 'blk, 'bs, 'pv) consensus_state \<Rightarrow> bool" where
  "chain_ok cs \<longleftrightarrow> Height cs = next_height (chainState cs) \<and> Height cs \<noteq> 0
     \<and> st_InitialHeight (chainState cs) \<noteq> 0"

definition cs_inv :: "('val, 'vs, 'hvs, 'blk, 'bs, 'pv) consensus_state \<Rightarrow> bool" where
  "cs_inv cs \<longleftrightarrow> step_ok cs \<and> votes_ok cs \<and> proposals_ok cs \<and> ticks_ok cs \<and> chain_ok cs"

lemmas inv_defs = cs_inv_def step_ok_def votes_ok_def proposals_ok_def ticks_ok_def chain_ok_def pos_def

text \<open>Moving forward within a height keeps the invariant; the last arguments are the fields it reads.\<close>

lemma cs_inv_forward:
  assumes inv: "cs_inv cs" and fwd: "pos cs \<le> pos t"
    and "Height t = Height cs" "chainState t = chainState cs" "step_ok t"
    and "signedVotes t = signedVotes cs" "signedProposals t = signedProposals cs"
    and ticks: "\<forall>ti\<in>set (tickChan t). ti \<in> set (tickChan cs) \<or> tick_ok (pos t) ti"
  shows "cs_inv t"
proof -
  have "votes_ok t" using inv assms(6) fwd by (auto simp: cs_inv_def votes_ok_def intro: order_trans)
  moreover have "proposals_ok t"
    using inv assms(7) fwd by (auto simp: cs_inv_def proposals_ok_def intro: order_trans)
  moreover have "ticks_ok t"
    using inv ticks fwd by (auto simp: cs_inv_def ticks_ok_def intro: tick_ok_mono)
  moreover have "chain_ok t" using inv assms(3,4) by (auto simp: cs_inv_def chain_ok_def)
  ultimately show ?thesis using assms(5) by (simp add: cs_inv_def)
qed

text \<open>One chain state follows another when a block valid on the first was applied to a copy of it.\<close>

inductive chain_link ::
  "('val, 'vs, 'hvs, 'blk, 'bs, 'pv) node \<Rightarrow> 'val chain_state \<Rightarrow> 'val chain_state \<Rightarrow> bool"
  for E :: "('val, 'vs, 'hvs, 'blk, 'bs, 'pv) node" where
  chain_link: "be_ValidateBlock E st block = Inr None
     \<Longrightarrow> be_ApplyBlock E (ChainState_Copy E st) block = Inr (Inr st') \<Longrightarrow> chain_link E st st'"

inductive_cases chain_linkE: "chain_link E st st'"

text \<open>The outcome of an operation that stays at its height, and of one that may commit.\<close>

definition stays ::
  "('val, 'vs, 'hvs, 'blk, 'bs, 'pv) consensus_state
     \<Rightarrow> ('val, 'vs, 'hvs, 'blk, 'bs, 'pv) consensus_state \<Rightarrow> bool" where
  "stays cs t \<longleftrightarrow> cs_inv t \<and> pos cs \<le> pos t \<and> Height t = Height cs
     \<and> chainState t = chainState cs"

definition advances ::
  "('val, 'vs, 'hvs, 'blk, 'bs, 'pv) node \<Rightarrow> ('val, 'vs, 'hvs, 'blk, 'bs, 'pv) consensus_state
     \<Rightarrow> ('val, 'vs, 'hvs, 'blk, 'bs, 'pv) consensus_state \<Rightarrow> bool" where
  "advances E cs t \<longleftrightarrow> cs_inv t \<and> pos cs \<le> pos t
     \<and> (chain_link E)\<^sup>*\<^sup>* (chainState cs) (chainState t)"

lemma stays_refl: "cs_inv cs \<Longrightarrow> stays cs cs"
  by (simp add: stays_def)

lemma stays_trans: "stays a b \<Longrightarrow> stays b c \<Longrightarrow> stays a c"
  by (auto simp: stays_def)

lemma stays_advances: "stays a b \<Longrightarrow> advances E a b"
  by (simp add: stays_def advances_def)

lemma advances_trans: "advances E a b \<Longrightarrow> advances E b c \<Longrightarrow> advances E a c"
  by (auto simp: advances_def)

lemma stays_inv: "stays a b \<Longrightarrow> cs_inv b"
  by (simp add: stays_def)

lemma pos_forward:
  "Height t = Height cs \<Longrightarrow>
     Round cs < Round t \<or> (Round cs = Round t \<and> Step cs \<le> Step t) \<Longrightarrow> pos cs \<le> pos t"
  by (auto simp: pos_def less_eq_prod_def less_prod_def)

lemma stays_forward:
  assumes "cs_inv cs" and "Height t = Height cs"
    and "Round cs < Round t \<or> (Round cs = Round t \<and> Step cs \<le> Step t)" "step_ok t"
    and "chainState t = chainState cs" "signedVotes t = signedVotes cs"
    and "signedProposals t = signedProposals cs"
    and "\<forall>ti\<in>set (tickChan t). ti \<in> set (tickChan cs) \<or> tick_ok (pos t) ti"
  shows "stays cs t"
  using assms pos_forward [of t cs] cs_inv_forward [of cs t] by (simp add: stays_def)

section \<open>Fields that the helpers leave alone\<close>

text \<open>The fields the invariant reads.\<close>

definition core ::
  "('val, 'vs, 'hvs, 'blk, 'bs, 'pv) consensus_state
     \<Rightarrow> (u64 \<times> int \<times> round_step) \<times> 'val chain_state \<times> timeout_info list \<times> vote list \<times> 'blk proposal list"
  where
  "core cs = (pos cs, chainState cs, tickChan cs, signedVotes cs, signedProposals cs)"

lemma core_inv: "core t = core cs \<Longrightarrow> cs_inv t = cs_inv cs"
  by (simp add: core_def inv_defs)

lemma core_stays: "core t = core cs \<Longrightarrow> cs_inv cs \<Longrightarrow> stays cs t"
  using core_inv [of t cs] by (simp add: stays_def core_def pos_def)

lemma core_stays_left: "core b = core a \<Longrightarrow> stays b c \<Longrightarrow> stays a c"
  by (auto simp: stays_def core_def pos_def)

lemma core_advances_left: "core b = core a \<Longrightarrow> advances E b c \<Longrightarrow> advances E a c"
  by (auto simp: advances_def core_def pos_def)

text \<open>The two ways a state machine moves on to a new step before it does anything else.\<close>

lemma commit_step_stays:
  assumes "cs_inv cs" and "core t = core (updateRoundStep (Round cs) RoundStepCommit cs)"
  shows "stays cs t"
proof (rule stays_forward [OF assms(1)])
  show "Round cs < Round t \<or> Round cs = Round t \<and> Step cs \<le> Step t"
    using assms by (auto simp: core_def pos_def machine_defs cs_inv_def step_ok_def)
qed (use assms in \<open>auto simp: core_def pos_def machine_defs cs_inv_def step_ok_def\<close>)

lemma round_step_stays:
  assumes "cs_inv cs" and "core t = core (updateRoundStep round RoundStepNewRound cs)"
    and "\<not> (round < Round cs \<or> (Round cs = round \<and> Step cs \<noteq> RoundStepNewHeight))"
  shows "stays cs t"
proof (rule stays_forward [OF assms(1)])
  show "Round cs < Round t \<or> Round cs = Round t \<and> Step cs \<le> Step t"
    using assms by (auto simp: core_def pos_def machine_defs)
qed (use assms in \<open>auto simp: core_def pos_def machine_defs cs_inv_def step_ok_def\<close>)

lemma CanonicalNow_core: "CanonicalNow E cs = (now, t) \<Longrightarrow> core t = core cs"
  by (auto simp: CanonicalNow_def core_def pos_def)

lemma sendInternalMessage_core [simp]: "core (sendInternalMessage mi cs) = core cs"
  by (simp add: sendInternalMessage_def core_def pos_def)

lemma broadcast_core [simp]: "core (broadcastMessageToPeers m cs) = core cs"
  by (simp add: broadcastMessageToPeers_def core_def pos_def)

lemma newStep_core [simp]: "core (newStep cs) = core cs"
  by (simp add: newStep_def core_def pos_def)

lemma updatePubKey_core [simp]: "core (snd (updatePrivValidatorPubKey E cs)) = core cs"
  by (simp add: updatePrivValidatorPubKey_def core_def pos_def split: option.split sum.split)

lemma SetPrivValidator_core [simp]: "core (SetPrivValidator E pv cs) = core cs"
  by (simp add: SetPrivValidator_def) (simp add: core_def pos_def)

section \<open>The next height\<close>

lemma next_height_eq: "next_height st = (if st_LastBlockHeight st = 0 then st_InitialHeight st
    else st_LastBlockHeight st + 1)"
proof -
  have "st_LastBlockHeight st + 1 = 1 \<longleftrightarrow> st_LastBlockHeight st = 0"
    by (metis add.left_neutral add_right_cancel)
  then show ?thesis by (simp add: next_height_def Let_def)
qed

lemma copy_observables [simp]:
  "st_LastBlockHeight (ChainState_Copy E st) = st_LastBlockHeight st"
  "st_InitialHeight (ChainState_Copy E st) = st_InitialHeight st"
  "st_LastBlockID (ChainState_Copy E st) = st_LastBlockID st"
  by (simp_all add: ChainState_Copy_def)

lemma updateToState_reset_fields:
  "Height (updateToState_reset E st cs) = next_height st"
  "Round (updateToState_reset E st cs) = 0"
  "Step (updateToState_reset E st cs) = RoundStepNewHeight"
  "chainState (updateToState_reset E st cs) = st"
  "tickChan (updateToState_reset E st cs) = tickChan cs"
  "signedVotes (updateToState_reset E st cs) = signedVotes cs"
  "signedProposals (updateToState_reset E st cs) = signedProposals cs"
  by (simp_all add: updateToState_reset_def machine_defs CanonicalNow_def Let_def)

section \<open>The interfaces the state machine relies on\<close>

locale consensus_node =
  executor: block_executor "be_ValidateBlock N" "be_ApplyBlock N"
    st_LastBlockHeight st_LastBlockID st_InitialHeight
    "blk_NumberU64 N" "blk_Hash N" "blk_ParentHash N" +
  signer: priv_validator "pv_GetPubKey N" "pv_SignVote N" "pv_SignProposal N"
    verify "VoteSignBytes N" "ProposalSignBytes N" sound
  for N :: "('val, 'vs, 'hvs, 'blk, 'bs, 'pv) node"
    and verify :: "pubkey \<Rightarrow> bytes \<Rightarrow> bytes \<Rightarrow> bool" and sound :: bool

interpretation default_consensus: consensus_node "default_node E D"
  "EcdsaPubKey_VerifySignature E" "crypto_ok E"
  for E :: "('val, 'vs, 'hvs, 'blk) ext" and D :: "('db, 'blk) db_ext"
proof -
  show "consensus_node (default_node E D) (EcdsaPubKey_VerifySignature E) (crypto_ok E)"
    unfolding consensus_node_def
    using default_executor.block_executor_axioms [of E] local_signer.priv_validator_axioms [of E]
    by (simp add: default_node_def ext.defs)
qed

end
