(* ===== verification/CS_Safety.thy ===== *)
theory CS_Safety
  imports CS_Invariant
begin

text \<open>
  Every handler of the consensus state machine keeps the invariant \<open>cs_inv\<close> and moves the position
  (height, round, step) forward; so does every event of the receive routine. From it: the node
  never signs two votes for the same height, round and type, nor two proposals for the same height
  and round, and a timeout of an unknown step never reaches \<open>handleTimeout\<close>.
\<close>

section \<open>Inside the interfaces\<close>

text \<open>What the code relies on of \<open>types.NewProposal\<close>: it fills the fields it is given.\<close>

definition new_proposal_ok :: "('val, 'vs, 'hvs, 'blk, 'e) ext_scheme \<Rightarrow> bool" where
  "new_proposal_ok E \<longleftrightarrow> (\<forall>h r pol b.
     p_Height (NewProposal E h r pol b) = h \<and> p_Round (NewProposal E h r pol b) = r
     \<and> p_POLRound (NewProposal E h r pol b) = pol \<and> p_Block (NewProposal E h r pol b) = b)"

text \<open>\<open>t\<close> is \<open>cs\<close> after signing at most one vote of type \<open>T\<close> for \<open>h\<close> at the current position.\<close>

definition signed_one ::
  "SignedMsgType \<Rightarrow> hash \<Rightarrow> ('val, 'vs, 'hvs, 'blk, 'bs, 'pv) consensus_state
     \<Rightarrow> ('val, 'vs, 'hvs, 'blk, 'bs, 'pv) consensus_state \<Rightarrow> bool" where
  "signed_one T h cs t \<longleftrightarrow> core t = core (cs\<lparr>signedVotes := signedVotes t\<rparr>)
     \<and> (signedVotes t = signedVotes cs
        \<or> (\<exists>v. signedVotes t = signedVotes cs @ [v] \<and> vote_key v = (Height cs, Round cs, T)
             \<and> v_BlockID v = h))"

lemma signed_one_stays:
  assumes inv: "cs_inv cs" and T: "T = PrevoteType \<or> T = PrecommitType"
    and before: "Step cs < vote_step T" and one: "signed_one T h cs t"
  shows "stays cs (newStep (updateRoundStep (Round cs) (vote_step T) t))"
proof -
  let ?u = "newStep (updateRoundStep (Round cs) (vote_step T) t)"
  have core_t: "Height t = Height cs" "Round t = Round cs" "chainState t = chainState cs"
    "tickChan t = tickChan cs" "signedProposals t = signedProposals cs"
    using one by (simp_all add: signed_one_def core_def pos_def)
  have u: "pos ?u = (Height cs, Round cs, vote_step T)" "signedVotes ?u = signedVotes t"
    "chainState ?u = chainState cs" "tickChan ?u = tickChan cs"
    "signedProposals ?u = signedProposals cs" "Height ?u = Height cs" "Step ?u = vote_step T"
    using core_t by (simp_all add: machine_defs pos_def)
  have le: "pos cs \<le> pos ?u" using before u by (simp add: pos_def less_eq_prod_def less_prod_def)
  have w: "cs_inv cs" by fact
  have "step_ok ?u" using T u w by (auto simp: cs_inv_def step_ok_def pos_def)
  moreover have "votes_ok ?u"
  proof (cases "signedVotes t = signedVotes cs")
    case True
    then show ?thesis using w le u by (auto simp: cs_inv_def votes_ok_def intro: order_trans)
  next
    case False
    then obtain v where v: "signedVotes t = signedVotes cs @ [v]"
      "vote_key v = (Height cs, Round cs, T)"
      using one by (auto simp: signed_one_def)
    have fresh: "vote_key x \<noteq> vote_key v" if "x \<in> set (signedVotes cs)" for x
    proof
      assume eq: "vote_key x = vote_key v"
      have "vote_pos x \<le> pos cs" using w that by (simp add: cs_inv_def votes_ok_def)
      then show False
        using eq v(2) before by (auto simp: vote_pos_def vote_key_def pos_def less_eq_prod_def less_prod_def)
    qed
    have "vote_key v \<notin> vote_key ` set (signedVotes cs)" using fresh by (metis imageE)
    moreover have "vote_pos v = pos ?u" using v(2) u by (simp add: vote_pos_def vote_key_def)
    ultimately show ?thesis
      using w le u v(1) by (auto simp: cs_inv_def votes_ok_def intro: order_trans)
  qed
  moreover have "proposals_ok ?u"
    using w le u by (auto simp: cs_inv_def proposals_ok_def intro: order_trans)
  moreover have "ticks_ok ?u"
    using w le u by (auto simp: cs_inv_def ticks_ok_def intro: tick_ok_mono)
  moreover have "chain_ok ?u" using w u by (auto simp: cs_inv_def chain_ok_def)
  ultimately show ?thesis using le u by (simp add: stays_def cs_inv_def)
qed

lemma voteTime_core: "voteTime E cs = (tm, t) \<Longrightarrow> core t = core cs \<and> Validators t = Validators cs"
  by (auto simp: voteTime_def CanonicalNowMs_def core_def pos_def Let_def split: prod.splits option.splits)

context consensus_node
begin

lemma signVote_one:
  assumes "signVote N pv T h cs = (r, t)"
  shows "signed_one T h cs t"
proof (cases "privValidatorPubKey cs")
  case None
  then show ?thesis using assms by (auto simp: signVote_def signed_one_def core_def pos_def)
next
  case (Some k)
  obtain tm cs1 where vt: "voteTime N cs = (tm, cs1)" by fastforce
  obtain now cs2 where cn: "CanonicalNow N cs1 = (now, cs2)" by fastforce
  have cs2: "core cs2 = core cs"
    using voteTime_core [OF vt] CanonicalNow_core [OF cn] by simp
  have cs1: "core cs1 = core cs" using voteTime_core [OF vt] by simp
  let ?v = "\<lparr>v_ValidatorAddress = pubkey_Address k,
    v_ValidatorIndex = fst (vals_GetByAddress N (Validators cs) (pubkey_Address k)),
    v_Height = Height cs1, v_Round = Round cs1, v_TimestampMs = tm, v_Type = T,
    v_BlockID = h, v_Signature = []\<rparr>"
  obtain err v' where sv: "pv_SignVote N pv now (st_ChainID (chainState cs2)) ?v = (err, v')"
    by fastforce
  have t: "t = cs2\<lparr>signedVotes := signedVotes cs2 @ [v']\<rparr>"
    using assms Some vt cn sv
    by (auto simp: signVote_def Let_def case_prod_beta split: option.splits prod.splits)
  have "vote_key v' = (Height cs, Round cs, T) \<and> v_BlockID v' = h"
    using signer.vote_fields [OF sv] cs1 by (simp add: vote_key_def core_def pos_def)
  then show ?thesis using t cs2 by (auto simp: signed_one_def core_def pos_def)
qed

lemma signAddVote_one: "signed_one T h cs (signAddVote N T h cs)"
proof -
  have same: "signed_one T h cs cs" by (simp add: signed_one_def core_def pos_def)
  have send: "signed_one T h cs (sendInternalMessage mi t)" if "signed_one T h cs t" for mi t
    using that by (simp add: signed_one_def sendInternalMessage_def core_def pos_def)
  show ?thesis
    by (auto simp: signAddVote_def same split: option.split sum.split prod.split
        intro!: send dest: signVote_one)
qed

lemma sign_stays:
  "cs_inv cs \<Longrightarrow> T = PrevoteType \<or> T = PrecommitType \<Longrightarrow> Step cs < vote_step T
   \<Longrightarrow> stays cs (newStep (updateRoundStep (Round cs) (vote_step T) (signAddVote N T h cs)))"
  by (rule signed_one_stays [OF _ _ _ signAddVote_one])

subsection \<open>Prevote and precommit\<close>

lemma defaultDoPrevote_signs:
  "defaultDoPrevote N height round cs = Inr t \<Longrightarrow> \<exists>h. t = signAddVote N PrevoteType h cs"
  by (auto simp: defaultDoPrevote_def andThen_eq_Inr split: option.splits)

lemma enterPrevote_stays:
  assumes "cs_inv cs" and "round \<le> Round cs" and "enterPrevote N height round cs = Inr t"
  shows "stays cs t"
proof (cases "Height cs \<noteq> height \<or> round < Round cs \<or> (Round cs = round \<and> RoundStepPrevote \<le> Step cs)")
  case True
  then show ?thesis using assms by (auto simp: enterPrevote_def stays_refl)
next
  case False
  then obtain u where u: "defaultDoPrevote N height round cs = Inr u"
    "t = newStep (updateRoundStep round RoundStepPrevote u)"
    using assms(3) by (auto simp: enterPrevote_def andThen_eq_Inr)
  from u(1) obtain h where "u = signAddVote N PrevoteType h cs" by (blast dest: defaultDoPrevote_signs)
  then show ?thesis
    using sign_stays [of cs PrevoteType h] assms(1,2) False u(2) by (simp add: not_le)
qed

lemma enterPrecommit_body_signs:
  assumes "enterPrecommit_body N height round cs = Inr t"
  obtains h u where "t = signAddVote N PrecommitType h u" and "core u = core cs"
proof -
  have "core (cs\<lparr>LockedRound := a, LockedBlock := b\<rparr>) = core cs" for a b
    by (simp add: core_def pos_def)
  moreover have "core (cs\<lparr>LockedRound := a\<rparr>) = core cs" for a by (simp add: core_def pos_def)
  ultimately show ?thesis
    using assms that
    by (auto simp: enterPrecommit_body_def andThen_eq_Inr Let_def split: prod.splits if_splits option.splits)
qed

lemma enterPrecommit_stays:
  assumes "cs_inv cs" and "round \<le> Round cs" and "enterPrecommit N height round cs = Inr t"
  shows "stays cs t"
proof (cases "Height cs \<noteq> height \<or> round < Round cs \<or> (Round cs = round \<and> RoundStepPrecommit \<le> Step cs)")
  case True
  then show ?thesis using assms by (auto simp: enterPrecommit_def stays_refl)
next
  case False
  then obtain u where u: "enterPrecommit_body N height round cs = Inr u"
    "t = newStep (updateRoundStep round RoundStepPrecommit u)"
    using assms(3) by (auto simp: enterPrecommit_def andThen_eq_Inr)
  from u(1) obtain h w where w: "u = signAddVote N PrecommitType h w" "core w = core cs"
    by (rule enterPrecommit_body_signs)
  have "cs_inv w" "Step w = Step cs" "Round w = Round cs"
    using w(2) core_inv assms(1) by (auto simp: core_def pos_def)
  then have "stays w t"
    using sign_stays [of w PrecommitType h] assms(2) False u(2) w(1) by (simp add: not_le)
  then show ?thesis by (rule core_stays_left [OF w(2)])
qed

subsection \<open>The waits\<close>

lemma scheduled_stays:
  assumes inv: "cs_inv cs" and step: "Step cs \<le> Step t" "Step t \<le> 8" and "Round t = Round cs"
    and "Height t = Height cs" "chainState t = chainState cs" "signedVotes t = signedVotes cs"
    and "signedProposals t = signedProposals cs"
    and ticks: "tickChan t = tickChan cs @ [\<lparr>ti_Duration = d, ti_Height = Height cs, ti_Round = round,
           ti_Step = s\<rparr>]" and "round \<le> Round cs"
    and "s \<in> {RoundStepNewHeight, RoundStepPropose, RoundStepPrevoteWait, RoundStepPrecommitWait}"
  shows "stays cs t"
proof (rule stays_forward [OF inv])
  show "step_ok t" using step inv assms(4) by (auto simp: cs_inv_def step_ok_def)
  show "\<forall>ti\<in>set (tickChan t). ti \<in> set (tickChan cs) \<or> tick_ok (pos t) ti"
    using assms by (auto simp: tick_ok_def pos_def)
qed (use assms in auto)

lemma enterPrevoteWait_stays:
  assumes "cs_inv cs" and "round \<le> Round cs" and "enterPrevoteWait N height round cs = Inr t"
  shows "stays cs t"
proof (cases "Height cs \<noteq> height \<or> round < Round cs \<or> (Round cs = round \<and> RoundStepPrevoteWait \<le> Step cs)")
  case True
  then show ?thesis using assms by (auto simp: enterPrevoteWait_def stays_refl)
next
  case False
  then show ?thesis
    using assms
    by (auto simp: enterPrevoteWait_def machine_defs Let_def split: if_splits
        intro!: scheduled_stays)
qed

lemma enterPrecommitWait_stays:
  assumes "cs_inv cs" and "round \<le> Round cs" and "enterPrecommitWait N height round cs = Inr t"
  shows "stays cs t"
proof (cases "Height cs \<noteq> height \<or> round < Round cs \<or> (Round cs = round \<and> TriggeredTimeoutPrecommit cs)")
  case True
  then show ?thesis using assms by (auto simp: enterPrecommitWait_def stays_refl)
next
  case False
  have "Step cs \<le> 8" using assms(1) by (simp add: cs_inv_def step_ok_def)
  then show ?thesis
    using assms False
    by (auto simp: enterPrecommitWait_def machine_defs Let_def split: if_splits
        intro!: scheduled_stays)
qed

subsection \<open>Propose and new round\<close>

lemma defaultDecideProposal_signs:
  assumes new: "new_proposal_ok N" and "defaultDecideProposal N height round cs = Inr t"
  shows "core t = core (cs\<lparr>signedProposals := signedProposals t\<rparr>)
     \<and> (signedProposals t = signedProposals cs
        \<or> (\<exists>p. signedProposals t = signedProposals cs @ [p] \<and> proposal_key p = (height, round)))"
proof -
  obtain b where b: "(case ValidBlock cs of Some block \<Rightarrow> Inr (Some block)
      | None \<Rightarrow> createProposalBlock N cs) = Inr b"
    using assms(2) by (auto simp: defaultDecideProposal_def andThen_eq_Inr)
  show ?thesis
  proof (cases b)
    case None
    then show ?thesis using assms(2) b by (simp add: defaultDecideProposal_def core_def pos_def)
  next
    case (Some block)
    obtain pv where pv: "privValidator cs = Some pv"
      using assms(2) b Some by (auto simp: defaultDecideProposal_def andThen_eq_Inr deref_eq_Inr)
    obtain err p where p: "pv_SignProposal N pv (st_ChainID (chainState cs))
        (NewProposal N height round (ValidRound cs) (Some block)) = (err, p)" by fastforce
    have "proposal_key p = (height, round)"
      using signer.proposal_fields [OF p] new by (simp add: proposal_key_def new_proposal_ok_def)
    moreover have "t = cs\<lparr>signedProposals := signedProposals cs @ [p]\<rparr>
        \<or> (\<exists>mi. t = sendInternalMessage mi (cs\<lparr>signedProposals := signedProposals cs @ [p]\<rparr>))"
      using assms(2) unfolding defaultDecideProposal_def b Some pv
      by (auto simp: p pv Let_def split: option.splits)
    ultimately show ?thesis by (auto simp: machine_defs core_def pos_def)
  qed
qed

lemma enterPropose_body_signs:
  assumes "new_proposal_ok N" and "enterPropose_body N height round cs = Inr t"
  shows "\<exists>d. core t = core (cs\<lparr>signedProposals := signedProposals t, tickChan := tickChan cs @
            [\<lparr>ti_Duration = d, ti_Height = height, ti_Round = round, ti_Step = RoundStepPropose\<rparr>]\<rparr>)
     \<and> (signedProposals t = signedProposals cs
        \<or> (\<exists>p. signedProposals t = signedProposals cs @ [p] \<and> proposal_key p = (height, round)))"
proof -
  let ?d = "cfg_Propose N (cs_config cs) round"
  let ?u = "scheduleTimeout ?d height round RoundStepPropose cs"
  have "t = ?u \<or> defaultDecideProposal N height round ?u = Inr t"
    using assms(2)
    by (auto simp: enterPropose_body_def Let_def andThen_eq_Inr split: option.splits if_splits)
  then show ?thesis
  proof
    assume "t = ?u"
    then show ?thesis by (auto simp: scheduleTimeout_def core_def pos_def)
  next
    assume "defaultDecideProposal N height round ?u = Inr t"
    from defaultDecideProposal_signs [OF assms(1) this] show ?thesis
      by (intro exI [of _ ?d]) (simp add: scheduleTimeout_def core_def pos_def)
  qed
qed

lemma cs_inv_proposals:
  "cs_inv (u\<lparr>signedProposals := ps\<rparr>) \<Longrightarrow> proposals_ok u \<Longrightarrow> cs_inv u"
  by (auto simp: cs_inv_def step_ok_def votes_ok_def ticks_ok_def chain_ok_def pos_def)

lemma proposed_stays:
  assumes inv: "cs_inv cs" and new: "new_proposal_ok N" and before: "Step cs < RoundStepPropose"
    and body: "enterPropose_body N (Height cs) (Round cs) cs = Inr t"
  shows "stays cs (newStep (updateRoundStep (Round cs) RoundStepPropose t))"
proof -
  let ?u = "newStep (updateRoundStep (Round cs) RoundStepPropose t)"
  obtain d where t: "core t = core (cs\<lparr>signedProposals := signedProposals t, tickChan := tickChan cs @
            [\<lparr>ti_Duration = d, ti_Height = Height cs, ti_Round = Round cs, ti_Step = RoundStepPropose\<rparr>]\<rparr>)"
    and one: "signedProposals t = signedProposals cs
        \<or> (\<exists>p. signedProposals t = signedProposals cs @ [p] \<and> proposal_key p = (Height cs, Round cs))"
    using enterPropose_body_signs [OF new body] by blast
  let ?w = "?u\<lparr>signedProposals := signedProposals cs\<rparr>"
  have "stays cs ?w"
  proof (rule scheduled_stays [OF inv, where round = "Round cs" and s = RoundStepPropose and d = d])
    show "Step cs \<le> Step ?w" using before by (simp add: machine_defs)
  qed (use t in \<open>auto simp: machine_defs core_def pos_def\<close>)
  moreover have "pos ?w = pos ?u" by (simp add: pos_def)
  ultimately have w: "cs_inv ?w" "pos cs \<le> pos ?u" "Height ?u = Height cs" "chainState ?u = chainState cs"
    by (simp_all add: stays_def)
  have pu: "pos ?u = (Height cs, Round cs, RoundStepPropose)"
    using t by (simp add: machine_defs core_def pos_def)
  have "proposals_ok ?u"
  proof (cases "signedProposals t = signedProposals cs")
    case True
    then show ?thesis using w(1) by (simp add: cs_inv_def proposals_ok_def pos_def machine_defs)
  next
    case False
    then obtain p where p: "signedProposals t = signedProposals cs @ [p]"
      "proposal_key p = (Height cs, Round cs)" using one by auto
    have "proposal_key x \<noteq> proposal_key p" if "x \<in> set (signedProposals cs)" for x
    proof
      assume eq: "proposal_key x = proposal_key p"
      have "proposal_pos x \<le> pos cs" using inv that by (simp add: cs_inv_def proposals_ok_def)
      then show False
        using eq p(2) before
        by (auto simp: proposal_pos_def proposal_key_def pos_def less_eq_prod_def less_prod_def)
    qed
    then have "proposal_key p \<notin> proposal_key ` set (signedProposals cs)" by (metis imageE)
    moreover have "proposal_pos p = pos ?u" using p(2) pu by (simp add: proposal_pos_def proposal_key_def)
    moreover have "signedProposals ?u = signedProposals cs @ [p]" using p(1) by (simp add: machine_defs)
    ultimately show ?thesis
      using inv w(2) by (auto simp: cs_inv_def proposals_ok_def intro: order_trans)
  qed
  then show ?thesis using w cs_inv_proposals [OF w(1)] by (simp add: stays_def)
qed

lemma enterPropose_stays:
  assumes inv: "cs_inv cs" and new: "new_proposal_ok N" and "round \<le> Round cs"
    and e: "enterPropose N height round cs = Inr t"
  shows "stays cs t"
proof (cases "Height cs \<noteq> height \<or> round < Round cs \<or> (Round cs = round \<and> RoundStepPropose \<le> Step cs)")
  case True
  then show ?thesis using e inv by (auto simp: enterPropose_def stays_refl)
next
  case False
  then have eq: "height = Height cs" "round = Round cs" "Step cs < RoundStepPropose"
    using assms(3) by auto
  obtain u where u: "enterPropose_body N (Height cs) (Round cs) cs = Inr u"
    and t: "(let v = newStep (updateRoundStep (Round cs) RoundStepPropose u) in
        if isProposalComplete N v then enterPrevote N (Height cs) (Round v) v else Inr v) = Inr t"
    using e False eq by (auto simp: enterPropose_def andThen_eq_Inr)
  let ?v = "newStep (updateRoundStep (Round cs) RoundStepPropose u)"
  have v: "stays cs ?v" by (rule proposed_stays [OF inv new eq(3) u])
  have "t = ?v \<or> enterPrevote N (Height cs) (Round ?v) ?v = Inr t"
    using t by (auto simp: Let_def split: if_splits)
  then show ?thesis
    using v enterPrevote_stays [OF stays_inv [OF v] order_refl] by (auto intro: stays_trans)
qed

text \<open>After \<open>enterNewRound\<close> for the current height the node is in that round or a later one.\<close>

lemma enterNewRound_forward:
  assumes inv: "cs_inv cs" and new: "new_proposal_ok N"
    and e: "enterNewRound N height round cs = Inr t"
  shows "stays cs t \<and> (Height cs = height \<longrightarrow> round \<le> Round t)"
proof (cases "Height cs \<noteq> height \<or> round < Round cs \<or> (Round cs = round \<and> Step cs \<noteq> RoundStepNewHeight)")
  case True
  then show ?thesis using e inv by (auto simp: enterNewRound_def stays_refl)
next
  case False
  obtain now c where c: "CanonicalNow N cs = (now, c)" by fastforce
  have cc: "core c = core cs" by (rule CanonicalNow_core [OF c])
  obtain u where u: "enterPropose N height round u = Inr t"
    "core u = core (updateRoundStep round RoundStepNewRound c)"
    using e False c
    by (auto simp: enterNewRound_def andThen_eq_Inr Let_def core_def pos_def machine_defs split: if_splits)
  have su: "stays cs u"
    using u(2) cc False by (intro round_step_stays [OF inv]) (auto simp: core_def pos_def machine_defs)
  have r: "Round u = round" using u(2) by (simp add: core_def pos_def machine_defs)
  then have ut: "stays u t" using enterPropose_stays [OF stays_inv [OF su] new _ u(1)] by simp
  then have "round \<le> Round t" using r by (auto simp: stays_def pos_def less_eq_prod_def less_prod_def)
  then show ?thesis using stays_trans [OF su ut] by simp
qed

lemmas enterNewRound_stays = enterNewRound_forward [THEN conjunct1]
lemmas enterNewRound_round = enterNewRound_forward [THEN conjunct2, rule_format]

subsection \<open>Committing\<close>

text \<open>The chain state after applying a valid block has the current height as its last.\<close>

lemma height_next:
  fixes st st' :: "'val chain_state" and cs :: "('val, 'vs, 'hvs, 'blk, 'bs, 'pv) consensus_state"
  assumes "cs_inv cs" and "Height cs + 1 \<noteq> 0"
    and "st_LastBlockHeight st' = Height cs"
  shows "next_height st' = Height cs + 1"
  using assms by (auto simp: cs_inv_def chain_ok_def next_height_eq)

lemma later_height_inv:
  assumes inv: "cs_inv cs" and later: "Height cs < Height t" and "Step t = RoundStepNewHeight"
    and "Height t = next_height (chainState t)" "st_InitialHeight (chainState t) \<noteq> 0"
    and "tickChan t = tickChan cs" "signedVotes t = signedVotes cs"
    and "signedProposals t = signedProposals cs" and "Round t = 0"
    and link: "chain_link N (chainState cs) (chainState t)"
  shows "advances N cs t"
proof -
  have le: "pos cs \<le> pos t" using later by (simp add: pos_def less_eq_prod_def less_prod_def)
  then have "votes_ok t" "proposals_ok t" "ticks_ok t"
    using inv assms(6-8)
    by (auto simp: cs_inv_def votes_ok_def proposals_ok_def ticks_ok_def
        intro: order_trans tick_ok_mono)
  moreover have "Height t \<noteq> 0" using later by auto
  ultimately show ?thesis using assms(3-5,9) le link by (simp add: advances_def cs_inv_def step_ok_def chain_ok_def)
qed

lemma updateToState_advances:
  assumes inv: "cs_inv cs" and bound: "Height cs + 1 \<noteq> 0"
    and st: "st_LastBlockHeight st' = Height cs" "st_InitialHeight st' \<noteq> 0"
    and link: "chain_link N (chainState cs) st'"
    and e: "updateToState N st' cs = Inr t"
  shows "advances N cs t"
proof (cases "\<not> ChainState_IsEmpty (chainState cs)
         \<and> st_LastBlockHeight st' \<le> st_LastBlockHeight (chainState cs)")
  case True
  then have "core t = core cs" using e by (auto simp: updateToState_def andThen_eq_Inr)
  then show ?thesis using inv by (intro stays_advances core_stays)
next
  case False
  then obtain l where t: "t = updateToState_reset N st' (cs\<lparr>LastCommit := l\<rparr>)"
    using e by (auto simp: updateToState_def andThen_eq_Inr)
  have "next_height st' = Height cs + 1" by (rule height_next [OF inv bound st(1)])
  then show ?thesis
    using word_less_Suc [OF bound] st(2) link unfolding t
    by (intro later_height_inv [OF inv]) (simp_all add: updateToState_reset_fields)
qed

lemma saveBlock_core: "saveBlock N block seen cs = Inr t \<Longrightarrow> core t = core cs"
  by (auto simp: saveBlock_def andThen_eq_Inr core_def pos_def split: if_splits)

lemma validate_height:
  assumes "cs_inv cs" and "be_ValidateBlock N (chainState cs) block = Inr None"
  shows "blk_NumberU64 N block = Height cs"
  using executor.valid_number [OF assms(2)] assms(1)
  by (simp add: cs_inv_def chain_ok_def next_height_eq)

lemma applyBlock_advances:
  assumes inv: "cs_inv cs" and bound: "Height cs + 1 \<noteq> 0" and valid: "be_ValidateBlock N (chainState cs) block = Inr None"
    and e: "applyBlock N block after cs = Inr t"
    and after: "\<And>c. cs_inv c \<Longrightarrow> after c = Inr t \<Longrightarrow> advances N c t"
  shows "advances N cs t"
proof -
  obtain r where r: "be_ApplyBlock N (ChainState_Copy N (chainState cs)) block = Inr r"
    using e by (auto simp: applyBlock_def andThen_eq_Inr)
  show ?thesis
  proof (cases r)
    case (Inl err)
    then show ?thesis using e r inv by (auto simp: applyBlock_def intro: stays_advances stays_refl)
  next
    case (Inr st')
    then obtain u where u: "updateToState N st' cs = Inr u"
      "after (snd (updatePrivValidatorPubKey N u)) = Inr t"
      using e r by (auto simp: applyBlock_def andThen_eq_Inr)
    have "st_LastBlockHeight st' = Height cs" "st_InitialHeight st' \<noteq> 0"
      using executor.exec_height [OF r [unfolded Inr]] executor.exec_initial [OF r [unfolded Inr]] inv
        validate_height [OF inv valid]
      by (simp_all add: cs_inv_def chain_ok_def)
    moreover have "chain_link N (chainState cs) st'" using valid r unfolding Inr by (rule chain_link)
    ultimately have cu: "advances N cs u" by (rule updateToState_advances [OF inv bound _ _ _ u(1)])
    let ?w = "snd (updatePrivValidatorPubKey N u)"
    have "cs_inv ?w" using cu core_inv [of ?w u] by (simp add: advances_def)
    from after [OF this u(2)] have "advances N u t" by (rule core_advances_left [rotated]) simp
    with cu show ?thesis by (rule advances_trans)
  qed
qed

lemma scheduleRound0_stays:
  assumes "cs_inv cs"
  shows "stays cs (scheduleRound0 N (GetRoundState cs) cs)"
proof -
  have "Step cs \<le> 8" "0 \<le> Round cs" using assms by (simp_all add: cs_inv_def step_ok_def)
  then show ?thesis
    using assms
    by (auto simp: scheduleRound0_def CanonicalNow_def machine_defs GetRoundState_def round_state.defs
        intro!: scheduled_stays)
qed

lemma finalizeCommit_advances:
  assumes inv: "cs_inv cs" and bound: "Height cs + 1 \<noteq> 0" and e: "finalizeCommit N height cs = Inr t"
  shows "advances N cs t"
  using finalizeCommit_cases [OF e]
proof (elim disjE exE conjE)
  fix block u
  assume v: "be_ValidateBlock N (chainState cs) block = Inr None"
    and u: "saveBlock N block (vs_MakeCommit N (hvs_Precommits N (Votes cs) (CommitRound cs))) cs = Inr u"
    and a: "applyBlock N block (\<lambda>cs. Inr (scheduleRound0 N (GetRoundState cs) cs)) u = Inr t"
  have cu: "core u = core cs" by (rule saveBlock_core [OF u])
  then have "cs_inv u" "Height u = Height cs" "chainState u = chainState cs"
    using core_inv inv by (auto simp: core_def pos_def)
  then have "advances N u t"
    using v bound
    by (intro applyBlock_advances [OF _ _ _ a]) (auto intro: stays_advances scheduleRound0_stays)
  then show ?thesis by (rule core_advances_left [OF cu])
qed (use inv in \<open>simp add: stays_advances stays_refl\<close>)

lemma tryFinalizeCommit_advances:
  "cs_inv cs \<Longrightarrow> Height cs + 1 \<noteq> 0 \<Longrightarrow> tryFinalizeCommit N height cs = Inr t \<Longrightarrow> advances N cs t"
  by (auto simp: tryFinalizeCommit_def Let_def split: prod.splits if_splits
      intro: stays_advances stays_refl finalizeCommit_advances)

lemma enterCommit_body_core:
  "enterCommit_body N r cs = Inr t \<Longrightarrow> core t = core cs"
  by (auto simp: enterCommit_body_def core_def pos_def Let_def split: prod.splits if_splits)

text \<open>The state in which the commit is entered.\<close>

lemma enterCommit_state:
  assumes inv: "cs_inv cs" and u: "enterCommit_body N commitRound cs = Inr u"
    and w: "CanonicalNow N ((updateRoundStep (Round u) RoundStepCommit u)\<lparr>CommitRound := commitRound\<rparr>) = (now, w)"
  shows "stays cs (newStep (w\<lparr>CommitTime := now\<rparr>))"
  using CanonicalNow_core [OF w] enterCommit_body_core [OF u]
  by (intro commit_step_stays [OF inv]) (simp add: core_def pos_def machine_defs)

lemma enterCommit_advances:
  assumes inv: "cs_inv cs" and bound: "Height cs + 1 \<noteq> 0"
    and e: "enterCommit N height commitRound cs = Inr t"
  shows "advances N cs t"
  using enterCommit_cases [OF e]
proof (elim disjE exE conjE)
  fix u now w
  assume u: "enterCommit_body N commitRound cs = Inr u"
    and w: "CanonicalNow N ((updateRoundStep (Round u) RoundStepCommit u)\<lparr>CommitRound := commitRound\<rparr>) = (now, w)"
    and t: "tryFinalizeCommit N height (newStep (w\<lparr>CommitTime := now\<rparr>)) = Inr t"
  have sv: "stays cs (newStep (w\<lparr>CommitTime := now\<rparr>))" by (rule enterCommit_state [OF inv u w])
  then have "advances N (newStep (w\<lparr>CommitTime := now\<rparr>)) t"
    using tryFinalizeCommit_advances [OF stays_inv _ t] bound by (auto simp: stays_def)
  with stays_advances [OF sv] show ?thesis by (rule advances_trans)
qed (use inv in \<open>simp add: stays_advances stays_refl\<close>)

lemma fast_path_saved:
  assumes "cs_inv cs" and "saveBlock N block seen (fast_path_state N lc cs) = Inr u"
  shows "stays cs u"
  using saveBlock_core [OF assms(2)]
  by (intro commit_step_stays [OF assms(1)]) (simp add: CanonicalNow_def core_def pos_def)

lemma processCommitedBlock_advances:
  assumes inv: "cs_inv cs" and new: "new_proposal_ok N" and bound: "Height cs + 1 \<noteq> 0"
    and e: "processCommitedBlock N block cs = Inr t"
  shows "advances N cs t"
  using processCommitedBlock_cases [OF e]
proof (elim disjE exE conjE)
  fix lc u
  assume h: "be_ValidateBlock N (chainState cs) block = Inr None"
    and u: "saveBlock N block (Inr (blk_Commit N block)) (fast_path_state N lc cs) = Inr u"
    and a: "applyBlock N block (fast_path_after N) u = Inr t"
  have su: "stays cs u" by (rule fast_path_saved [OF inv u])
  have "advances N u t"
  proof (rule applyBlock_advances [OF stays_inv [OF su] _ _ a])
    show "advances N c t" if "cs_inv c" "fast_path_after N c = Inr t" for c
      using that enterNewRound_stays [OF that(1) new] scheduleRound0_stays [OF that(1)]
      by (auto intro: stays_advances split: if_splits)
  qed (use su h bound in \<open>auto simp: stays_def\<close>)
  with stays_advances [OF su] show ?thesis by (rule advances_trans)
qed (use inv in \<open>simp add: stays_advances stays_refl\<close>)

subsection \<open>Proposals and votes\<close>

lemma setProposal_valid_core: "core (setProposal_valid E h b cs) = core cs"
  by (simp add: setProposal_valid_def core_def pos_def)

lemma setProposal_step_advances:
  assumes inv: "cs_inv cs" and bound: "Height cs + 1 \<noteq> 0" and e: "setProposal_step N b cs = Inr t"
  shows "advances N cs t"
  using setProposal_step_cases [OF e]
proof (elim disjE exE conjE)
  assume "tryFinalizeCommit N (Height cs) cs = Inr t"
  then show ?thesis by (rule tryFinalizeCommit_advances [OF inv bound])
next
  fix u assume u: "enterPrevote N (Height cs) (Round cs) cs = Inr u"
  have su: "stays cs u" by (rule enterPrevote_stays [OF inv order_refl u])
  show "advances N cs t" if "t = u" using su that by (simp add: stays_advances)
  show "advances N cs t" if "enterPrecommit N (Height u) (Round u) u = Inr t"
    using enterPrecommit_stays [OF stays_inv [OF su] order_refl that] su
    by (blast intro: stays_advances stays_trans)
qed (use inv in \<open>simp add: stays_advances stays_refl\<close>)

lemma defaultSetProposal_advances:
  assumes inv: "cs_inv cs" and bound: "Height cs + 1 \<noteq> 0"
    and e: "defaultSetProposal N proposal cs = Inr (r, t)"
  shows "advances N cs t"
  using defaultSetProposal_cases [OF e]
proof (elim disjE exE)
  fix b h
  let ?c = "cs\<lparr>Proposal := Some proposal, ProposalBlock := p_Block proposal\<rparr>"
  let ?u = "setProposal_valid N h b ?c"
  assume st: "setProposal_step N b ?u = Inr t"
  have u: "core ?u = core cs"
    using setProposal_valid_core [of N h b ?c] by (simp add: core_def pos_def)
  then have "cs_inv ?u" "Height ?u = Height cs"
    using core_inv [OF u] inv by (auto simp: core_def pos_def)
  then have "advances N ?u t" using setProposal_step_advances st bound by simp
  then show ?thesis by (rule core_advances_left [OF u])
qed (use inv in \<open>simp add: stays_advances stays_refl\<close>)

lemma addVote_polka_core: "core (addVote_polka E vote h cs) = core cs"
  by (simp add: addVote_polka_def core_def pos_def Let_def)

lemma addVote_prevote_stays:
  assumes inv: "cs_inv cs" and new: "new_proposal_ok N" and e: "addVote_prevote N height vote cs = Inr t"
  shows "stays cs t"
proof -
  obtain h ok where maj: "vs_TwoThirdsMajority N (hvs_Prevotes N (Votes cs) (v_Round vote)) = (h, ok)" by fastforce
  define u where "u = (if ok then addVote_polka N vote h cs else cs)"
  have u: "core u = core cs" by (simp add: u_def addVote_polka_core)
  have iu: "cs_inv u" using u core_inv inv by blast
  have "stays u t"
    using addVote_prevote_cases [OF e maj u_def]
  proof (elim disjE conjE)
    show "stays u t" if "t = u" using that iu by (simp add: stays_refl)
    show "stays u t" if "Round u = v_Round vote" "enterPrecommit N height (v_Round vote) u = Inr t"
      using that by (intro enterPrecommit_stays [OF iu _ that(2)]) simp
    show "stays u t" if "Round u = v_Round vote" "enterPrevoteWait N height (v_Round vote) u = Inr t"
      using that by (intro enterPrevoteWait_stays [OF iu _ that(2)]) simp
  qed (rule enterNewRound_stays [OF iu new] enterPrevote_stays [OF iu order_refl], assumption)+
  then show ?thesis by (rule core_stays_left [OF u])
qed

text \<open>The rounds in which the transitions of \<open>addVote_precommit\<close> take place.\<close>

lemma precommit_round:
  assumes "cs_inv cs" and "new_proposal_ok N" and "enterNewRound N (Height cs) round cs = Inr u"
  shows "stays cs u \<and> round \<le> Round u"
  using enterNewRound_stays [OF assms] enterNewRound_round [OF assms] by simp

lemma precommit_entered:
  assumes "cs_inv cs" and "new_proposal_ok N" and "enterNewRound N (Height cs) round cs = Inr u"
    and "enterPrecommit N (Height cs) round u = Inr w"
  shows "stays cs w \<and> round \<le> Round w"
proof -
  have u: "stays cs u" "round \<le> Round u" using precommit_round [OF assms(1-3)] by blast+
  have w: "stays u w" by (rule enterPrecommit_stays [OF stays_inv [OF u(1)] u(2) assms(4)])
  with u show ?thesis
    by (auto simp: stays_def pos_def less_eq_prod_def less_prod_def)
qed

lemma addVote_precommit_advances:
  assumes inv: "cs_inv cs" and new: "new_proposal_ok N" and bound: "Height cs + 1 \<noteq> 0"
    and e: "addVote_precommit N (Height cs) vote cs = Inr t"
  shows "advances N cs t"
  using e
proof (cases rule: addVote_precommit_cases)
  case none
  then show ?thesis using inv by (simp add: stays_advances stays_refl)
next
  case (commit u w x)
  have w: "stays cs w" using precommit_entered [OF inv new commit(1,2)] by blast
  then have wx: "advances N w x"
    using bound by (intro enterCommit_advances [OF stays_inv [OF w] _ commit(3)]) (simp add: stays_def)
  then have "cs_inv x" by (simp add: advances_def)
  then have "stays x t" using commit(4) stays_refl enterNewRound_stays [OF _ new] by blast
  then show ?thesis using w wx by (blast intro: advances_trans stays_advances)
next
  case (nil u w)
  then have w: "stays cs w" "v_Round vote \<le> Round w" using precommit_entered [OF inv new] by blast+
  show ?thesis
    using enterPrecommitWait_stays [OF stays_inv [OF w(1)] w(2) nil(3)] w(1) by (blast intro: stays_trans stays_advances)
next
  case (wait u)
  then have u: "stays cs u" "v_Round vote \<le> Round u" using precommit_round [OF inv new] by blast+
  show ?thesis
    using enterPrecommitWait_stays [OF stays_inv [OF u(1)] u(2) wait(2)] u(1)
    by (blast intro: stays_trans stays_advances)
qed

lemma addVote_late_stays:
  assumes inv: "cs_inv cs" and new: "new_proposal_ok N" and e: "addVote_late N vote cs = Inr (r, t)"
  shows "stays cs t"
proof -
  have c: "core (cs\<lparr>LastCommit := l\<rparr>) = core cs" for l by (simp add: core_def pos_def)
  have "stays cs t" if "enterNewRound N (Height cs) 0 (cs\<lparr>LastCommit := l\<rparr>) = Inr t" for l
    using core_stays_left [OF c] enterNewRound_stays [OF _ new that] core_inv [OF c] inv by blast
  then show ?thesis using addVote_late_cases [OF e] core_stays [OF c inv] inv stays_refl by blast
qed

lemma addVote_advances:
  assumes inv: "cs_inv cs" and new: "new_proposal_ok N" and bound: "Height cs + 1 \<noteq> 0"
    and e: "addVote N vote peer cs = Inr (r, t)"
  shows "advances N cs t"
  using e
proof (cases rule: addVote_cases)
  case same
  then show ?thesis using inv by (simp add: stays_advances stays_refl)
next
  case late
  then show ?thesis by (rule stays_advances [OF addVote_late_stays [OF inv new]])
next
  case (added x vs)
  let ?u = "cs\<lparr>Votes := vs\<rparr>"
  have c: "core ?u = core cs" by (simp add: core_def pos_def)
  have i: "cs_inv ?u" using core_inv [OF c] inv by blast
  have "advances N ?u t" if "addVote_precommit N (Height cs) vote ?u = Inr t"
    using that bound by (intro addVote_precommit_advances [OF i new]) simp_all
  then show ?thesis
    using added(3) addVote_prevote_stays [OF i new] core_stays [OF c inv]
    by (blast intro: stays_advances core_stays_left [OF c] core_advances_left [OF c])
qed

subsection \<open>Messages and timeouts\<close>

lemma handleMsg_advances:
  assumes inv: "cs_inv cs" and new: "new_proposal_ok N" and bound: "Height cs + 1 \<noteq> 0"
    and e: "handleMsg N mi cs = Inr t"
  shows "advances N cs t"
proof -
  have relay: "advances N cs (if b then broadcastMessageToPeers m u else u)" if "advances N cs u" for b m u
    using that core_inv [OF broadcast_core, of m u]
    by (auto simp: advances_def broadcastMessageToPeers_def pos_def)
  show ?thesis
    using e inv defaultSetProposal_advances [OF inv bound] addVote_advances [OF inv new bound]
    by (auto simp: handleMsg_def tryAddVote_def andThen_eq_Inr stays_advances stays_refl
        intro!: relay split: message.splits prod.splits)
qed

lemma handleTimeout_stays:
  assumes inv: "cs_inv cs" and new: "new_proposal_ok N" and ok: "tick_ok (pos cs) ti"
    and e: "handleTimeout N ti (GetRoundState cs) cs = Inr t"
  shows "stays cs t"
proof -
  have st: "ti_Step ti \<in> {RoundStepNewHeight, RoundStepPropose, RoundStepPrevoteWait, RoundStepPrecommitWait}"
    using ok by (simp add: tick_ok_def)
  have r: "ti_Round ti \<le> Round cs" if "ti_Height ti = Height cs" using ok that by (auto simp: tick_ok_def pos_def)
  show ?thesis
    using e st
  proof (cases rule: handleTimeout_cases)
    case (precommitWait u)
    then have u: "stays cs u" using enterPrecommit_stays [OF inv r] by blast
    show ?thesis using u enterNewRound_stays [OF stays_inv [OF u] new precommitWait(4)] by (rule stays_trans)
  qed (use inv r stays_refl enterNewRound_stays [OF inv new] enterPrevote_stays [OF inv] enterPrecommit_stays [OF inv]
      in blast)+
qed

end

section \<open>Whole runs\<close>

text \<open>The invariant of the system adds that the timeouts the ticker can still deliver are the state
  machine's own.\<close>

definition system_inv :: "('val, 'vs, 'hvs, 'blk, 'bs, 'pv) system \<Rightarrow> bool" where
  "system_inv s \<longleftrightarrow> cs_inv (sys_cs s)
     \<and> (\<forall>ti\<in>ticker_held (sys_ticker s). tick_ok (pos (sys_cs s)) ti)"

lemma system_inv_core:
  "core cs = core (sys_cs s) \<Longrightarrow> system_inv s \<Longrightarrow> system_inv (s\<lparr>sys_cs := cs\<rparr>)"
  using core_inv [of cs "sys_cs s"] by (simp add: system_inv_def core_def)

text \<open>Stopping keeps the invariant, and no timer fires after it.\<close>

lemma OnStop_inv: "system_inv s \<Longrightarrow> system_inv (ConsensusState_OnStop running s)"
  by (auto simp: ConsensusState_OnStop_def system_inv_def ticker_held_def ticker_stopTimer_def)

lemma OnStop_silent:
  "receive_event E TickerFire (ConsensusState_OnStop True s) = Inr (ConsensusState_OnStop True s)"
  by (simp add: ConsensusState_OnStop_def ticker_stopTimer_def ticker_fire_def)

lemma system_inv_advances:
  "advances E (sys_cs s) cs \<Longrightarrow> system_inv s \<Longrightarrow> system_inv (s\<lparr>sys_cs := cs\<rparr>)"
  by (auto simp: system_inv_def advances_def intro: tick_ok_mono)

context consensus_node
begin

lemma receive_event_inv:
  assumes inv: "system_inv s" and new: "new_proposal_ok N" and bound: "Height (sys_cs s) + 1 \<noteq> 0"
    and e: "receive_event N ev s = Inr t"
  shows "system_inv t \<and> pos (sys_cs s) \<le> pos (sys_cs t)
    \<and> (chain_link N)\<^sup>*\<^sup>* (chainState (sys_cs s)) (chainState (sys_cs t))"
proof (cases ev)
  case (PeerMsg mi)
  then obtain cs where "handleMsg N mi (sys_cs s) = Inr cs" "t = s\<lparr>sys_cs := cs\<rparr>"
    using e by (auto simp: andThen_eq_Inr)
  then show ?thesis
    using handleMsg_advances [OF _ new bound] inv
    by (auto simp: system_inv_def advances_def intro: tick_ok_mono)
next
  case InternalMsg
  have c: "core ((sys_cs s)\<lparr>internalMsgQueue := q\<rparr>) = core (sys_cs s)" for q
    by (simp add: core_def pos_def)
  have i: "cs_inv ((sys_cs s)\<lparr>internalMsgQueue := q\<rparr>)" for q
    using core_inv [OF c] inv by (auto simp: system_inv_def)
  have "t = s \<or> (\<exists>mi q cs. handleMsg N mi ((sys_cs s)\<lparr>internalMsgQueue := q\<rparr>) = Inr cs \<and> t = s\<lparr>sys_cs := cs\<rparr>)"
    using e InternalMsg by (auto simp: andThen_eq_Inr split: list.splits)
  then show ?thesis
  proof (elim disjE exE conjE)
    fix mi q cs
    assume h: "handleMsg N mi ((sys_cs s)\<lparr>internalMsgQueue := q\<rparr>) = Inr cs" and t: "t = s\<lparr>sys_cs := cs\<rparr>"
    have "advances N (sys_cs s) cs"
      using bound by (intro core_advances_left [OF c handleMsg_advances [OF i new _ h]]) simp
    then show ?thesis
      using system_inv_advances inv unfolding t by (auto simp: advances_def)
  qed (use inv in auto)
next
  case (OverflowSend k)
  then show ?thesis
    using e inv
    by (auto simp: core_def pos_def intro!: system_inv_core split: option.splits if_splits)
next
  case TickerTick
  then show ?thesis
  proof (cases "tickChan (sys_cs s)")
    case (Cons ti tis)
    let ?cs = "(sys_cs s)\<lparr>tickChan := tis\<rparr>"
    have t: "t = s\<lparr>sys_cs := ?cs, sys_ticker := ticker_tick ti (sys_ticker s)\<rparr>"
      using e TickerTick Cons by simp
    have p: "pos ?cs = pos (sys_cs s)" by (simp add: pos_def)
    have ok: "tick_ok (pos (sys_cs s)) ti"
      using inv Cons by (simp add: system_inv_def cs_inv_def ticks_ok_def)
    have "cs_inv ?cs"
      using inv Cons p by (auto simp: system_inv_def cs_inv_def step_ok_def votes_ok_def
          proposals_ok_def ticks_ok_def chain_ok_def)
    moreover have "\<forall>x\<in>ticker_held (ticker_tick ti (sys_ticker s)). tick_ok (pos (sys_cs s)) x"
      using inv ok by (intro default_ticker.schedule_all) (simp_all add: system_inv_def)
    ultimately show ?thesis unfolding t system_inv_def by (simp add: p)
  qed (use e inv in auto)
next
  case TickerFire
  then show ?thesis
    using e inv default_ticker.fire_all [of "sys_ticker s" "tick_ok (pos (sys_cs s))"]
    by (auto simp: system_inv_def)
next
  case (Tock k)
  then show ?thesis
  proof (cases "take_nth k (tt_tockChan (sys_ticker s))")
    case (Some p)
    obtain ti tis where p: "p = (ti, tis)" by fastforce
    obtain cs where h: "handleTimeout N ti (GetRoundState (sys_cs s)) (sys_cs s) = Inr cs"
      and t: "t = s\<lparr>sys_cs := cs, sys_ticker := (sys_ticker s)\<lparr>tt_tockChan := tis\<rparr>\<rparr>"
      using e Tock Some p by (auto simp: andThen_eq_Inr)
    have m: "ti \<in> ticker_held (sys_ticker s)"
      "ticker_held ((sys_ticker s)\<lparr>tt_tockChan := tis\<rparr>) \<subseteq> ticker_held (sys_ticker s)"
      using take_nth_set [OF Some [unfolded p]] by (auto simp: ticker_held_def)
    then have "stays (sys_cs s) cs"
      using inv by (intro handleTimeout_stays [OF _ new _ h]) (auto simp: system_inv_def)
    then show ?thesis
      using m inv unfolding t by (auto simp: system_inv_def stays_def intro: tick_ok_mono)
  qed (use e inv in auto)
next
  case SyncTimer
  then show ?thesis
    using e inv by (auto simp: andThen_eq_Inr intro!: system_inv_core)
      (simp_all add: broadcastMessageToPeers_def pos_def)
next
  case (SyncRequest req)
  then show ?thesis using e inv by (auto simp: andThen_eq_Inr system_inv_def)
next
  case (CommittedBlock block)
  then obtain cs where "processCommitedBlock N block (sys_cs s) = Inr cs" "t = s\<lparr>sys_cs := cs\<rparr>"
    using e by (auto simp: andThen_eq_Inr)
  then show ?thesis
    using processCommitedBlock_advances [OF _ new bound] inv
    by (auto simp: system_inv_def advances_def intro: tick_ok_mono)
qed

end

end
