(* ===== verification/Sample_Run.thy ===== *)
theory Sample_Run
  imports CS_Run
begin

text \<open>
  A concrete run for the witnesses: one validator with the address 5, wired as \<open>runNode\<close> does with
  the default executor and store, starts from a genesis state, proposes block 1, prevotes and
  precommits it and commits it. The run is evaluated step by step by the simplifier.
\<close>

section \<open>The node\<close>

definition sample_block_db :: "(bytes \<Rightarrow> bytes option, sample_blk) db_ext" where
  "sample_block_db =
     \<lparr>db_Get = (\<lambda>db. db),
      db_Put = (\<lambda>k v db. (True, db(k \<mapsto> v))),
      rlp_EncodeBlock = (\<lambda>b. Some (PutUint64 (word_of_int (h_Number (sb_header b))))),
      rlp_DecodeBlock = (\<lambda>bs. None),
      rlp_EncodeCommit = (\<lambda>c. Some []),
      rlp_DecodeCommit = (\<lambda>bs. None)\<rparr>"

definition sample_config :: config where
  "sample_config = \<lparr>TimeoutPropose = 3, TimeoutPrevote = 1, TimeoutPrecommit = 1, TimeoutCommit = 1,
     SkipTimeoutCommit = False, DoubleSignCheckHeight = 0, ConsensusSyncRequestDuration = 1\<rparr>"

definition sample_node where
  "sample_node = default_node sample_ext sample_block_db"

definition sample_genesis :: "validator list chain_state" where
  "sample_genesis = MakeGenesisChainState sample_ext ''test'' 1000 [5] [10] 100 1"

definition sample_key :: priv_validator_local where
  "sample_key = NewPrivValidatorLocal [5]"

section \<open>Executable runs\<close>

text \<open>A run of events that stays below the last height, and the state it reaches.\<close>

fun bounded_run ::
  "('val, 'vs, 'hvs, 'blk, 'bs, 'pv) node \<Rightarrow> 'blk event list
     \<Rightarrow> ('val, 'vs, 'hvs, 'blk, 'bs, 'pv) system \<Rightarrow> ('val, 'vs, 'hvs, 'blk, 'bs, 'pv) system option" where
  "bounded_run E [] s = Some s"
| "bounded_run E (ev # evs) s =
     (if Height (sys_cs s) + 1 = 0 then None
      else case receive_event E ev s of Inl p \<Rightarrow> None | Inr t \<Rightarrow> bounded_run E evs t)"

lemma bounded_run_reachable:
  "bounded_run E evs s = Some t \<Longrightarrow> reachable E cfg state store pv s \<Longrightarrow> reachable E cfg state store pv t"
  by (induction E evs s rule: bounded_run.induct)
    (auto split: if_splits sum.splits intro: reachable_step system_event)

text \<open>\<open>receiveRoutine\<close> without a step limit is such a run.\<close>

lemma bounded_run_receiveRoutine:
  "bounded_run E evs s = Some t \<Longrightarrow> receiveRoutine E 0 evs s = Inr t"
  by (induction E evs s rule: bounded_run.induct) (auto split: if_splits sum.splits)

definition sample_run where
  "sample_run evs =
     (case start_node sample_node sample_config sample_genesis Map.empty (Some sample_key) of
        Inr (None, s) \<Rightarrow> bounded_run sample_node evs s
      | _ \<Rightarrow> None)"

lemma sample_run_reachable:
  assumes "sample_run evs = Some s"
  shows "reachable sample_node sample_config sample_genesis Map.empty (Some sample_key) s"
  using assms bounded_run_reachable reachable_start
  by (fastforce simp: sample_run_def split: sum.splits prod.splits option.splits)

lemma bounded_run_last:
  "bounded_run E (evs @ [ev]) s = Some t \<Longrightarrow> \<exists>u. bounded_run E evs s = Some u \<and> system_step E u t"
  by (induction E evs s rule: bounded_run.induct) (auto split: if_splits sum.splits intro: system_event)

lemma sample_run_last:
  assumes "sample_run (evs @ [ev]) = Some t"
  shows "\<exists>s. sample_run evs = Some s \<and> system_step sample_node s t"
  using assms bounded_run_last
  by (fastforce simp: sample_run_def split: sum.splits prod.splits option.splits)

section \<open>Evaluation\<close>

text \<open>Call by value: the arguments of a binding are evaluated before its body.\<close>

lemma andThen_weak_cong: "m = m' \<Longrightarrow> andThen m f = andThen m' f"
  by simp

lemmas eval_cong = andThen_weak_cong if_weak_cong let_weak_cong option.case_cong_weak
  prod.case_cong_weak sum.case_cong_weak list.case_cong_weak

lemmas state_machine_defs =
  start_node_def NewConsensusState_def MakeGenesisChainState_def zero_consensus_state_def
  zero_chain_state_def updateToState_def updateToState_check_def updateToState_lastCommit_def
  updateToState_reset_def ChainState_IsEmpty_def machine_defs CanonicalNow_def next_height_def
  SetPrivValidator_def updatePrivValidatorPubKey_def ConsensusState_OnStart_def
  checkDoubleSigningRisk_def scheduleRound0_def GetRoundState_def round_state.defs Let_def
  Canonical_def handleTimeout_def enterNewRound_def enterPropose_def enterPropose_body_def
  isProposer_def defaultDecideProposal_def createProposalBlock_def isProposalComplete_def
  handleMsg_def defaultSetProposal_def setProposal_valid_def setProposal_step_def
  enterPrevote_def defaultDoPrevote_def signAddVote_def signVote_def voteTime_def
  CanonicalNowMs_def tryAddVote_def tryAddVote_result_def addVote_def addVote_prevote_def
  addVote_polka_def enterPrecommit_def enterPrecommit_body_def enterPrevoteWait_def
  enterPrecommitWait_def addVote_precommit_def enterCommit_def enterCommit_body_def
  tryFinalizeCommit_def finalizeCommit_def saveBlock_def applyBlock_def msgQueueSize_def
  ticker_tick_def ticker_fire_def ticker_stopTimer_def NewTimeoutTicker_def zero_timeout_def
  tick_ignored_def take_nth_def SafeAddInt32_def

lemmas library_defs =
  PrivValidatorLocal_GetPubKey_def PrivValidatorLocal_Address_def NewPrivValidatorLocal_def
  PrivValidatorLocal_SignVote_def PrivValidatorLocal_SignProposal_def sign_result_def
  DefaultBlockExecutor_ApplyBlock_def DefaultBlockExecutor_MakeBlock_def ChainState_MakeBlock_def
  validateBlock_def validateBlock_header_def validateBlock_time_def updateState_def
  BlockStore_Height_def BlockStore_SaveBlock_def BlockStore_LoadBlock_def ChainState_Copy_def
  UnixMilli_def to_u64_def i64_of_u64_def i32_def MaxInt32_def

lemmas sample_run_defs =
  sample_run_def sample_genesis_def sample_config_def sample_key_def sample_node_def
  default_node_def ext.defs sample_defs sample_block_db_def

text \<open>The node proposes and prevotes.\<close>

lemma sample_prevoted:
  "\<exists>s. sample_run [TickerTick, TickerFire, Tock 0, InternalMsg] = Some s
     \<and> Height (sys_cs s) = 1 \<and> Round (sys_cs s) = 0 \<and> Step (sys_cs s) = RoundStepPrevote
     \<and> map v_Type (signedVotes (sys_cs s)) = [PrevoteType]
     \<and> length (signedProposals (sys_cs s)) = 1"
  by (simp add: sample_run_defs state_machine_defs library_defs cong: eval_cong)

text \<open>It precommits and commits block 1.\<close>

lemma sample_committed:
  "\<exists>s. sample_run [TickerTick, TickerFire, Tock 0, InternalMsg, InternalMsg, InternalMsg] = Some s
     \<and> Height (sys_cs s) = 2 \<and> Round (sys_cs s) = 0 \<and> Step (sys_cs s) = RoundStepNewHeight
     \<and> map v_Type (signedVotes (sys_cs s)) = [PrevoteType, PrecommitType]
     \<and> length (signedProposals (sys_cs s)) = 1
     \<and> st_LastBlockHeight (chainState (sys_cs s)) = 1"
  by (simp add: sample_run_defs state_machine_defs library_defs cong: eval_cong)

end
