(* ===== verification/CS_Properties.thy ===== *)
theory CS_Properties
  imports CS_Safety Sample_Run
begin

text \<open>
  The safety properties of a node wired as \<open>cmd/main/node.go\<close> wires it (\<open>default_node\<close>), over every
  state it can reach, whatever its peers, its timers and its scheduler do.
\<close>

section \<open>The start satisfies the invariant\<close>

text \<open>A chain state a node can start from: heights count from 1 and have not wrapped around.\<close>

definition startable :: "'val chain_state \<Rightarrow> bool" where
  "startable state \<longleftrightarrow> st_InitialHeight state \<noteq> 0 \<and> st_LastBlockHeight state + 1 \<noteq> 0"

lemma NewConsensusState_reset:
  assumes "NewConsensusState E cfg state store = Inr cs"
  shows "\<exists>lc. cs = updateToState_reset E state ((zero_consensus_state cfg store)\<lparr>LastCommit := lc\<rparr>)"
proof -
  let ?z = "zero_consensus_state cfg store"
  have "\<exists>lc. updateToState E state (?z\<lparr>LastCommit := lc\<rparr>) = Inr cs"
  proof (cases "st_LastBlockHeight state > 0")
    case True
    then show ?thesis
      using assms
      by (auto simp: NewConsensusState_def reconstructLastCommit_def andThen_eq_Inr Let_def split: if_splits)
  next
    case False
    have "?z\<lparr>LastCommit := None\<rparr> = ?z" by (simp add: zero_consensus_state_def)
    then show ?thesis using assms False by (metis NewConsensusState_def andThen.simps(2) Let_def)
  qed
  then show ?thesis
    by (auto simp: updateToState_def andThen_eq_Inr zero_consensus_state_def zero_chain_state_def
        ChainState_IsEmpty_def)
qed

lemma NewConsensusState_inv:
  assumes "startable state" and "NewConsensusState E cfg state store = Inr cs"
  shows "cs_inv cs"
  using NewConsensusState_reset [OF assms(2)] assms(1)
  by (auto simp: updateToState_reset_fields inv_defs startable_def next_height_eq zero_consensus_state_def)

lemma ticker_held_new [simp]: "ticker_held NewTimeoutTicker = {}"
  by (simp add: ticker_held_def NewTimeoutTicker_def ticker_stopTimer_def)

context consensus_node
begin

lemma start_node_inv:
  assumes "startable state" and "start_node N cfg state store pv = Inr (None, s)"
  shows "system_inv s"
proof -
  obtain cs u where cs: "NewConsensusState N cfg state store = Inr cs"
    and u: "u = SetPrivValidator N pv cs" and s: "sys_cs s = scheduleRound0 N (GetRoundState u) u"
    "sys_ticker s = NewTimeoutTicker"
    using assms(2)
    by (auto simp: start_node_def ConsensusState_OnStart_def andThen_eq_Inr split: option.splits)
  have "cs_inv u" using NewConsensusState_inv [OF assms(1) cs] core_inv [of u cs] u by simp
  then have "cs_inv (sys_cs s)" unfolding s by (rule stays_inv [OF scheduleRound0_stays])
  then show ?thesis by (simp add: system_inv_def s)
qed

lemma reachable_inv:
  assumes "startable state" and "new_proposal_ok N" and "reachable N cfg state store pv s"
  shows "system_inv s"
  using assms(3)
proof (induction rule: reachable.induct)
  case (reachable_start s)
  then show ?case by (rule start_node_inv [OF assms(1)])
next
  case (reachable_step s t)
  then show ?case using receive_event_inv [OF _ assms(2)] by (blast elim: system_stepE)
qed

end

lemma default_new_proposal_ok [simp]: "new_proposal_ok (default_node E D) = new_proposal_ok E"
  by (simp add: new_proposal_ok_def default_node_def ext.defs)

section \<open>Facts about reachable states, for the node of the repository\<close>

lemma default_reachable_inv:
  assumes "startable state" and "new_proposal_ok E" and "reachable (default_node E D) cfg state store pv s"
  shows "system_inv s"
  using assms by (intro default_consensus.reachable_inv [of state E D cfg store pv s]) simp_all

lemma default_step:
  assumes "system_inv s" and "new_proposal_ok E" and "system_step (default_node E D) s t"
  shows "pos (sys_cs s) \<le> pos (sys_cs t)
    \<and> (chain_link (default_node E D))\<^sup>*\<^sup>* (chainState (sys_cs s)) (chainState (sys_cs t))"
  using assms(3)
proof (cases rule: system_step.cases)
  case (system_event ev)
  then show ?thesis
    using default_consensus.receive_event_inv [of s E D ev t] assms(1,2) by simp
qed

lemma start_node_chainState:
  assumes "start_node E cfg state store pv = Inr (None, s)"
  shows "chainState (sys_cs s) = state"
proof -
  obtain cs u where cs: "NewConsensusState E cfg state store = Inr cs"
    and u: "u = SetPrivValidator E pv cs" "sys_cs s = scheduleRound0 E (GetRoundState u) u"
    using assms
    by (auto simp: start_node_def ConsensusState_OnStart_def andThen_eq_Inr split: option.splits)
  obtain z where "cs = updateToState_reset E state z"
    using NewConsensusState_reset [OF cs] by blast
  then have "chainState u = state"
    using u SetPrivValidator_core [of E pv cs] by (simp add: core_def updateToState_reset_fields)
  then show ?thesis by (simp add: u(2) scheduleRound0_def CanonicalNow_def machine_defs)
qed

lemma default_reachable_chain:
  assumes "startable state" and "new_proposal_ok E"
    and "reachable (default_node E D) cfg state store pv s"
  shows "(chain_link (default_node E D))\<^sup>*\<^sup>* state (chainState (sys_cs s))"
  using assms(3)
proof (induction rule: reachable.induct)
  case (reachable_start s)
  then show ?case by (simp add: start_node_chainState)
next
  case (reachable_step s t)
  have "(chain_link (default_node E D))\<^sup>*\<^sup>* (chainState (sys_cs s)) (chainState (sys_cs t))"
    by (rule default_step [OF default_reachable_inv [OF assms(1,2) reachable_step(1)] assms(2)
          reachable_step(2), THEN conjunct2])
  with reachable_step(3) show ?case by (rule rtranclp_trans)
qed

lemma sample_hypotheses:
  "startable sample_genesis" "new_proposal_ok sample_ext"
  by (simp_all add: startable_def sample_genesis_def MakeGenesisChainState_def new_proposal_ok_def
      sample_ext_def)

text \<open>The two sample states, as reachable states.\<close>

lemma sample_prevoted_reachable:
  "\<exists>s. reachable (default_node sample_ext sample_block_db) sample_config sample_genesis
      Map.empty (Some sample_key) s
    \<and> map v_Type (signedVotes (sys_cs s)) = [PrevoteType]
    \<and> length (signedProposals (sys_cs s)) = 1"
  using sample_prevoted
proof (elim exE conjE, intro exI conjI)
  fix s
  assume "sample_run [TickerTick, TickerFire, Tock 0, InternalMsg] = Some s"
  from sample_run_reachable [OF this]
  show "reachable (default_node sample_ext sample_block_db) sample_config sample_genesis
      Map.empty (Some sample_key) s"
    by (simp only: sample_node_def)
qed

lemma sample_committed_reachable:
  "\<exists>s. reachable (default_node sample_ext sample_block_db) sample_config sample_genesis
      Map.empty (Some sample_key) s
    \<and> map v_Type (signedVotes (sys_cs s)) = [PrevoteType, PrecommitType]
    \<and> st_LastBlockHeight (chainState (sys_cs s)) = 1"
  using sample_committed
proof (elim exE conjE, intro exI conjI)
  fix s
  assume "sample_run [TickerTick, TickerFire, Tock 0, InternalMsg, InternalMsg, InternalMsg] = Some s"
  from sample_run_reachable [OF this]
  show "reachable (default_node sample_ext sample_block_db) sample_config sample_genesis
      Map.empty (Some sample_key) s"
    by (simp only: sample_node_def)
qed

section \<open>Properties\<close>

text \<open>C3. No double signing. In every state a node can reach since it was started, whatever its
  peers send, in whatever order messages, timeouts, sync requests and committed blocks come, it has
  signed at most one vote for each height, round and vote type.\<close>

theorem no_double_signing:
  assumes "startable state" and "new_proposal_ok E"
    and "reachable (default_node E D) cfg state store pv s"
  shows "distinct (map (\<lambda>v. (v_Height v, v_Round v, v_Type v)) (signedVotes (sys_cs s)))"
  using default_reachable_inv [OF assms]
  by (simp add: system_inv_def cs_inv_def votes_ok_def vote_key_def [abs_def])

theorem no_double_signing_witness:
  "\<exists>s. reachable (default_node sample_ext sample_block_db) sample_config sample_genesis Map.empty
         (Some sample_key) s
     \<and> map v_Type (signedVotes (sys_cs s)) = [PrevoteType, PrecommitType]
     \<and> distinct (map (\<lambda>v. (v_Height v, v_Round v, v_Type v)) (signedVotes (sys_cs s)))"
  using sample_committed_reachable
proof (elim exE conjE, intro exI conjI)
  fix s assume "reachable (default_node sample_ext sample_block_db) sample_config sample_genesis
      Map.empty (Some sample_key) s"
  then show "distinct (map (\<lambda>v. (v_Height v, v_Round v, v_Type v)) (signedVotes (sys_cs s)))"
    by (rule no_double_signing [OF sample_hypotheses])
qed

text \<open>C17. A node signs at most one proposal for each height and round.\<close>

theorem no_double_proposal:
  assumes "startable state" and "new_proposal_ok E"
    and "reachable (default_node E D) cfg state store pv s"
  shows "distinct (map (\<lambda>p. (p_Height p, p_Round p)) (signedProposals (sys_cs s)))"
  using default_reachable_inv [OF assms]
  by (simp add: system_inv_def cs_inv_def proposals_ok_def proposal_key_def [abs_def])

theorem no_double_proposal_witness:
  "\<exists>s. reachable (default_node sample_ext sample_block_db) sample_config sample_genesis Map.empty
         (Some sample_key) s
     \<and> length (signedProposals (sys_cs s)) = 1
     \<and> distinct (map (\<lambda>p. (p_Height p, p_Round p)) (signedProposals (sys_cs s)))"
  using sample_prevoted_reachable
proof (elim exE conjE, intro exI conjI)
  fix s assume "reachable (default_node sample_ext sample_block_db) sample_config sample_genesis
      Map.empty (Some sample_key) s"
  then show "distinct (map (\<lambda>p. (p_Height p, p_Round p)) (signedProposals (sys_cs s)))"
    by (rule no_double_proposal [OF sample_hypotheses])
qed

text \<open>C18. Height, round and step, in lexicographic order, never go back in any step of a node.\<close>

theorem position_never_goes_back:
  assumes "startable state" and "new_proposal_ok E"
    and "reachable (default_node E D) cfg state store pv s" and "system_step (default_node E D) s t"
  shows "(Height (sys_cs s), Round (sys_cs s), Step (sys_cs s))
    \<le> (Height (sys_cs t), Round (sys_cs t), Step (sys_cs t))"
  using default_step [OF default_reachable_inv [OF assms(1-3)] assms(2,4)] by (simp add: pos_def)

theorem position_never_goes_back_witness:
  "\<exists>s t. system_step (default_node sample_ext sample_block_db) s t \<and> Step (sys_cs t) = RoundStepPrevote
     \<and> (Height (sys_cs s), Round (sys_cs s), Step (sys_cs s)) \<le> (1, 0, RoundStepPrevote)"
proof -
  obtain t where t: "sample_run ([TickerTick, TickerFire, Tock 0] @ [InternalMsg]) = Some t"
    and p: "Height (sys_cs t) = 1" "Round (sys_cs t) = 0" "Step (sys_cs t) = RoundStepPrevote"
    using sample_prevoted by (elim exE conjE) (simp only: append.simps)
  from sample_run_last [OF t] obtain s where s: "sample_run [TickerTick, TickerFire, Tock 0] = Some s"
    and st: "system_step (default_node sample_ext sample_block_db) s t"
    unfolding sample_node_def by (elim exE conjE)
  show ?thesis
    using position_never_goes_back [OF sample_hypotheses sample_run_reachable [OF s, unfolded sample_node_def] st] p st
    by (intro exI [of _ s] exI [of _ t]) simp
qed

text \<open>C4. The chain of a node is built of valid blocks only: from the chain state it was started
  with to its current one there is a sequence of blocks, each accepted by \<open>validateBlock\<close> on the
  chain state before it and applied to a copy of that state; and the height a node works on is the
  one that follows its chain state.\<close>

theorem chain_of_valid_blocks:
  assumes "startable state" and "new_proposal_ok E"
    and "reachable (default_node E D) cfg state store pv s"
  shows "(\<lambda>st st'. \<exists>block. validateBlock E st block = Inr None
      \<and> DefaultBlockExecutor_ApplyBlock E (ChainState_Copy E st) block = Inr (Inr st'))\<^sup>*\<^sup>*
        state (chainState (sys_cs s))
    \<and> Height (sys_cs s) = next_height (chainState (sys_cs s))"
proof -
  have "(chain_link (default_node E D))\<^sup>*\<^sup>* state (chainState (sys_cs s))"
    by (rule default_reachable_chain [OF assms])
  moreover have "chain_link (default_node E D) = (\<lambda>st st'. \<exists>block. validateBlock E st block = Inr None
      \<and> DefaultBlockExecutor_ApplyBlock E (ChainState_Copy E st) block = Inr (Inr st'))"
    by (auto simp: fun_eq_iff chain_link.simps default_node_def ext.defs ChainState_Copy_def)
  ultimately show ?thesis
    using default_reachable_inv [OF assms] by (simp add: system_inv_def cs_inv_def chain_ok_def)
qed

theorem chain_of_valid_blocks_witness:
  "\<exists>s. reachable (default_node sample_ext sample_block_db) sample_config sample_genesis Map.empty
         (Some sample_key) s
     \<and> st_LastBlockHeight (chainState (sys_cs s)) = 1
     \<and> (\<lambda>st st'. \<exists>block. validateBlock sample_ext st block = Inr None
          \<and> DefaultBlockExecutor_ApplyBlock sample_ext (ChainState_Copy sample_ext st) block = Inr (Inr st'))\<^sup>*\<^sup>*
        sample_genesis (chainState (sys_cs s))"
  using sample_committed_reachable
proof (elim exE conjE, intro exI conjI)
  fix s assume "reachable (default_node sample_ext sample_block_db) sample_config sample_genesis
      Map.empty (Some sample_key) s"
  then show "(\<lambda>st st'. \<exists>block. validateBlock sample_ext st block = Inr None
          \<and> DefaultBlockExecutor_ApplyBlock sample_ext (ChainState_Copy sample_ext st) block = Inr (Inr st'))\<^sup>*\<^sup>*
        sample_genesis (chainState (sys_cs s))"
    by (rule chain_of_valid_blocks [OF sample_hypotheses, THEN conjunct1])
qed

text \<open>C28. A node votes and asks for timeouts only for positions it has reached: each signed prevote
  belongs to a height, round and step \<open>Prevote\<close> not after the current ones, each precommit to a step
  \<open>Precommit\<close> not after, and every timeout its ticker can still deliver has a step \<open>handleTimeout\<close>
  has a case for and a height and round not after the current ones.\<close>

theorem votes_and_timeouts_behind:
  assumes "startable state" and "new_proposal_ok E"
    and "reachable (default_node E D) cfg state store pv s"
  shows "(\<forall>v\<in>set (signedVotes (sys_cs s)).
       (v_Height v, v_Round v, if v_Type v = PrevoteType then RoundStepPrevote else RoundStepPrecommit)
         \<le> (Height (sys_cs s), Round (sys_cs s), Step (sys_cs s)))
    \<and> (\<forall>ti\<in>ticker_held (sys_ticker s).
       ti_Step ti \<in> {RoundStepNewHeight, RoundStepPropose, RoundStepPrevoteWait, RoundStepPrecommitWait}
       \<and> (ti_Height ti, ti_Round ti) \<le> (Height (sys_cs s), Round (sys_cs s)))"
proof -
  have inv: "system_inv s" by (rule default_reachable_inv [OF assms])
  let ?p = "\<lambda>v. (v_Height v, v_Round v, if v_Type v = PrevoteType then RoundStepPrevote else RoundStepPrecommit)"
  have le: "?p v \<le> vote_pos v" for v
    by (cases "v_Type v") (simp_all add: vote_pos_def)
  have "?p v \<le> pos (sys_cs s)" if "v \<in> set (signedVotes (sys_cs s))" for v
    using inv that by (intro order_trans [OF le]) (simp add: system_inv_def cs_inv_def votes_ok_def)
  moreover have "(ti_Height ti, ti_Round ti) \<le> (Height (sys_cs s), Round (sys_cs s))
      \<and> ti_Step ti \<in> {RoundStepNewHeight, RoundStepPropose, RoundStepPrevoteWait, RoundStepPrecommitWait}"
    if "ti \<in> ticker_held (sys_ticker s)" for ti
    using inv that by (auto simp: system_inv_def tick_ok_def pos_def)
  ultimately show ?thesis by (simp add: pos_def)
qed

theorem votes_and_timeouts_behind_witness:
  "\<exists>s. reachable (default_node sample_ext sample_block_db) sample_config sample_genesis Map.empty
         (Some sample_key) s
     \<and> map v_Type (signedVotes (sys_cs s)) = [PrevoteType, PrecommitType]
     \<and> (\<forall>v\<in>set (signedVotes (sys_cs s)).
       (v_Height v, v_Round v, if v_Type v = PrevoteType then RoundStepPrevote else RoundStepPrecommit)
         \<le> (Height (sys_cs s), Round (sys_cs s), Step (sys_cs s)))"
  using sample_committed_reachable
proof (elim exE conjE, intro exI conjI)
  fix s assume "reachable (default_node sample_ext sample_block_db) sample_config sample_genesis
      Map.empty (Some sample_key) s"
  then show "\<forall>v\<in>set (signedVotes (sys_cs s)).
       (v_Height v, v_Round v, if v_Type v = PrevoteType then RoundStepPrevote else RoundStepPrecommit)
         \<le> (Height (sys_cs s), Round (sys_cs s), Step (sys_cs s))"
    by (rule votes_and_timeouts_behind [OF sample_hypotheses, THEN conjunct1])
qed

end
