(* ===== verification/CS_Rules.thy ===== *)
theory CS_Rules
  imports CS_Properties
begin

text \<open>
  The voting rules of the protocol, handler by handler: what a prevote and a precommit are for, when
  a lock is taken and released, which block is committed and why, what the state is at a new height,
  and when the start is refused for fear of signing twice.
\<close>

section \<open>The votes of one handler\<close>

text \<open>The votes a handler signed.\<close>

definition new_votes ::
  "('val, 'vs, 'hvs, 'blk, 'bs, 'pv) consensus_state
     \<Rightarrow> ('val, 'vs, 'hvs, 'blk, 'bs, 'pv) consensus_state \<Rightarrow> vote list" where
  "new_votes cs t = drop (length (signedVotes cs)) (signedVotes t)"

lemma new_votes_same [simp]: "signedVotes t = signedVotes cs \<Longrightarrow> new_votes cs t = []"
  by (simp add: new_votes_def)

lemma signed_one_new_votes:
  assumes "signed_one T h cs t" and "signedVotes u = signedVotes t"
  shows "\<forall>v\<in>set (new_votes cs u). vote_key v = (Height cs, Round cs, T) \<and> v_BlockID v = h"
  using assms by (auto simp: signed_one_def new_votes_def)

text \<open>Signing leaves the lock, the valid block and the proposal alone.\<close>

definition locks ::
  "('val, 'vs, 'hvs, 'blk, 'bs, 'pv) consensus_state
     \<Rightarrow> (int \<times> 'blk option) \<times> (int \<times> 'blk option) \<times> 'blk proposal option \<times> 'blk option" where
  "locks cs = ((LockedRound cs, LockedBlock cs), (ValidRound cs, ValidBlock cs), Proposal cs, ProposalBlock cs)"

lemma voteTime_locks: "voteTime E cs = (tm, t) \<Longrightarrow> locks t = locks cs"
  by (auto simp: voteTime_def CanonicalNowMs_def Let_def locks_def)

lemma signVote_locks: "signVote E pv T h cs = (r, t) \<Longrightarrow> locks t = locks cs"
proof (cases "privValidatorPubKey cs")
  case (Some k)
  assume s: "signVote E pv T h cs = (r, t)"
  obtain tm u where u: "voteTime E cs = (tm, u)" by fastforce
  obtain l c where "t = u\<lparr>cs_clock := c, signedVotes := l\<rparr>"
    using s Some u
    by (fastforce simp: signVote_def CanonicalNow_def Let_def case_prod_beta split: option.splits prod.splits)
  then show ?thesis using voteTime_locks [OF u] by (simp add: locks_def)
qed (simp add: signVote_def)

lemma signAddVote_locks [frame]: "locks (signAddVote E T h cs) = locks cs"
proof -
  have send: "locks (sendInternalMessage mi t) = locks t" for mi t
    by (simp add: sendInternalMessage_def locks_def)
  show ?thesis
    by (auto simp: signAddVote_def send dest: signVote_locks split: option.split sum.split prod.split)
qed

lemma locks_fields:
  assumes "locks t = locks cs"
  shows "LockedRound t = LockedRound cs" "LockedBlock t = LockedBlock cs"
    "ValidRound t = ValidRound cs" "ValidBlock t = ValidBlock cs"
    "Proposal t = Proposal cs" "ProposalBlock t = ProposalBlock cs"
  using assms by (simp_all add: locks_def)

lemmas signAddVote_lock = signAddVote_locks [THEN locks_fields(1)] signAddVote_locks [THEN locks_fields(2)]

context consensus_node
begin

lemma prevote_of:
  assumes "enterPrevote N height round cs = Inr t"
  shows "\<forall>v\<in>set (new_votes cs t). vote_key v = (Height cs, Round cs, PrevoteType)
    \<and> v_BlockID v =
        (case LockedBlock cs of
           Some b \<Rightarrow> blk_Hash N b
         | None \<Rightarrow>
             (case ProposalBlock cs of
                Some b \<Rightarrow> if be_ValidateBlock N (chainState cs) b = Inr None then blk_Hash N b else 0
              | None \<Rightarrow> 0))"
  (is "\<forall>v\<in>_. _ \<and> v_BlockID v = ?h")
proof (cases "t = cs")
  case False
  then obtain u where "defaultDoPrevote N height round cs = Inr u" "signedVotes t = signedVotes u"
    using assms by (auto simp: enterPrevote_def andThen_eq_Inr machine_defs split: if_splits)
  moreover from this have "u = signAddVote N PrevoteType ?h cs"
    by (cases "LockedBlock cs"; cases "ProposalBlock cs")
      (auto simp: defaultDoPrevote_def andThen_eq_Inr split: option.splits)
  ultimately have "signed_one PrevoteType ?h cs u" "signedVotes t = signedVotes u"
    using signAddVote_one [of PrevoteType ?h cs] by simp_all
  then show ?thesis by (rule signed_one_new_votes)
qed simp

lemma precommit_body_of:
  assumes "enterPrecommit_body N height round cs = Inr t"
  shows "\<forall>v\<in>set (new_votes cs t). vote_key v = (Height cs, Round cs, PrecommitType)
    \<and> (v_BlockID v \<noteq> 0 \<longrightarrow>
         vs_TwoThirdsMajority N (hvs_Prevotes N (Votes cs) round) = (v_BlockID v, True)
         \<and> LockedRound t = round \<and> blk_HashTo N (LockedBlock t) (v_BlockID v)
         \<and> (LockedBlock t = LockedBlock cs
            \<or> (\<exists>b. LockedBlock t = Some b \<and> ProposalBlock cs = Some b
                \<and> be_ValidateBlock N (chainState cs) b = Inr None)))"
proof -
  obtain h ok where m: "vs_TwoThirdsMajority N (hvs_Prevotes N (Votes cs) round) = (h, ok)" by fastforce
  have one: "\<forall>v\<in>set (new_votes cs (signAddVote N PrecommitType b u)).
      vote_key v = (Height cs, Round cs, PrecommitType) \<and> v_BlockID v = b"
    if "signedVotes u = signedVotes cs" "Height u = Height cs" "Round u = Round cs" for b u
    using signed_one_new_votes [OF signAddVote_one [of PrecommitType b u] refl] that
    by (simp add: new_votes_def)
  consider (nil) u where "t = signAddVote N PrecommitType 0 u" "signedVotes u = signedVotes cs"
      "Height u = Height cs" "Round u = Round cs"
    | (relock) "t = signAddVote N PrecommitType h (cs\<lparr>LockedRound := round\<rparr>)" "ok"
      "blk_HashTo N (LockedBlock cs) h"
    | (lock) b where "t = signAddVote N PrecommitType h
          (cs\<lparr>LockedRound := round, LockedBlock := ProposalBlock cs\<rparr>)" "ok"
      "blk_HashTo N (ProposalBlock cs) h" "ProposalBlock cs = Some b"
      "be_ValidateBlock N (chainState cs) b = Inr None"
    using assms m unfolding enterPrecommit_body_def
    by (auto simp: andThen_eq_Inr deref_eq_Inr Let_def split: if_splits option.splits)
  then show ?thesis
  proof cases
    case nil
    then show ?thesis using one [of u 0] by auto
  next
    case relock
    then show ?thesis using one [of "cs\<lparr>LockedRound := round\<rparr>" h] m by (auto simp: signAddVote_lock)
  next
    case lock
    then show ?thesis
      using one [of "cs\<lparr>LockedRound := round, LockedBlock := ProposalBlock cs\<rparr>" h] m
      by (auto simp: signAddVote_lock)
  qed
qed

lemma precommit_of:
  assumes "enterPrecommit N height round cs = Inr t"
  shows "\<forall>v\<in>set (new_votes cs t). vote_key v = (Height cs, Round cs, PrecommitType)
    \<and> (v_BlockID v \<noteq> 0 \<longrightarrow>
         vs_TwoThirdsMajority N (hvs_Prevotes N (Votes cs) round) = (v_BlockID v, True)
         \<and> LockedRound t = round \<and> blk_HashTo N (LockedBlock t) (v_BlockID v)
         \<and> (LockedBlock t = LockedBlock cs
            \<or> (\<exists>b. LockedBlock t = Some b \<and> ProposalBlock cs = Some b
                \<and> be_ValidateBlock N (chainState cs) b = Inr None)))"
proof (cases "t = cs")
  case False
  then obtain u where u: "enterPrecommit_body N height round cs = Inr u"
    and t: "t = newStep (updateRoundStep round RoundStepPrecommit u)"
    using assms by (auto simp: enterPrecommit_def andThen_eq_Inr split: if_splits)
  have "new_votes cs t = new_votes cs u" "LockedRound t = LockedRound u" "LockedBlock t = LockedBlock u"
    by (simp_all add: t new_votes_def machine_defs)
  then show ?thesis using precommit_body_of [OF u] by simp
qed simp

end

section \<open>The node of the repository\<close>

lemma default_node_fields [simp]:
  "be_ValidateBlock (default_node E D) = validateBlock E"
  "be_ApplyBlock (default_node E D) = DefaultBlockExecutor_ApplyBlock E"
  "store_Height (default_node E D) = BlockStore_Height D"
  "store_SaveBlock (default_node E D) = BlockStore_SaveBlock D (blk_NumberU64 E)"
  "store_LoadBlock (default_node E D) = BlockStore_LoadBlock D"
  "store_LoadBlockCommit (default_node E D) = BlockStore_LoadBlockCommit D"
  "store_LoadSeenCommit (default_node E D) = BlockStore_LoadSeenCommit D"
  "blk_Hash (default_node E D) = blk_Hash E"
  "blk_HashTo (default_node E D) = blk_HashTo E"
  "blk_NumberU64 (default_node E D) = blk_NumberU64 E"
  "blk_HeaderCommit (default_node E D) = blk_HeaderCommit E"
  "blk_Commit (default_node E D) = blk_Commit E"
  "vs_TwoThirdsMajority (default_node E D) = vs_TwoThirdsMajority E"
  "vs_MakeCommit (default_node E D) = vs_MakeCommit E"
  "hvs_Prevotes (default_node E D) = hvs_Prevotes E"
  "hvs_Precommits (default_node E D) = hvs_Precommits E"
  "vals_VerifyCommit (default_node E D) = vals_VerifyCommit E"
  by (simp_all add: default_node_def ext.defs)

text \<open>A concrete state for the witnesses: the validator of the sample run at height 1, in the propose
  step, with a block proposed and, for some, prevoted.\<close>

definition sample_block :: sample_blk where
  "sample_block = \<lparr>sb_header = \<lparr>h_ParentHash = 0, h_Number = 1, h_Time = 1, h_TimeMs = 1000,
       h_Coinbase = 5, h_LastCommitHash = 0, h_Difficulty = 1, h_Extra = [], h_BaseFee = 0\<rparr>,
     sb_LastCommit = Some \<lparr>c_Height = 0, c_Round = 0, c_BlockID = 0, c_Signatures = []\<rparr>,
     sb_Commit = None\<rparr>"

definition sample_validators :: "validator list" where
  "sample_validators = [\<lparr>val_Address = 5, val_PubKey = [], val_VotingPower = 10\<rparr>]"

definition sample_vote :: "SignedMsgType \<Rightarrow> vote" where
  "sample_vote T = \<lparr>v_ValidatorAddress = 5, v_ValidatorIndex = 0, v_Height = 1, v_Round = 0,
     v_TimestampMs = 0, v_Type = T, v_BlockID = sample_hash sample_block, v_Signature = []\<rparr>"

definition sample_proposed ::
  "(validator list, sample_vs, sample_vs, sample_blk, bytes \<Rightarrow> bytes option, priv_validator_local)
     consensus_state" where
  "sample_proposed = (zero_consensus_state sample_config Map.empty)
     \<lparr>Height := 1, Step := RoundStepPropose, LockedRound := - 1, ValidRound := - 1,
      CommitRound := - 1, Validators := Some sample_validators,
      ProposalBlock := Some sample_block, chainState := sample_genesis,
      Votes := Some \<lparr>svs_vals = sample_validators, svs_votes = []\<rparr>,
      privValidator := Some sample_key, privValidatorPubKey := Some (EcdsaPubKey 5)\<rparr>"

definition sample_prevotes :: sample_vs where
  "sample_prevotes = \<lparr>svs_vals = sample_validators, svs_votes = [sample_vote PrevoteType]\<rparr>"

definition sample_precommits :: sample_vs where
  "sample_precommits = \<lparr>svs_vals = sample_validators, svs_votes = [sample_vote PrecommitType]\<rparr>"

lemmas sample_state_defs =
  sample_proposed_def sample_block_def sample_validators_def sample_vote_def sample_prevotes_def
  sample_precommits_def sample_run_defs state_machine_defs library_defs

section \<open>Properties: voting\<close>

text \<open>C7. What a node prevotes for: every vote that \<open>enterPrevote\<close> signs is a prevote for the height
  and round the node is in, for its locked block if it is locked, else for the proposal block if
  that passes validation, else for nil.\<close>

theorem prevote_rule:
  assumes "enterPrevote (default_node E D) height round cs = Inr t"
  shows "\<forall>v\<in>set (new_votes cs t).
      v_Height v = Height cs \<and> v_Round v = Round cs \<and> v_Type v = PrevoteType
      \<and> v_BlockID v =
          (case LockedBlock cs of
             Some b \<Rightarrow> blk_Hash E b
           | None \<Rightarrow>
               (case ProposalBlock cs of
                  Some b \<Rightarrow> if validateBlock E (chainState cs) b = Inr None then blk_Hash E b else 0
                | None \<Rightarrow> 0))"
  using default_consensus.prevote_of [OF assms, unfolded default_node_fields] by (simp add: vote_key_def)

theorem prevote_rule_witness:
  "\<exists>t. enterPrevote (default_node sample_ext sample_block_db) 1 0 sample_proposed = Inr t
     \<and> length (new_votes sample_proposed t) = 1
     \<and> (\<forall>v\<in>set (new_votes sample_proposed t). v_Type v = PrevoteType
          \<and> v_BlockID v = sample_hash sample_block)"
proof -
  obtain t where t: "enterPrevote (default_node sample_ext sample_block_db) 1 0 sample_proposed = Inr t"
    and l: "length (new_votes sample_proposed t) = 1"
    by (simp add: sample_state_defs new_votes_def cong: eval_cong)
  have "validateBlock sample_ext (chainState sample_proposed) sample_block = Inr None"
    "LockedBlock sample_proposed = None" "ProposalBlock sample_proposed = Some sample_block"
    "blk_Hash sample_ext sample_block = sample_hash sample_block"
    by (simp_all add: sample_state_defs cong: eval_cong)
  then show ?thesis using prevote_rule [OF t] t l by (intro exI [of _ t]) simp
qed

text \<open>C6. What a node precommits for: every vote that \<open>enterPrecommit\<close> signs is a precommit for the
  height and round the node is in; if it is for a block, then more than two thirds of the prevotes
  of that round are for that very block, and the node is locked afterwards, in that round, on a
  block with that hash: the block it was locked on before or the proposal block, validated.\<close>

theorem precommit_rule:
  assumes "enterPrecommit (default_node E D) height round cs = Inr t"
  shows "\<forall>v\<in>set (new_votes cs t).
      v_Height v = Height cs \<and> v_Round v = Round cs \<and> v_Type v = PrecommitType
      \<and> (v_BlockID v \<noteq> 0 \<longrightarrow>
           vs_TwoThirdsMajority E (hvs_Prevotes E (Votes cs) round) = (v_BlockID v, True)
           \<and> LockedRound t = round \<and> blk_HashTo E (LockedBlock t) (v_BlockID v)
           \<and> (LockedBlock t = LockedBlock cs
              \<or> (\<exists>b. LockedBlock t = Some b \<and> ProposalBlock cs = Some b
                  \<and> validateBlock E (chainState cs) b = Inr None)))"
  using default_consensus.precommit_of [OF assms] by (simp add: vote_key_def)

theorem precommit_rule_witness:
  "\<exists>t. enterPrecommit (default_node sample_ext sample_block_db) 1 0
         (sample_proposed\<lparr>Votes := Some sample_prevotes\<rparr>) = Inr t
     \<and> length (new_votes (sample_proposed\<lparr>Votes := Some sample_prevotes\<rparr>) t) = 1
     \<and> (\<forall>v\<in>set (new_votes (sample_proposed\<lparr>Votes := Some sample_prevotes\<rparr>) t).
          v_BlockID v \<noteq> 0 \<longrightarrow> LockedRound t = 0)"
proof -
  obtain t where t: "enterPrecommit (default_node sample_ext sample_block_db) 1 0
         (sample_proposed\<lparr>Votes := Some sample_prevotes\<rparr>) = Inr t"
    and l: "length (new_votes (sample_proposed\<lparr>Votes := Some sample_prevotes\<rparr>) t) = 1"
    by (simp add: sample_state_defs new_votes_def cong: eval_cong)
  then show ?thesis using precommit_rule [OF t] by (intro exI [of _ t]) simp
qed

end
