(* ===== verification/CS_Commit_Rules.thy ===== *)
theory CS_Commit_Rules
  imports CS_Rules
begin

text \<open>
  When a block is committed and what the start of a node checks: the conditions under which
  \<open>finalizeCommit\<close> and \<open>processCommitedBlock\<close> move the chain, and exactly when
  \<open>checkDoubleSigningRisk\<close> refuses to start.
\<close>

section \<open>Committing\<close>

lemma updateToState_chainState:
  assumes "updateToState E st cs = Inr t" and "chainState t \<noteq> chainState cs"
  shows "chainState t = st"
  using assms by (auto simp: updateToState_def andThen_eq_Inr updateToState_reset_fields machine_defs
      split: if_splits)

lemma updateToState_blockStore:
  "updateToState E st cs = Inr t \<Longrightarrow> blockStore t = blockStore cs"
  by (auto simp: updateToState_def updateToState_reset_def andThen_eq_Inr CanonicalNow_def machine_defs
      Let_def split: if_splits)

lemma saveBlock_cases:
  assumes "saveBlock E block seen cs = Inr t"
  shows "chainState t = chainState cs
    \<and> (if store_Height E (blockStore cs) < blk_NumberU64 E block
       then \<exists>c. seen = Inr c \<and> store_SaveBlock E block c (blockStore cs) = Inr (blockStore t)
       else t = cs)"
  using assms by (auto simp: saveBlock_def andThen_eq_Inr)

lemma updatePubKey_blockStore:
  "blockStore (snd (updatePrivValidatorPubKey E cs)) = blockStore cs"
  "chainState (snd (updatePrivValidatorPubKey E cs)) = chainState cs"
  by (simp_all add: updatePrivValidatorPubKey_def split: option.split sum.split)

lemma scheduleRound0_stores:
  "blockStore (scheduleRound0 E rs cs) = blockStore cs"
  "chainState (scheduleRound0 E rs cs) = chainState cs"
  by (simp_all add: scheduleRound0_def CanonicalNow_def machine_defs)

lemma finalizeCommit_commits:
  assumes e: "finalizeCommit E height cs = Inr t" and ch: "chainState t \<noteq> chainState cs"
  obtains block h where "Height cs = height" "Step cs = RoundStepCommit"
    "vs_TwoThirdsMajority E (hvs_Precommits E (Votes cs) (CommitRound cs)) = (h, True)"
    "ProposalBlock cs = Some block" "blk_HashTo E (Some block) h"
    "be_ValidateBlock E (chainState cs) block = Inr None"
    "be_ApplyBlock E (ChainState_Copy E (chainState cs)) block = Inr (Inr (chainState t))"
    "if store_Height E (blockStore cs) < blk_NumberU64 E block
     then \<exists>c. vs_MakeCommit E (hvs_Precommits E (Votes cs) (CommitRound cs)) = Inr c
       \<and> store_SaveBlock E block c (blockStore cs) = Inr (blockStore t)
     else blockStore t = blockStore cs"
proof -
  have g: "Height cs = height" "Step cs = RoundStepCommit"
    using e ch by (auto simp: finalizeCommit_def split: if_splits)
  obtain h ok where m: "vs_TwoThirdsMajority E (hvs_Precommits E (Votes cs) (CommitRound cs)) = (h, ok)"
    by fastforce
  have m': ok "blk_HashTo E (ProposalBlock cs) h"
    using e g m by (simp_all add: finalizeCommit_def split: if_split_asm)
  obtain block u where b: "ProposalBlock cs = Some block"
    "be_ValidateBlock E (chainState cs) block = Inr None"
    and u: "saveBlock E block (vs_MakeCommit E (hvs_Precommits E (Votes cs) (CommitRound cs))) cs = Inr u"
    and a: "applyBlock E block (\<lambda>cs. Inr (scheduleRound0 E (GetRoundState cs) cs)) u = Inr t"
    using e g m m'
    by (auto simp: finalizeCommit_def andThen_eq_Inr deref_eq_Inr split: option.splits)
  have su: "chainState u = chainState cs" using saveBlock_cases [OF u] by simp
  obtain r where r: "be_ApplyBlock E (ChainState_Copy E (chainState u)) block = Inr r"
    using a by (auto simp: applyBlock_def andThen_eq_Inr)
  obtain st' w where st': "r = Inr st'" and w: "updateToState E st' u = Inr w"
    and t: "t = scheduleRound0 E (GetRoundState (snd (updatePrivValidatorPubKey E w)))
        (snd (updatePrivValidatorPubKey E w))"
    using a r ch su by (cases r) (auto simp: applyBlock_def andThen_eq_Inr)
  have "chainState t = st'"
    using updateToState_chainState [OF w] ch su t by (simp add: updatePubKey_blockStore scheduleRound0_stores)
  moreover have "blockStore t = blockStore u"
    using updateToState_blockStore [OF w] t by (simp add: updatePubKey_blockStore scheduleRound0_stores)
  ultimately show ?thesis
    using that g m m' b r st' su saveBlock_cases [OF u] by (auto split: if_splits)
qed

section \<open>Properties: committing\<close>

text \<open>C8. \<open>finalizeCommit\<close> moves the chain only to a block that more than two thirds of the
  precommits of the commit round are for, that is the proposal block and passes validation; the new
  chain state is the result of applying it, and the block was saved with the commit made of those
  precommits, unless the store had it already.\<close>

theorem finalizeCommit_rule:
  assumes "finalizeCommit (default_node E D) height cs = Inr t" and "chainState t \<noteq> chainState cs"
  shows "\<exists>block h. Height cs = height \<and> Step cs = RoundStepCommit
    \<and> vs_TwoThirdsMajority E (hvs_Precommits E (Votes cs) (CommitRound cs)) = (h, True)
    \<and> ProposalBlock cs = Some block \<and> blk_HashTo E (Some block) h
    \<and> validateBlock E (chainState cs) block = Inr None
    \<and> DefaultBlockExecutor_ApplyBlock E (ChainState_Copy E (chainState cs)) block
        = Inr (Inr (chainState t))
    \<and> (if BlockStore_Height D (blockStore cs) < blk_NumberU64 E block
       then \<exists>c. vs_MakeCommit E (hvs_Precommits E (Votes cs) (CommitRound cs)) = Inr c
         \<and> BlockStore_SaveBlock D (blk_NumberU64 E) block c (blockStore cs) = Inr (blockStore t)
       else blockStore t = blockStore cs)"
proof (rule finalizeCommit_commits [OF assms])
  fix block h
  assume *: "Height cs = height" "Step cs = RoundStepCommit"
    "vs_TwoThirdsMajority (default_node E D) (hvs_Precommits (default_node E D) (Votes cs) (CommitRound cs)) = (h, True)"
    "ProposalBlock cs = Some block" "blk_HashTo (default_node E D) (Some block) h"
    "be_ValidateBlock (default_node E D) (chainState cs) block = Inr None"
    "be_ApplyBlock (default_node E D) (ChainState_Copy (default_node E D) (chainState cs)) block
      = Inr (Inr (chainState t))"
    "if store_Height (default_node E D) (blockStore cs) < blk_NumberU64 (default_node E D) block
     then \<exists>c. vs_MakeCommit (default_node E D) (hvs_Precommits (default_node E D) (Votes cs) (CommitRound cs)) = Inr c
       \<and> store_SaveBlock (default_node E D) block c (blockStore cs) = Inr (blockStore t)
     else blockStore t = blockStore cs"
  have copy: "ChainState_Copy (default_node E D) = ChainState_Copy E"
    by (simp add: fun_eq_iff ChainState_Copy_def default_node_def ext.defs)
  show ?thesis
    using * [unfolded default_node_fields copy] by (intro exI [of _ block] exI [of _ h] conjI)
qed

definition sample_committing where
  "sample_committing = sample_proposed\<lparr>Step := RoundStepCommit, CommitRound := 0,
     Votes := Some sample_precommits\<rparr>"

theorem finalizeCommit_rule_witness:
  "\<exists>t. finalizeCommit (default_node sample_ext sample_block_db) 1 sample_committing = Inr t
     \<and> st_LastBlockHeight (chainState t) = 1
     \<and> (\<exists>block. ProposalBlock sample_committing = Some block
          \<and> validateBlock sample_ext (chainState sample_committing) block = Inr None
          \<and> DefaultBlockExecutor_ApplyBlock sample_ext
              (ChainState_Copy sample_ext (chainState sample_committing)) block = Inr (Inr (chainState t)))"
proof -
  obtain t where t: "finalizeCommit (default_node sample_ext sample_block_db) 1 sample_committing = Inr t"
    and h: "st_LastBlockHeight (chainState t) = 1"
    by (simp add: sample_committing_def sample_state_defs cong: eval_cong)
  have "st_LastBlockHeight (chainState sample_committing) = 0"
    by (simp add: sample_committing_def sample_state_defs)
  then have "chainState t \<noteq> chainState sample_committing" using h by auto
  from finalizeCommit_rule [OF t this] show ?thesis using t h by blast
qed

text \<open>C9. The fast path trusts no peer: \<open>processCommitedBlock\<close> leaves the consensus state as it is
  unless the block has the height the node works on, passes validation, and carries a commit that
  the current validators verify for its hash and height.\<close>

theorem fast_path_rule:
  assumes "processCommitedBlock (default_node E D) block cs = Inr t" and "t \<noteq> cs"
  shows "blk_NumberU64 E block = Height cs
    \<and> validateBlock E (chainState cs) block = Inr None
    \<and> vals_VerifyCommit E (st_Validators (chainState cs)) (st_ChainID (chainState cs))
        (blk_Hash E block) (blk_NumberU64 E block) (blk_HeaderCommit E block) = None"
  using assms
  by (auto simp: processCommitedBlock_def andThen_eq_Inr split: if_splits option.splits)

definition sample_committed_block :: sample_blk where
  "sample_committed_block = sample_block\<lparr>sb_Commit := Some \<lparr>c_Height = 1, c_Round = 0,
     c_BlockID = sample_hash sample_block, c_Signatures = [sample_sig (sample_vote PrecommitType)]\<rparr>\<rparr>"

theorem fast_path_rule_witness:
  "\<exists>t. processCommitedBlock (default_node sample_ext sample_block_db) sample_committed_block
         sample_proposed = Inr t
     \<and> Height t = 2 \<and> blk_NumberU64 sample_ext sample_committed_block = 1"
proof -
  obtain t where t: "processCommitedBlock (default_node sample_ext sample_block_db)
      sample_committed_block sample_proposed = Inr t" and h: "Height t = 2"
    by (simp add: processCommitedBlock_def sample_committed_block_def sample_state_defs cong: eval_cong)
  have p: "Height sample_proposed = 1" by (simp add: sample_state_defs)
  with h have "t \<noteq> sample_proposed" by auto
  from fast_path_rule [OF t this] show ?thesis using t h p by (intro exI [of _ t]) simp
qed

section \<open>The double-signing check at the start\<close>

text \<open>A commit with a signature of the validator that is for the block.\<close>

definition signed_commit :: "address \<Rightarrow> commit option \<Rightarrow> bool" where
  "signed_commit addr c \<longleftrightarrow> (\<exists>x. c = Some x \<and> (\<exists>s\<in>set (c_Signatures x).
     sig_BlockIDFlag s = BlockIDFlagCommit \<and> sig_ValidatorAddress s = addr))"

lemma checkDoubleSigning_loop_eq:
  assumes "\<And>h. load h = Inr (f h)"
  shows "checkDoubleSigning_loop load addr height i n =
     Inr (if \<exists>k<n. signed_commit addr (f (height - word_of_nat (i + k)))
          then Some ErrSignatureFoundInPastBlocks else None)"
proof (induction n arbitrary: i)
  case (Suc n)
  have ex: "(\<exists>k<Suc n. P (i + k)) \<longleftrightarrow> P i \<or> (\<exists>k<n. P (Suc i + k))" for P :: "nat \<Rightarrow> bool"
    by (metis Suc_less_eq add.right_neutral add_Suc_shift less_Suc_eq_0_disj zero_less_Suc)
  have "checkDoubleSigning_loop load addr height i (Suc n) =
      (if signed_commit addr (f (height - word_of_nat i)) then Inr (Some ErrSignatureFoundInPastBlocks)
       else checkDoubleSigning_loop load addr height (Suc i) n)"
    by (auto simp: assms signed_commit_def split: option.splits)
  then show ?case
    unfolding Suc.IH ex [of "\<lambda>j. signed_commit addr (f (height - word_of_nat j))"] by simp
qed simp

text \<open>C34. \<open>checkDoubleSigningRisk\<close>, when the stored commits can be read, refuses to start exactly if
  the node has a validator key and one of the last \<open>min DoubleSignCheckHeight height - 1\<close> commits
  before \<open>height\<close> carries a signature of that key for a block.\<close>

theorem checkDoubleSigningRisk_iff:
  assumes "\<And>h. LoadCommit E h cs = Inr (f h)"
  shows "checkDoubleSigningRisk E height cs =
    Inr (if \<exists>pubKey i. privValidator cs \<noteq> None \<and> privValidatorPubKey cs = Some pubKey
            \<and> 1 \<le> i \<and> i < unat (min (DoubleSignCheckHeight (cs_config cs)) height)
            \<and> signed_commit (pubkey_Address pubKey) (f (height - word_of_nat i))
         then Some ErrSignatureFoundInPastBlocks else None)"
proof (cases "privValidatorPubKey cs")
  case (Some k)
  let ?d = "DoubleSignCheckHeight (cs_config cs)"
  let ?P = "\<lambda>i. signed_commit (pubkey_Address k) (f (height - word_of_nat i))"
  have m: "(if ?d > height then height else ?d) = min ?d height" by (auto simp: min_def)
  have shift: "(\<exists>j<n - 1. ?P (1 + j)) \<longleftrightarrow> (\<exists>i. 1 \<le> i \<and> i < n \<and> ?P i)" for n
    by (metis add.commute le_add_diff_inverse2 less_diff_conv le_add1)
  have zero: "\<not> i < unat (min ?d height)" if "\<not> (?d > 0 \<and> height > 0)" for i
    using that by (auto simp: word_gt_0 min_def)
  show ?thesis
  proof (cases "privValidator cs \<noteq> None \<and> ?d > 0 \<and> height > 0")
    case True
    then have "checkDoubleSigningRisk E height cs =
        checkDoubleSigning_loop (\<lambda>h. LoadCommit E h cs) (pubkey_Address k) height 1 (unat (min ?d height) - 1)"
      by (simp add: checkDoubleSigningRisk_def Some Let_def m)
    also have "\<dots> = Inr (if \<exists>i. 1 \<le> i \<and> i < unat (min ?d height) \<and> ?P i
        then Some ErrSignatureFoundInPastBlocks else None)"
      unfolding checkDoubleSigning_loop_eq [OF assms] shift by (rule refl)
    finally show ?thesis using True Some by simp
  next
    case False
    then show ?thesis using zero by (auto simp: checkDoubleSigningRisk_def Some)
  qed
qed (simp add: checkDoubleSigningRisk_def)

definition sample_signed_commit :: commit where
  "sample_signed_commit = \<lparr>c_Height = 2, c_Round = 0, c_BlockID = 7,
     c_Signatures = [sample_sig (sample_vote PrecommitType)]\<rparr>"

text \<open>A store that has this commit at every height.\<close>

definition sample_commit_db where
  "sample_commit_db = sample_block_db\<lparr>rlp_DecodeCommit := (\<lambda>bs. Some sample_signed_commit)\<rparr>"

definition sample_restarted where
  "sample_restarted = sample_proposed\<lparr>blockStore := (\<lambda>k. Some []),
     cs_config := sample_config\<lparr>DoubleSignCheckHeight := 5\<rparr>\<rparr>"

lemma sample_restarted_loads:
  "LoadCommit (default_node sample_ext sample_commit_db) h sample_restarted = Inr (Some sample_signed_commit)"
  by (simp add: LoadCommit_def sample_restarted_def sample_proposed_def sample_commit_db_def
      sample_block_db_def BlockStore_LoadSeenCommit_def BlockStore_LoadBlockCommit_def)

theorem checkDoubleSigningRisk_iff_witness:
  "checkDoubleSigningRisk (default_node sample_ext sample_commit_db) 3 sample_restarted
     = Inr (Some ErrSignatureFoundInPastBlocks)"
proof -
  have "\<exists>pubKey i. privValidator sample_restarted \<noteq> None \<and> privValidatorPubKey sample_restarted = Some pubKey
      \<and> 1 \<le> i \<and> i < unat (min (DoubleSignCheckHeight (cs_config sample_restarted)) 3)
      \<and> signed_commit (pubkey_Address pubKey) (Some sample_signed_commit)"
    by (intro exI [of _ "EcdsaPubKey 5"] exI [of _ 1])
      (simp add: sample_restarted_def sample_proposed_def signed_commit_def sample_signed_commit_def
        sample_sig_def sample_vote_def min_def)
  then show ?thesis
    using checkDoubleSigningRisk_iff [OF sample_restarted_loads, of 3] by simp
qed

end
