(* ===== verification/Block_Sync.thy ===== *)
theory Block_Sync
  imports CS_Commit_Rules
begin

text \<open>
  \<open>p2p/block_sync.go\<close>: before it joins consensus, a node asks its peers for their last heights and
  fetches the blocks it misses from the one with the highest. The answers of the network are
  arguments: \<open>hello k p\<close> is the last height peer \<open>p\<close> reports in the \<open>k\<close>-th round of greetings, or
  \<open>None\<close> on an error, and \<open>fetch k p h\<close> the block it sends for height \<open>h\<close>, or an error.

  The outer loop ends when the node has caught up, which peers that keep growing can put off
  forever, and the inner loop counts a \<open>uint64\<close> up to a height a peer claims; both run on fuel, and
  \<open>None\<close> is a run that has not ended.
\<close>

record ('val, 'bs) block_sync =
  bsync_blockStore :: 'bs
  bsync_chainState :: "'val chain_state"

type_synonym peer_id = string

section \<open>The code\<close>

text \<open>The greeting of the peers: the highest last height, and who reported it.\<close>

fun greet :: "(peer_id \<Rightarrow> u64 option) \<Rightarrow> peer_id list \<Rightarrow> u64 \<times> peer_id \<Rightarrow> u64 \<times> peer_id" where
  "greet hello [] (maxHeight, maxPeer) = (maxHeight, maxPeer)"
| "greet hello (p # ps) (maxHeight, maxPeer) =
     (case hello p of
        None \<Rightarrow> greet hello ps (maxHeight, maxPeer)
      | Some h \<Rightarrow>
          if h > maxHeight then greet hello ps (h, p)
          else if maxHeight = 0 then greet hello ps (maxHeight, p)
          else greet hello ps (maxHeight, maxPeer))"

text \<open>One height: fetch, validate, verify the commit, apply, save. The result is the error, if any, and
  the state after it.\<close>

definition sync_height ::
  "('val, 'vs, 'hvs, 'blk, 'bs, 'pv) node \<Rightarrow> (peer_id \<Rightarrow> u64 \<Rightarrow> go_error + 'blk) \<Rightarrow> peer_id \<Rightarrow> u64
     \<Rightarrow> ('val, 'bs) block_sync \<Rightarrow> (go_error option \<times> ('val, 'bs) block_sync) res" where
  "sync_height E fetch maxPeer height bs =
     (case fetch maxPeer height of
        Inl err \<Rightarrow> Inr (Some err, bs)
      | Inr vb \<Rightarrow>
          andThen (be_ValidateBlock E (bsync_chainState bs) vb) (\<lambda>r.
            case r of
              Some err \<Rightarrow> Inr (Some err, bs)
            | None \<Rightarrow>
                (case vals_VerifyCommit E (st_Validators (bsync_chainState bs))
                    (st_ChainID (bsync_chainState bs)) (blk_Hash E vb) (blk_NumberU64 E vb)
                    (blk_HeaderCommit E vb) of
                   Some err \<Rightarrow> Inr (Some err, bs)
                 | None \<Rightarrow>
                     andThen (be_ApplyBlock E (bsync_chainState bs) vb) (\<lambda>r.
                       case r of
                         Inl err \<Rightarrow> Inr (Some err, bs)
                       | Inr newChainState \<Rightarrow>
                           andThen (store_SaveBlock E vb (blk_HeaderCommit E vb) (bsync_blockStore bs))
                             (\<lambda>store. Inr (None, bs\<lparr>bsync_blockStore := store,
                                  bsync_chainState := newChainState\<rparr>))))))"

text \<open>The loop \<open>for height := localLastHeight + 1; height <= maxHeight; height++\<close>.\<close>

fun sync_heights ::
  "('val, 'vs, 'hvs, 'blk, 'bs, 'pv) node \<Rightarrow> (peer_id \<Rightarrow> u64 \<Rightarrow> go_error + 'blk) \<Rightarrow> peer_id \<Rightarrow> u64
     \<Rightarrow> nat \<Rightarrow> u64 \<Rightarrow> ('val, 'bs) block_sync
     \<Rightarrow> (go_error option \<times> ('val, 'bs) block_sync) res option" where
  "sync_heights E fetch maxPeer maxHeight 0 height bs =
     (if height \<le> maxHeight then None else Some (Inr (None, bs)))"
| "sync_heights E fetch maxPeer maxHeight (Suc fuel) height bs =
     (if height \<le> maxHeight then
        (case sync_height E fetch maxPeer height bs of
           Inl p \<Rightarrow> Some (Inl p)
         | Inr (Some err, bs) \<Rightarrow> Some (Inr (Some err, bs))
         | Inr (None, bs) \<Rightarrow> sync_heights E fetch maxPeer maxHeight fuel (height + 1) bs)
      else Some (Inr (None, bs)))"

text \<open>\<open>sync\<close>: the state of the outer loop is \<open>maxHeight\<close> and \<open>maxPeer\<close>, kept from round to round. The
  fuel of a round is enough for every height a \<open>uint64\<close> can hold.\<close>

fun block_sync_sync ::
  "('val, 'vs, 'hvs, 'blk, 'bs, 'pv) node \<Rightarrow> (nat \<Rightarrow> peer_id \<Rightarrow> u64 option)
     \<Rightarrow> (nat \<Rightarrow> peer_id \<Rightarrow> u64 \<Rightarrow> go_error + 'blk) \<Rightarrow> peer_id list \<Rightarrow> nat \<Rightarrow> nat \<Rightarrow> u64 \<times> peer_id
     \<Rightarrow> ('val, 'bs) block_sync \<Rightarrow> (go_error option \<times> ('val, 'bs) block_sync) res option" where
  "block_sync_sync E hello fetch ps 0 k best bs = None"
| "block_sync_sync E hello fetch ps (Suc fuel) k best bs =
     (let (maxHeight, maxPeer) = greet (hello k) ps best;
          localLastHeight = store_Height E (bsync_blockStore bs)
      in
      if maxHeight < localLastHeight then Some (Inr (None, bs))
      else if maxHeight = localLastHeight then Some (Inr (None, bs))
      else
        (case sync_heights E (fetch k) maxPeer maxHeight (unat maxHeight - unat localLastHeight)
            (localLastHeight + 1) bs of
           None \<Rightarrow> None
         | Some (Inl p) \<Rightarrow> Some (Inl p)
         | Some (Inr (Some err, bs)) \<Rightarrow> Some (Inr (Some err, bs))
         | Some (Inr (None, bs)) \<Rightarrow> block_sync_sync E hello fetch ps fuel (Suc k) (maxHeight, maxPeer) bs))"

text \<open>\<open>NewBlockSync\<close>, and \<open>runRoutine\<close>, whose error is what \<open>WaitDone\<close> returns.\<close>

definition NewBlockSync :: "'val chain_state \<Rightarrow> 'bs \<Rightarrow> ('val, 'bs) block_sync" where
  "NewBlockSync state store = \<lparr>bsync_blockStore = store, bsync_chainState = state\<rparr>"

definition BlockSync_runRoutine ::
  "('val, 'vs, 'hvs, 'blk, 'bs, 'pv) node \<Rightarrow> (nat \<Rightarrow> peer_id \<Rightarrow> u64 option)
     \<Rightarrow> (nat \<Rightarrow> peer_id \<Rightarrow> u64 \<Rightarrow> go_error + 'blk) \<Rightarrow> peer_id list \<Rightarrow> nat \<Rightarrow> ('val, 'bs) block_sync
     \<Rightarrow> (go_error option \<times> ('val, 'bs) block_sync) res option" where
  "BlockSync_runRoutine E hello fetch ps fuel bs = block_sync_sync E hello fetch ps fuel 0 (0, []) bs"

definition LastChainState :: "('val, 'bs) block_sync \<Rightarrow> 'val chain_state" where
  "LastChainState bs = bsync_chainState bs"

section \<open>Greeting\<close>

lemma greet_max:
  "greet hello ps (m, p) = (m', p') \<Longrightarrow>
     m \<le> m' \<and> (\<forall>q\<in>set ps. \<forall>h. hello q = Some h \<longrightarrow> h \<le> m')
     \<and> (if m' = m then m \<noteq> 0 \<longrightarrow> p' = p else p' \<in> set ps \<and> hello p' = Some m')"
proof (induction ps arbitrary: m p)
  case (Cons q ps)
  show ?case
  proof (cases "hello q")
    case None
    then show ?thesis using Cons by auto
  next
    case (Some h)
    show ?thesis
    proof (cases "h > m")
      case True
      then have "greet hello ps (h, q) = (m', p')" using Cons.prems Some by simp
      moreover have "h \<noteq> 0" using True by auto
      ultimately show ?thesis using Cons.IH [of h q] Some True by (auto split: if_splits)
    next
      case False
      obtain r where r: "greet hello ps (m, r) = (m', p')" "m \<noteq> 0 \<longrightarrow> r = p"
        using Cons.prems Some False by (cases "m = 0") simp_all
      from Cons.IH [OF r(1)] show ?thesis using Some False r(2) by (auto simp: not_less split: if_splits)
    qed
  qed
qed simp

section \<open>What a sync does\<close>

text \<open>One chain state follows another by a block that was fetched: valid on the first, with a commit
  its validators verify, applied to it.\<close>

inductive synced ::
  "('val, 'vs, 'hvs, 'blk, 'bs, 'pv) node \<Rightarrow> 'val chain_state \<Rightarrow> 'val chain_state \<Rightarrow> bool"
  for E :: "('val, 'vs, 'hvs, 'blk, 'bs, 'pv) node" where
  synced: "be_ValidateBlock E st vb = Inr None
     \<Longrightarrow> vals_VerifyCommit E (st_Validators st) (st_ChainID st) (blk_Hash E vb) (blk_NumberU64 E vb)
           (blk_HeaderCommit E vb) = None
     \<Longrightarrow> be_ApplyBlock E st vb = Inr (Inr st') \<Longrightarrow> synced E st st'"

lemma sync_height_synced:
  assumes "sync_height E fetch p h bs = Inr (r, bs')"
  shows "(r = None \<longrightarrow> synced E (bsync_chainState bs) (bsync_chainState bs'))
    \<and> (r \<noteq> None \<longrightarrow> bs' = bs)"
proof (cases "fetch p h")
  case (Inr vb)
  obtain r1 where v: "be_ValidateBlock E (bsync_chainState bs) vb = Inr r1"
    using assms Inr by (auto simp: sync_height_def andThen_eq_Inr)
  let ?c = "vals_VerifyCommit E (st_Validators (bsync_chainState bs)) (st_ChainID (bsync_chainState bs))
      (blk_Hash E vb) (blk_NumberU64 E vb) (blk_HeaderCommit E vb)"
  show ?thesis
  proof (cases "r1 = None \<and> ?c = None")
    case True
    then obtain r2 where "be_ApplyBlock E (bsync_chainState bs) vb = Inr r2"
      using assms Inr v by (auto simp: sync_height_def andThen_eq_Inr)
    then show ?thesis
      using assms Inr v True by (cases r2) (auto simp: sync_height_def andThen_eq_Inr intro: synced)
  next
    case False
    then show ?thesis using assms Inr v by (cases r1; cases ?c) (auto simp: sync_height_def)
  qed
qed (use assms in \<open>auto simp: sync_height_def\<close>)

lemma sync_heights_synced:
  "sync_heights E fetch p m fuel h bs = Some (Inr (r, bs')) \<Longrightarrow>
     (synced E)\<^sup>*\<^sup>* (bsync_chainState bs) (bsync_chainState bs')"
proof (induction E fetch p m fuel h bs rule: sync_heights.induct)
  case (1 E fetch p m h bs)
  then show ?case by (auto split: if_splits)
next
  case (2 E fetch p m fuel h bs)
  show ?case
  proof (cases "h \<le> m")
    case True
    then obtain e u where u: "sync_height E fetch p h bs = Inr (e, u)"
      using 2(2) by (cases "sync_height E fetch p h bs") auto
    note step = sync_height_synced [OF u]
    show ?thesis
    proof (cases e)
      case None
      then have "(synced E)\<^sup>*\<^sup>* (bsync_chainState u) (bsync_chainState bs')"
        using 2 True u by auto
      then show ?thesis using step None by (auto intro: converse_rtranclp_into_rtranclp)
    next
      case (Some err)
      then show ?thesis using 2(2) True u step by auto
    qed
  qed (use 2(2) in auto)
qed

lemma block_sync_synced:
  "block_sync_sync E hello fetch ps fuel k best bs = Some (Inr (r, bs')) \<Longrightarrow>
     (synced E)\<^sup>*\<^sup>* (bsync_chainState bs) (bsync_chainState bs')"
proof (induction E hello fetch ps fuel k best bs rule: block_sync_sync.induct)
  case (2 E hello fetch ps fuel k best bs)
  obtain m p where mp: "greet (hello k) ps best = (m, p)" by fastforce
  let ?l = "store_Height E (bsync_blockStore bs)"
  show ?case
  proof (cases "m \<le> ?l")
    case True
    then show ?thesis using 2(2) mp by (auto simp: Let_def split: if_splits)
  next
    case False
    then obtain e u where u: "sync_heights E (fetch k) p m (unat m - unat ?l) (?l + 1) bs = Some (Inr (e, u))"
      using 2(2) mp by (auto simp: Let_def split: if_splits option.splits sum.splits)
    note su = sync_heights_synced [OF u]
    show ?thesis
    proof (cases e)
      case None
      then have "(synced E)\<^sup>*\<^sup>* (bsync_chainState u) (bsync_chainState bs')"
        using 2(1) [OF mp [symmetric] refl refl] 2(2) False mp u by (auto simp: Let_def split: if_splits)
      with su show ?thesis by (rule rtranclp_trans)
    next
      case (Some err)
      then show ?thesis using 2(2) False mp u su by (auto simp: Let_def split: if_splits)
    qed
  qed
qed simp

text \<open>The fuel of a round is enough: the inner loop ends.\<close>

lemma sync_heights_ends:
  assumes "unat m + 1 \<le> unat h + fuel" and "m + 1 \<noteq> 0"
  shows "sync_heights E fetch p m fuel h bs \<noteq> None"
  using assms(1)
proof (induction fuel arbitrary: h bs)
  case 0
  then show ?case by (simp add: word_le_nat_alt)
next
  case (Suc fuel)
  show ?case
  proof (cases "h \<le> m")
    case True
    then have "h + 1 \<noteq> 0" using assms(2) by (metis add_diff_cancel_right' word_order.extremum_unique
          diff_0 add.left_inverse)
    then have "unat (h + 1) = Suc (unat h)" by (rule unat_word_Suc)
    then have "sync_heights E fetch p m fuel (h + 1) c \<noteq> None" for c
      using Suc.prems by (intro Suc.IH) simp
    then show ?thesis using True by (auto split: sum.split option.split)
  qed simp
qed

lemma sync_heights_store_or_err:
  "block_sync_sync E hello fetch ps fuel k best bs = Some (Inr (None, bs')) \<Longrightarrow>
     \<exists>j\<ge>k. \<forall>p\<in>set ps. \<forall>h. hello j p = Some h \<longrightarrow> h \<le> store_Height E (bsync_blockStore bs')"
proof (induction E hello fetch ps fuel k best bs rule: block_sync_sync.induct)
  case (2 E hello fetch ps fuel k best bs)
  obtain m p where mp: "greet (hello k) ps best = (m, p)" by fastforce
  let ?l = "store_Height E (bsync_blockStore bs)"
  show ?case
  proof (cases "m \<le> ?l")
    case True
    moreover from this have "bs' = bs" using 2(2) mp by (auto simp: Let_def split: if_splits)
    moreover have "\<forall>q\<in>set ps. \<forall>h. hello k q = Some h \<longrightarrow> h \<le> m"
      using greet_max [of "hello k" ps "fst best" "snd best" m p] mp by simp
    ultimately show ?thesis by (intro exI [of _ k]) (auto intro: order_trans)
  next
    case False
    then obtain u where u: "sync_heights E (fetch k) p m (unat m - unat ?l) (?l + 1) bs = Some (Inr (None, u))"
      and r: "block_sync_sync E hello fetch ps fuel (Suc k) (m, p) u = Some (Inr (None, bs'))"
      using 2(2) mp by (auto simp: Let_def split: if_splits option.splits sum.splits)
    have "\<exists>j\<ge>Suc k. \<forall>q\<in>set ps. \<forall>h. hello j q = Some h \<longrightarrow> h \<le> store_Height E (bsync_blockStore bs')"
      using 2(1) [OF mp [symmetric] refl refl] False u r by auto
    then show ?thesis using Suc_leD by blast
  qed
qed simp

section \<open>Properties\<close>

text \<open>C12. Block sync trusts no peer either: however the peers answer, and whether the sync succeeds or
  stops with an error, the chain state it ends with comes from the one it started with by a
  sequence of blocks each of which passed validation on the state before it, carried a commit that
  the validators of that state verify, and was applied to that state.\<close>

theorem block_sync_trusts_no_peer:
  assumes "block_sync_sync (default_node E D) hello fetch ps fuel k best bs = Some (Inr (r, bs'))"
  shows "(\<lambda>st st'. \<exists>vb. validateBlock E st vb = Inr None
      \<and> vals_VerifyCommit E (st_Validators st) (st_ChainID st) (blk_Hash E vb) (blk_NumberU64 E vb)
          (blk_HeaderCommit E vb) = None
      \<and> DefaultBlockExecutor_ApplyBlock E st vb = Inr (Inr st'))\<^sup>*\<^sup>*
    (bsync_chainState bs) (LastChainState bs')"
proof -
  have "synced (default_node E D) = (\<lambda>st st'. \<exists>vb. validateBlock E st vb = Inr None
      \<and> vals_VerifyCommit E (st_Validators st) (st_ChainID st) (blk_Hash E vb) (blk_NumberU64 E vb)
          (blk_HeaderCommit E vb) = None
      \<and> DefaultBlockExecutor_ApplyBlock E st vb = Inr (Inr st'))"
    by (auto simp: fun_eq_iff synced.simps)
  then show ?thesis using block_sync_synced [OF assms] by (simp add: LastChainState_def)
qed

text \<open>A node at genesis and a peer that has block 1.\<close>

definition sample_bsync :: "(validator list, bytes \<Rightarrow> bytes option) block_sync" where
  "sample_bsync = \<lparr>bsync_blockStore = Map.empty, bsync_chainState = sample_genesis\<rparr>"

definition sample_sync_result where
  "sample_sync_result = block_sync_sync (default_node sample_ext sample_block_db)
     (\<lambda>k p. Some 1) (\<lambda>k p h. Inr sample_committed_block) [''peer''] 2 0 (0, []) sample_bsync"

lemma sample_sync_height:
  "\<exists>bs'. sync_height (default_node sample_ext sample_block_db) (\<lambda>p h. Inr sample_committed_block)
        ''peer'' 1 sample_bsync = Inr (None, bs')
    \<and> BlockStore_Height sample_block_db (bsync_blockStore bs') = 1
    \<and> st_LastBlockHeight (bsync_chainState bs') = 1"
  by (simp add: sync_height_def sample_bsync_def sample_committed_block_def sample_state_defs
      cong: eval_cong)

lemma sample_sync_result_ok:
  "\<exists>bs'. sample_sync_result = Some (Inr (None, bs')) \<and> st_LastBlockHeight (LastChainState bs') = 1"
proof -
  obtain bs' where b: "sync_height (default_node sample_ext sample_block_db)
        (\<lambda>p h. Inr sample_committed_block) ''peer'' 1 sample_bsync = Inr (None, bs')"
    "BlockStore_Height sample_block_db (bsync_blockStore bs') = 1"
    "st_LastBlockHeight (bsync_chainState bs') = 1"
    using sample_sync_height by blast
  have "BlockStore_Height sample_block_db (bsync_blockStore sample_bsync) = 0"
    by (simp add: sample_bsync_def BlockStore_Height_def sample_block_db_def)
  then have "sample_sync_result = Some (Inr (None, bs'))"
    using b by (simp add: sample_sync_result_def numeral_2_eq_2) (simp add: word_le_nat_alt)
  then show ?thesis using b(3) by (intro exI [of _ bs']) (simp add: LastChainState_def)
qed

theorem block_sync_trusts_no_peer_witness:
  "\<exists>bs'. sample_sync_result = Some (Inr (None, bs')) \<and> st_LastBlockHeight (LastChainState bs') = 1
    \<and> (\<lambda>st st'. \<exists>vb. validateBlock sample_ext st vb = Inr None
      \<and> vals_VerifyCommit sample_ext (st_Validators st) (st_ChainID st) (blk_Hash sample_ext vb)
          (blk_NumberU64 sample_ext vb) (blk_HeaderCommit sample_ext vb) = None
      \<and> DefaultBlockExecutor_ApplyBlock sample_ext st vb = Inr (Inr st'))\<^sup>*\<^sup>*
    (bsync_chainState sample_bsync) (LastChainState bs')"
proof -
  obtain bs' where b: "sample_sync_result = Some (Inr (None, bs'))"
    "st_LastBlockHeight (LastChainState bs') = 1"
    using sample_sync_result_ok by blast
  from block_sync_trusts_no_peer [OF b(1) [unfolded sample_sync_result_def]] b show ?thesis
    by (intro exI [of _ bs'] conjI)
qed

text \<open>C33. A sync that succeeds has caught up: in some round of greetings every peer that answered
  reported a last height at or below the height of the node's store.\<close>

theorem block_sync_catches_up:
  assumes "block_sync_sync (default_node E D) hello fetch ps fuel k best bs = Some (Inr (None, bs'))"
  shows "\<exists>j\<ge>k. \<forall>p\<in>set ps. \<forall>h. hello j p = Some h \<longrightarrow> h \<le> BlockStore_Height D (bsync_blockStore bs')"
  using sync_heights_store_or_err [OF assms] by simp

theorem block_sync_catches_up_witness:
  "\<exists>bs'. sample_sync_result = Some (Inr (None, bs'))
    \<and> 1 \<le> BlockStore_Height sample_block_db (bsync_blockStore bs')"
proof -
  obtain bs' where b: "sample_sync_result = Some (Inr (None, bs'))"
    using sample_sync_result_ok by blast
  from block_sync_catches_up [OF b [unfolded sample_sync_result_def]] b show ?thesis by auto
qed

end
