(* ===== verification/P2P_Codec.thy ===== *)
theory P2P_Codec
  imports CS_Run
begin

text \<open>
  \<open>p2p/p2p.go\<close>, \<open>p2p/consensus_sync.go\<close>: what travels between nodes. A gossip message is a type
  byte and an RLP payload; a stream message is a 4-byte big-endian size and the payload; a node
  answers the requests \<open>hello\<close>, \<open>fullblock\<close> and \<open>consensus_sync\<close> on streams and turns what it
  receives into events of its own consensus state machine.

  The RLP codec, the \<open>EncodeRLP\<close>, \<open>DecodeRLP\<close> and \<open>ValidateBasic\<close> methods of votes, proposals and blocks
  and the libp2p host are not in the repository: the record \<open>wire\<close> holds the codec, and a stream is
  the list of bytes still to be read. A Go \<open>interface{}\<close> value is a dynamic type and a value:
  \<open>iface\<close> keeps pointers and structs apart, as the type switches of the source do.
\<close>

section \<open>Wire formats\<close>

record consensus_sync_response =
  csr_IsCommited :: u8
  csr_MessageData :: "bytes list"

record 'blk wire =
  enc_Vote :: "vote option \<Rightarrow> go_error + bytes"
  dec_Vote :: "bytes \<Rightarrow> go_error + vote"
  vote_ValidateBasic :: "vote \<Rightarrow> go_error option"
  enc_Proposal :: "'blk proposal option \<Rightarrow> go_error + bytes"
  dec_Proposal :: "bytes \<Rightarrow> go_error + 'blk proposal"
  proposal_ValidateBasic :: "'blk proposal \<Rightarrow> go_error option"
  enc_FullBlock :: "'blk option \<Rightarrow> go_error + bytes"
  EncodeToRLPBytes :: "'blk option \<Rightarrow> go_error + bytes"
  DecodeFromRLPBytes :: "bytes \<Rightarrow> 'blk \<times> go_error option"
  enc_Uint64Struct :: "u64 \<Rightarrow> go_error + bytes"
  dec_Uint64Struct :: "bytes \<Rightarrow> u64 \<times> go_error option"
  enc_SyncRequest :: "sync_request \<Rightarrow> go_error + bytes"
  dec_SyncRequest :: "bytes \<Rightarrow> go_error + sync_request"
  enc_SyncResponse :: "consensus_sync_response \<Rightarrow> go_error + bytes"
  dec_SyncResponse :: "bytes \<Rightarrow> go_error + consensus_sync_response"

text \<open>\<open>HelloRequest\<close>, \<open>HelloResponse\<close> and \<open>GetFullBlockRequest\<close> are structs of one \<open>uint64\<close>.\<close>

datatype 'blk iface =
    NilIface
  | PtrProposal "'blk proposal option"
  | PtrVote "vote option"
  | PtrFullBlock "'blk option"
  | FullBlockStruct 'blk
  | PtrHelloRequest u64
  | HelloRequestStruct u64
  | PtrHelloResponse u64
  | HelloResponseStruct u64
  | PtrGetFullBlockRequest u64
  | GetFullBlockRequestStruct u64

section \<open>Decoding and encoding\<close>

definition decodeHelloRequest :: "'blk wire \<Rightarrow> bytes \<Rightarrow> 'blk iface \<times> go_error option" where
  "decodeHelloRequest W data = (let (h, err) = dec_Uint64Struct W data in (HelloRequestStruct h, err))"

definition decodeHelloResponse :: "'blk wire \<Rightarrow> bytes \<Rightarrow> 'blk iface \<times> go_error option" where
  "decodeHelloResponse W data = (let (h, err) = dec_Uint64Struct W data in (HelloResponseStruct h, err))"

definition decodeGetFullBlockRequest :: "'blk wire \<Rightarrow> bytes \<Rightarrow> 'blk iface \<times> go_error option" where
  "decodeGetFullBlockRequest W data =
     (let (req, err) = dec_Uint64Struct W data in (GetFullBlockRequestStruct req, err))"

definition decodeVote :: "'blk wire \<Rightarrow> bytes \<Rightarrow> 'blk iface \<times> go_error option" where
  "decodeVote W data =
     (case dec_Vote W data of
        Inl err \<Rightarrow> (NilIface, Some err)
      | Inr v \<Rightarrow> (PtrVote (Some v), vote_ValidateBasic W v))"

definition encodeVote :: "'blk wire \<Rightarrow> vote option \<Rightarrow> go_error + bytes" where
  "encodeVote W v = enc_Vote W v"

definition decodeProposal :: "'blk wire \<Rightarrow> bytes \<Rightarrow> 'blk iface \<times> go_error option" where
  "decodeProposal W data =
     (case dec_Proposal W data of
        Inl err \<Rightarrow> (NilIface, Some err)
      | Inr p \<Rightarrow> (PtrProposal (Some p), proposal_ValidateBasic W p))"

definition encodeProposal :: "'blk wire \<Rightarrow> 'blk proposal option \<Rightarrow> go_error + bytes" where
  "encodeProposal W p = enc_Proposal W p"

definition decodeFullBlock :: "'blk wire \<Rightarrow> bytes \<Rightarrow> 'blk iface \<times> go_error option" where
  "decodeFullBlock W data = (let (b, err) = DecodeFromRLPBytes W data in (FullBlockStruct b, err))"

text \<open>The map \<open>decoder\<close> that \<open>init\<close> fills.\<close>

definition decoder :: "'blk wire \<Rightarrow> u8 \<Rightarrow> (bytes \<Rightarrow> 'blk iface \<times> go_error option) option" where
  "decoder W b =
     (if b = 1 then Some (decodeProposal W)
      else if b = 2 then Some (decodeVote W)
      else if b = 3 then Some (decodeFullBlock W)
      else if b = 4 then Some (decodeHelloRequest W)
      else if b = 5 then Some (decodeHelloResponse W)
      else if b = 6 then Some (decodeGetFullBlockRequest W)
      else None)"

definition decode :: "'blk wire \<Rightarrow> bytes \<Rightarrow> 'blk iface \<times> go_error option" where
  "decode W data =
     (case data of
        [] \<Rightarrow> (NilIface, Some IncorrectMsg)
      | b # rest \<Rightarrow>
          (case decoder W b of
             None \<Rightarrow> (NilIface, Some DecoderNotFound)
           | Some f \<Rightarrow> f rest))"

fun encodeRaw :: "'blk wire \<Rightarrow> 'blk iface \<Rightarrow> go_error + bytes" where
  "encodeRaw W (PtrProposal m) = encodeProposal W m"
| "encodeRaw W (PtrVote m) = encodeVote W m"
| "encodeRaw W (PtrFullBlock m) = enc_FullBlock W m"
| "encodeRaw W (PtrHelloRequest m) = enc_Uint64Struct W m"
| "encodeRaw W (PtrHelloResponse m) = enc_Uint64Struct W m"
| "encodeRaw W _ = Inr []"

fun type_data :: "'blk iface \<Rightarrow> bytes" where
  "type_data (PtrProposal m) = [1]"
| "type_data (PtrVote m) = [2]"
| "type_data (PtrFullBlock m) = [3]"
| "type_data (PtrHelloRequest m) = [4]"
| "type_data (PtrHelloResponse m) = [5]"
| "type_data (PtrGetFullBlockRequest m) = [6]"
| "type_data _ = []"

definition encode :: "'blk wire \<Rightarrow> 'blk iface \<Rightarrow> go_error + bytes" where
  "encode W msg =
     (case encodeRaw W msg of
        Inl err \<Rightarrow> Inl err
      | Inr data \<Rightarrow> Inr (type_data msg @ data))"

section \<open>Messages on a stream\<close>

text \<open>\<open>Write\<close> of the stream takes the bytes and gives how many were written and an error; \<open>'s\<close> is the
  state of the stream.\<close>

definition WriteMsgWithPrependedSize ::
  "(bytes \<Rightarrow> 's \<Rightarrow> (nat \<times> go_error option) \<times> 's) \<Rightarrow> bytes \<Rightarrow> 's \<Rightarrow> go_error option \<times> 's" where
  "WriteMsgWithPrependedSize write msg s =
     (let sizeBytes = PutUint32 (word_of_nat (length msg));
          ((n, err), s) = write sizeBytes s
      in case err of
           Some e \<Rightarrow> (Some e, s)
         | None \<Rightarrow>
             if n \<noteq> length sizeBytes then (Some NotFullyWritten, s)
             else
               let ((n, err), s) = write msg s in
               case err of
                 Some e \<Rightarrow> (Some e, s)
               | None \<Rightarrow> if n \<noteq> length msg then (Some NotFullyWritten, s) else (None, s))"

text \<open>\<open>io.ReadFull\<close> on the bytes that are left.\<close>

definition ReadFull :: "nat \<Rightarrow> bytes \<Rightarrow> (go_error + bytes) \<times> bytes" where
  "ReadFull n s = (if length s < n then (Inl ShortRead, []) else (Inr (take n s), drop n s))"

definition ReadMsgWithPrependedSize :: "bytes \<Rightarrow> (go_error + bytes) \<times> bytes" where
  "ReadMsgWithPrependedSize s =
     (case ReadFull 4 s of
        (Inl err, s) \<Rightarrow> (Inl err, s)
      | (Inr sizeBytes, s) \<Rightarrow> ReadFull (unat (Uint32 sizeBytes)) s)"

section \<open>Request handlers\<close>

text \<open>What a node writes back on a stream: \<open>None\<close> when the handler returns without an answer.\<close>

definition handleHello ::
  "('val, 'vs, 'hvs, 'blk, 'bs, 'pv) node \<Rightarrow> 'blk wire \<Rightarrow> 'bs \<Rightarrow> bytes \<Rightarrow> bytes option" where
  "handleHello E W store s =
     (case fst (ReadMsgWithPrependedSize s) of
        Inl err \<Rightarrow> None
      | Inr data \<Rightarrow>
          (case snd (dec_Uint64Struct W data) of
             Some err \<Rightarrow> None
           | None \<Rightarrow>
               (case enc_Uint64Struct W (store_Height E store) of
                  Inl err \<Rightarrow> None
                | Inr resp \<Rightarrow> Some resp)))"

definition handleFullBlock ::
  "('val, 'vs, 'hvs, 'blk, 'bs, 'pv) node \<Rightarrow> 'blk wire \<Rightarrow> 'bs \<Rightarrow> bytes \<Rightarrow> bytes option res" where
  "handleFullBlock E W store s =
     (case fst (ReadMsgWithPrependedSize s) of
        Inl err \<Rightarrow> Inr None
      | Inr data \<Rightarrow>
          (case dec_Uint64Struct W data of
             (height, Some err) \<Rightarrow> Inr None
           | (height, None) \<Rightarrow>
               andThen (store_LoadBlock E store height) (\<lambda>vb.
                 andThen (store_LoadBlockCommit E store height) (\<lambda>commit.
                   andThen (blk_WithCommit E commit vb) (\<lambda>vb.
                     Inr (case EncodeToRLPBytes W vb of Inl err \<Rightarrow> None | Inr resp \<Rightarrow> Some resp))))))"

fun iface_of_response :: "'blk sync_response \<Rightarrow> 'blk iface" where
  "iface_of_response (RespProposal p) = PtrProposal (Some p)"
| "iface_of_response (RespVote v) = PtrVote v"
| "iface_of_response (RespBlock b) = NilIface"

fun encode_responses :: "'blk wire \<Rightarrow> 'blk sync_response list \<Rightarrow> go_error + bytes list" where
  "encode_responses W [] = Inr []"
| "encode_responses W (r # rs) =
     andThen (case r of RespBlock b \<Rightarrow> Inr [] | _ \<Rightarrow> encode W (iface_of_response r)) (\<lambda>data.
       andThen (encode_responses W rs) (\<lambda>datas. Inr (data # datas)))"

definition sync_response_of ::
  "'blk wire \<Rightarrow> 'blk sync_response list \<Rightarrow> go_error + consensus_sync_response" where
  "sync_response_of W msgs =
     (case msgs of
        [RespBlock fb] \<Rightarrow>
          andThen (EncodeToRLPBytes W fb) (\<lambda>bs0. Inr \<lparr>csr_IsCommited = 1, csr_MessageData = [bs0]\<rparr>)
      | _ \<Rightarrow>
          andThen (encode_responses W msgs) (\<lambda>datas.
            Inr \<lparr>csr_IsCommited = 0, csr_MessageData = datas\<rparr>))"

text \<open>The handler of \<open>TopicConsensusSync\<close>.\<close>

definition handleConsensusSync ::
  "('val, 'vs, 'hvs, 'blk, 'bs, 'pv) node \<Rightarrow> 'blk wire
     \<Rightarrow> ('val, 'vs, 'hvs, 'blk, 'bs, 'pv) consensus_state \<Rightarrow> bytes \<Rightarrow> bytes option res" where
  "handleConsensusSync E W cs s =
     (case fst (ReadMsgWithPrependedSize s) of
        Inl err \<Rightarrow> Inr None
      | Inr data \<Rightarrow>
          (case dec_SyncRequest W data of
             Inl err \<Rightarrow> Inr None
           | Inr req \<Rightarrow>
               andThen (processSyncRequest E req cs) (\<lambda>msgs.
                 Inr (case andThen (sync_response_of W msgs) (enc_SyncResponse W) of
                        Inl err \<Rightarrow> None
                      | Inr respData \<Rightarrow> Some respData))))"

section \<open>From the network to the consensus state machine\<close>

text \<open>The switch on a decoded message: proposals and votes go to the peer queue.\<close>

fun deliver :: "string \<Rightarrow> 'blk iface \<Rightarrow> 'blk event list" where
  "deliver p (PtrProposal (Some m)) = [PeerMsg \<lparr>mi_Msg = ProposalMessage m, mi_PeerID = p\<rparr>]"
| "deliver p (PtrVote (Some m)) = [PeerMsg \<lparr>mi_Msg = VoteMessage m, mi_PeerID = p\<rparr>]"
| "deliver p _ = []"

definition deliver_data :: "'blk wire \<Rightarrow> string \<Rightarrow> bytes \<Rightarrow> 'blk event list" where
  "deliver_data W p data =
     (case decode W data of
        (msg, Some err) \<Rightarrow> []
      | (msg, None) \<Rightarrow> deliver p msg)"

text \<open>The receive loop of \<open>Server.Run\<close> on one envelope; messages from the node itself are ignored.\<close>

definition receive_gossip :: "'blk wire \<Rightarrow> string \<Rightarrow> string \<Rightarrow> bytes \<Rightarrow> 'blk event list" where
  "receive_gossip W self sender data = (if sender = self then [] else deliver_data W sender data)"

text \<open>The send loop of \<open>Server.Run\<close>: what is published for a message of the consensus state machine.\<close>

definition publish :: "'blk wire \<Rightarrow> 'blk message \<Rightarrow> bytes option" where
  "publish W msg =
     (case msg of
        ProposalMessage p \<Rightarrow>
          (case encode W (PtrProposal (Some p)) of Inl err \<Rightarrow> None | Inr data \<Rightarrow> Some data)
      | VoteMessage v \<Rightarrow>
          (case encode W (PtrVote (Some v)) of Inl err \<Rightarrow> None | Inr data \<Rightarrow> Some data)
      | SyncRequestMessage req \<Rightarrow> None)"

text \<open>What \<open>consensSyncRoutine\<close> does with the answer of the peer \<open>p\<close>.\<close>

definition consume_sync_response ::
  "'blk wire \<Rightarrow> string \<Rightarrow> consensus_sync_response \<Rightarrow> 'blk event list" where
  "consume_sync_response W p resp =
     (if csr_IsCommited resp = 1 then
        (case csr_MessageData resp of
           [data] \<Rightarrow>
             (case DecodeFromRLPBytes W data of
                (block, Some err) \<Rightarrow> []
              | (block, None) \<Rightarrow> [CommittedBlock block])
         | _ \<Rightarrow> [])
      else concat (map (deliver_data W p) (csr_MessageData resp)))"

section \<open>Round trips\<close>

text \<open>What the code relies on of the codec: decoding an encoding gives the value back.\<close>

definition wire_ok :: "'blk wire \<Rightarrow> bool" where
  "wire_ok W \<longleftrightarrow>
     (\<forall>v bs. enc_Vote W (Some v) = Inr bs \<longrightarrow> dec_Vote W bs = Inr v)
     \<and> (\<forall>p bs. enc_Proposal W (Some p) = Inr bs \<longrightarrow> dec_Proposal W bs = Inr p)
     \<and> (\<forall>b bs. enc_FullBlock W (Some b) = Inr bs \<longrightarrow> DecodeFromRLPBytes W bs = (b, None))
     \<and> (\<forall>b bs. EncodeToRLPBytes W (Some b) = Inr bs \<longrightarrow> DecodeFromRLPBytes W bs = (b, None))
     \<and> (\<forall>h bs. enc_Uint64Struct W h = Inr bs \<longrightarrow> dec_Uint64Struct W bs = (h, None))
     \<and> (\<forall>r bs. enc_SyncResponse W r = Inr bs \<longrightarrow> dec_SyncResponse W bs = Inr r)"

text \<open>The structs that a decoded pointer message arrives as.\<close>

fun received_as :: "'blk iface \<Rightarrow> 'blk iface" where
  "received_as (PtrFullBlock (Some b)) = FullBlockStruct b"
| "received_as (PtrHelloRequest h) = HelloRequestStruct h"
| "received_as (PtrHelloResponse h) = HelloResponseStruct h"
| "received_as m = m"

fun basic_error :: "'blk wire \<Rightarrow> 'blk iface \<Rightarrow> go_error option" where
  "basic_error W (PtrVote (Some v)) = vote_ValidateBasic W v"
| "basic_error W (PtrProposal (Some p)) = proposal_ValidateBasic W p"
| "basic_error W _ = None"

fun sendable :: "'blk iface \<Rightarrow> bool" where
  "sendable (PtrProposal m) = (m \<noteq> None)"
| "sendable (PtrVote m) = (m \<noteq> None)"
| "sendable (PtrFullBlock m) = (m \<noteq> None)"
| "sendable (PtrHelloRequest m) = True"
| "sendable (PtrHelloResponse m) = True"
| "sendable _ = False"

lemma decode_encode:
  assumes "wire_ok W" and "sendable m" and "encode W m = Inr bs"
  shows "decode W bs = (received_as m, basic_error W m)"
  using assms
  by (cases m)
    (auto simp: encode_def decode_def decoder_def wire_ok_def encodeVote_def encodeProposal_def
      decodeVote_def decodeProposal_def decodeFullBlock_def decodeHelloRequest_def
      decodeHelloResponse_def split: sum.splits)

text \<open>A stream that accepts every byte.\<close>

definition full_write :: "bytes \<Rightarrow> bytes \<Rightarrow> (nat \<times> go_error option) \<times> bytes" where
  "full_write bs s = ((length bs, None), s @ bs)"

lemma ReadMsg_WriteMsg:
  assumes "length msg < 2 ^ 32"
  shows "ReadMsgWithPrependedSize
      (snd (WriteMsgWithPrependedSize full_write msg []) @ rest) = (Inr msg, rest)"
proof -
  have "unat (word_of_nat (length msg) :: u32) = length msg"
    using assms by (simp add: unat_of_nat)
  then show ?thesis
    by (simp add: WriteMsgWithPrependedSize_def full_write_def ReadMsgWithPrependedSize_def
        ReadFull_def)
qed

lemma deliver_data_encode:
  assumes "wire_ok W" and "sendable m" and "encode W m = Inr bs" and "basic_error W m = None"
  shows "deliver_data W p bs = deliver p (received_as m)"
  using decode_encode [OF assms(1-3)] assms(4) by (simp add: deliver_data_def)

text \<open>The event a peer's answer stands for.\<close>

fun response_event :: "string \<Rightarrow> 'blk sync_response \<Rightarrow> 'blk event list" where
  "response_event p (RespProposal m) = [PeerMsg \<lparr>mi_Msg = ProposalMessage m, mi_PeerID = p\<rparr>]"
| "response_event p (RespVote (Some v)) = [PeerMsg \<lparr>mi_Msg = VoteMessage v, mi_PeerID = p\<rparr>]"
| "response_event p (RespVote None) = []"
| "response_event p (RespBlock (Some b)) = [CommittedBlock b]"
| "response_event p (RespBlock None) = []"

text \<open>An answer without a block whose votes and proposal are present and pass \<open>ValidateBasic\<close>.\<close>

fun plain_response :: "'blk wire \<Rightarrow> 'blk sync_response \<Rightarrow> bool" where
  "plain_response W (RespProposal p) = (proposal_ValidateBasic W p = None)"
| "plain_response W (RespVote v) = (\<exists>x. v = Some x \<and> vote_ValidateBasic W x = None)"
| "plain_response W (RespBlock b) = False"

lemma deliver_responses:
  assumes "wire_ok W" and "\<forall>r\<in>set msgs. plain_response W r" and "encode_responses W msgs = Inr datas"
  shows "concat (map (deliver_data W p) datas) = concat (map (response_event p) msgs)"
  using assms(2,3)
proof (induction msgs arbitrary: datas)
  case (Cons r rs)
  obtain d ds where d: "encode W (iface_of_response r) = Inr d" "encode_responses W rs = Inr ds"
    "datas = d # ds"
    using Cons.prems by (cases r) (auto simp: andThen_eq_Inr)
  have "deliver_data W p d = response_event p r"
    using deliver_data_encode [OF assms(1) _ d(1)] Cons.prems(1) by (cases r) auto
  then show ?case using Cons d by simp
qed simp

lemma consume_sync_response_of:
  assumes "wire_ok W" and "sync_response_of W msgs = Inr resp"
    and "(\<forall>r\<in>set msgs. plain_response W r) \<or> (\<exists>b. msgs = [RespBlock (Some b)])"
  shows "consume_sync_response W p resp = concat (map (response_event p) msgs)"
proof -
  consider (block) b where "msgs = [RespBlock (Some b)]" | (plain) "\<forall>r\<in>set msgs. plain_response W r"
    using assms(3) by blast
  then show ?thesis
  proof cases
    case block
    then show ?thesis
      using assms(1,2) by (auto simp: sync_response_of_def andThen_eq_Inr consume_sync_response_def wire_ok_def)
  next
    case plain
    have "sync_response_of W msgs = andThen (encode_responses W msgs) (\<lambda>datas.
            Inr \<lparr>csr_IsCommited = 0, csr_MessageData = datas\<rparr>)"
      using plain by (auto simp: sync_response_of_def split: list.split sync_response.split)
    then obtain datas where "encode_responses W msgs = Inr datas"
      "resp = \<lparr>csr_IsCommited = 0, csr_MessageData = datas\<rparr>"
      using assms(2) by (cases "encode_responses W msgs") auto
    then show ?thesis
      using deliver_responses [OF assms(1) plain] by (simp add: consume_sync_response_def)
  qed
qed

section \<open>A sample codec\<close>

text \<open>For the witnesses: votes and proposals are encoded by their heights, blocks are \<open>uint64\<close> words.\<close>

definition sample_wire_vote :: "u64 \<Rightarrow> vote" where
  "sample_wire_vote h = \<lparr>v_ValidatorAddress = 5, v_ValidatorIndex = 0, v_Height = h, v_Round = 0,
     v_TimestampMs = 0, v_Type = PrevoteType, v_BlockID = 0, v_Signature = []\<rparr>"

definition sample_wire_proposal :: "u64 \<Rightarrow> u64 proposal" where
  "sample_wire_proposal h = \<lparr>p_Height = h, p_Round = 0, p_POLRound = - 1, p_TimestampMs = 0,
     p_Signature = [], p_Block = None\<rparr>"

definition sample_wire :: "u64 wire" where
  "sample_wire =
     \<lparr>enc_Vote = (\<lambda>v. case v of None \<Rightarrow> Inl IncorrectMsg
        | Some v \<Rightarrow> if v = sample_wire_vote (v_Height v) then Inr (PutUint64 (v_Height v)) else Inl IncorrectMsg),
      dec_Vote = (\<lambda>bs. Inr (sample_wire_vote (Uint64 bs))),
      vote_ValidateBasic = (\<lambda>v. None),
      enc_Proposal = (\<lambda>p. case p of None \<Rightarrow> Inl IncorrectMsg
        | Some p \<Rightarrow> if p = sample_wire_proposal (p_Height p) then Inr (PutUint64 (p_Height p)) else Inl IncorrectMsg),
      dec_Proposal = (\<lambda>bs. Inr (sample_wire_proposal (Uint64 bs))),
      proposal_ValidateBasic = (\<lambda>p. None),
      enc_FullBlock = (\<lambda>b. case b of None \<Rightarrow> Inl IncorrectMsg | Some h \<Rightarrow> Inr (PutUint64 h)),
      EncodeToRLPBytes = (\<lambda>b. case b of None \<Rightarrow> Inl IncorrectMsg | Some h \<Rightarrow> Inr (PutUint64 h)),
      DecodeFromRLPBytes = (\<lambda>bs. (Uint64 bs, None)),
      enc_Uint64Struct = (\<lambda>h. Inr (PutUint64 h)),
      dec_Uint64Struct = (\<lambda>bs. (Uint64 bs, None)),
      enc_SyncRequest = (\<lambda>r. Inr []),
      dec_SyncRequest = (\<lambda>bs. Inl IncorrectMsg),
      enc_SyncResponse = (\<lambda>r. Inl IncorrectMsg),
      dec_SyncResponse = (\<lambda>bs. Inl IncorrectMsg)\<rparr>"

lemma sample_wire_ok: "wire_ok sample_wire"
  by (auto simp: wire_ok_def sample_wire_def split: if_splits)

section \<open>Properties\<close>

text \<open>C32. What becomes of an encoded message. A vote or a proposal is decoded to exactly the message that
  was encoded, with the error of \<open>ValidateBasic\<close>, and without one it becomes exactly one event for
  the consensus state machine. The pointer to a block or to a hello message is decoded to the struct
  with the same content, another type, which the receive switch has no event for. A
  \<open>GetFullBlockRequest\<close> is encoded as its type byte alone, whatever its height, so it does not come
  back. Any other value, a struct or \<open>nil\<close>, becomes no bytes at all, which cannot be decoded. How a
  nil pointer is encoded is up to the package.\<close>

theorem codec_roundtrip:
  assumes "wire_ok W" and "encode W m = Inr bs"
  shows "case m of
      PtrVote (Some v) \<Rightarrow> decode W bs = (PtrVote (Some v), vote_ValidateBasic W v)
        \<and> deliver_data W q bs =
            (if vote_ValidateBasic W v = None then [PeerMsg \<lparr>mi_Msg = VoteMessage v, mi_PeerID = q\<rparr>] else [])
    | PtrProposal (Some p) \<Rightarrow> decode W bs = (PtrProposal (Some p), proposal_ValidateBasic W p)
        \<and> deliver_data W q bs =
            (if proposal_ValidateBasic W p = None then [PeerMsg \<lparr>mi_Msg = ProposalMessage p, mi_PeerID = q\<rparr>] else [])
    | PtrFullBlock (Some b) \<Rightarrow> decode W bs = (FullBlockStruct b, None) \<and> deliver_data W q bs = []
    | PtrHelloRequest h \<Rightarrow> decode W bs = (HelloRequestStruct h, None) \<and> deliver_data W q bs = []
    | PtrHelloResponse h \<Rightarrow> decode W bs = (HelloResponseStruct h, None) \<and> deliver_data W q bs = []
    | PtrGetFullBlockRequest h \<Rightarrow> bs = [6] \<and> deliver_data W q bs = []
    | PtrVote None \<Rightarrow> True | PtrProposal None \<Rightarrow> True | PtrFullBlock None \<Rightarrow> True
    | _ \<Rightarrow> bs = [] \<and> decode W bs = (NilIface, Some IncorrectMsg)"
proof -
  have sent: "decode W bs = (received_as m, basic_error W m)" if "sendable m"
    using decode_encode [OF assms(1) that assms(2)] .
  have six: "deliver_data W q [6] = []"
    by (simp add: deliver_data_def decode_def decoder_def decodeGetFullBlockRequest_def case_prod_beta split: option.split)
  have bytes: "bs = [6]" if "m = PtrGetFullBlockRequest h" for h
    using assms(2) that by (simp add: encode_def)
  show ?thesis
    using sent assms(2) six bytes
    by (cases m) (auto simp: deliver_data_def encode_def decode_def [of W "[]"] split: option.split)
qed

text \<open>The witness: a vote comes back, and a request for a block does not.\<close>

theorem codec_roundtrip_witness:
  "\<exists>bs. encode sample_wire (PtrVote (Some (sample_wire_vote 7))) = Inr bs
     \<and> decode sample_wire bs = (PtrVote (Some (sample_wire_vote 7)), None)
     \<and> encode sample_wire (PtrGetFullBlockRequest 7) = encode sample_wire (PtrGetFullBlockRequest 8)"
proof -
  obtain bs where bs: "encode sample_wire (PtrVote (Some (sample_wire_vote 7))) = Inr bs"
    by (simp add: encode_def encodeVote_def sample_wire_def sample_wire_vote_def)
  show ?thesis using codec_roundtrip [OF sample_wire_ok bs] bs by (simp add: sample_wire_def encode_def)
qed

end
