(* ===== verification/CS_Votes.thy ===== *)
theory CS_Votes
  imports CS_Rules
begin

text \<open>
  A node votes as soon as it can (\<open>consensus/consensus_state.go\<close>): the proposal of the round is
  answered with a prevote in the very step that takes it in, and the prevote that completes a
  majority for the proposal block is answered with a lock and a precommit. The rules of
  \<open>CS_Rules\<close> say what such votes may be for; here they are known to be cast.
\<close>

section \<open>Casting a vote\<close>

text \<open>The node is a validator of the height, with a signer that returns signatures.\<close>

definition can_sign ::
  "('val, 'vs, 'hvs, 'blk, 'bs, 'pv) node \<Rightarrow> ('val, 'vs, 'hvs, 'blk, 'bs, 'pv) consensus_state \<Rightarrow> bool" where
  "can_sign N cs \<longleftrightarrow> (\<exists>pv k. privValidator cs = Some pv \<and> privValidatorPubKey cs = Some k
     \<and> vals_HasAddress N (Validators cs) (pubkey_Address k)
     \<and> (\<forall>now ch v. fst (pv_SignVote N pv now ch v) = None))"

text \<open>A vote that the private validator returned for the position of the node.\<close>

definition own_vote ::
  "('val, 'vs, 'hvs, 'blk, 'bs, 'pv) node \<Rightarrow> ('val, 'vs, 'hvs, 'blk, 'bs, 'pv) consensus_state
     \<Rightarrow> SignedMsgType \<Rightarrow> hash \<Rightarrow> vote \<Rightarrow> bool" where
  "own_vote N cs T h v \<longleftrightarrow> (\<exists>pv k tm now. privValidator cs = Some pv \<and> privValidatorPubKey cs = Some k
     \<and> pv_SignVote N pv now (st_ChainID (chainState cs))
         \<lparr>v_ValidatorAddress = pubkey_Address k,
          v_ValidatorIndex = fst (vals_GetByAddress N (Validators cs) (pubkey_Address k)), v_Height = Height cs,
          v_Round = Round cs, v_TimestampMs = tm, v_Type = T, v_BlockID = h, v_Signature = []\<rparr> = (None, v))"

text \<open>A message is put on the queue, or waits in a goroutine when the queue is full.\<close>

definition sent ::
  "'blk message \<Rightarrow> ('val, 'vs, 'hvs, 'blk, 'bs, 'pv) consensus_state
     \<Rightarrow> ('val, 'vs, 'hvs, 'blk, 'bs, 'pv) consensus_state \<Rightarrow> bool" where
  "sent m cs t \<longleftrightarrow> (internalMsgQueue t, internalOverflow t) =
     (if length (internalMsgQueue cs) < msgQueueSize
      then (internalMsgQueue cs @ [\<lparr>mi_Msg = m, mi_PeerID = []\<rparr>], internalOverflow cs)
      else (internalMsgQueue cs, internalOverflow cs @ [\<lparr>mi_Msg = m, mi_PeerID = []\<rparr>]))"

lemma sent_in: "sent m cs t \<Longrightarrow> \<lparr>mi_Msg = m, mi_PeerID = []\<rparr> \<in> set (internalMsgQueue t @ internalOverflow t)"
  by (auto simp: sent_def split: if_splits)

text \<open>One vote is signed, for \<open>h\<close> and the position of the node, and sent.\<close>

definition casts ::
  "('val, 'vs, 'hvs, 'blk, 'bs, 'pv) node \<Rightarrow> SignedMsgType \<Rightarrow> hash
     \<Rightarrow> ('val, 'vs, 'hvs, 'blk, 'bs, 'pv) consensus_state
     \<Rightarrow> ('val, 'vs, 'hvs, 'blk, 'bs, 'pv) consensus_state \<Rightarrow> bool" where
  "casts N T h cs t \<longleftrightarrow> (\<exists>v. own_vote N cs T h v \<and> new_votes cs t = [v]
     \<and> vote_key v = (Height cs, Round cs, T) \<and> v_BlockID v = h \<and> sent (VoteMessage v) cs t)"

text \<open>What a vote step leaves alone, besides the position and the lock.\<close>

definition kept ::
  "('val, 'vs, 'hvs, 'blk, 'bs, 'pv) consensus_state
     \<Rightarrow> ('val, 'vs, 'hvs, 'blk, 'bs, 'pv) consensus_state \<Rightarrow> bool" where
  "kept cs t \<longleftrightarrow> privValidator t = privValidator cs \<and> privValidatorPubKey t = privValidatorPubKey cs
     \<and> Validators t = Validators cs \<and> chainState t = chainState cs \<and> blockStore t = blockStore cs
     \<and> cs_config t = cs_config cs"

text \<open>The queues, the history and the keys are all that matters.\<close>

lemma casts_cong:
  assumes "casts N T h cs t" and "Height cs' = Height cs" "Round cs' = Round cs" "signedVotes cs' = signedVotes cs"
    "kept cs cs'" "internalMsgQueue cs' = internalMsgQueue cs" "internalOverflow cs' = internalOverflow cs"
    and "signedVotes t' = signedVotes t" "internalMsgQueue t' = internalMsgQueue t"
      "internalOverflow t' = internalOverflow t"
  shows "casts N T h cs' t'"
proof -
  have "own_vote N cs' T h v = own_vote N cs T h v" "sent m cs' t' = sent m cs t" "new_votes cs' t' = new_votes cs t"
    for v m
    using assms(2-) by (simp_all add: own_vote_def sent_def new_votes_def kept_def)
  then show ?thesis using assms(1-3) by (simp add: casts_def)
qed

lemma can_sign_cong:
  assumes "can_sign N cs" and "privValidator cs' = privValidator cs"
    "privValidatorPubKey cs' = privValidatorPubKey cs" "Validators cs' = Validators cs"
  shows "can_sign N cs'"
  using assms by (simp add: can_sign_def)

context consensus_node
begin

lemma signAddVote_signs:
  assumes "can_sign N cs"
  shows "\<exists>v c. own_vote N cs T h v \<and> vote_key v = (Height cs, Round cs, T) \<and> v_BlockID v = h
    \<and> signAddVote N T h cs = sendInternalMessage \<lparr>mi_Msg = VoteMessage v, mi_PeerID = []\<rparr>
        (cs\<lparr>cs_clock := c, signedVotes := signedVotes cs @ [v]\<rparr>)"
proof -
  obtain pv k where c: "privValidator cs = Some pv" "privValidatorPubKey cs = Some k"
      "vals_HasAddress N (Validators cs) (pubkey_Address k)"
    and ok: "\<And>now ch v. fst (pv_SignVote N pv now ch v) = None"
    using assms by (auto simp: can_sign_def)
  let ?v = "\<lambda>tm. \<lparr>v_ValidatorAddress = pubkey_Address k,
      v_ValidatorIndex = fst (vals_GetByAddress N (Validators cs) (pubkey_Address k)), v_Height = Height cs,
      v_Round = Round cs, v_TimestampMs = tm, v_Type = T, v_BlockID = h, v_Signature = []\<rparr>"
  obtain tm where tm: "voteTime N cs = (tm, cs\<lparr>cs_clock := Suc (cs_clock cs)\<rparr>)"
    by (simp add: voteTime_def CanonicalNowMs_def Let_def)
  obtain now v where v: "pv_SignVote N pv now (st_ChainID (chainState cs)) (?v tm) = (None, v)"
    and s: "signVote N pv T h cs
      = (Inr v, cs\<lparr>cs_clock := Suc (Suc (cs_clock cs)), signedVotes := signedVotes cs @ [v]\<rparr>)"
    using ok [of "Canonical (TimeNow N (Suc (cs_clock cs)))" "st_ChainID (chainState cs)" "?v tm"] c(2) tm
    by (cases "pv_SignVote N pv (Canonical (TimeNow N (Suc (cs_clock cs)))) (st_ChainID (chainState cs)) (?v tm)")
      (auto simp: signVote_def CanonicalNow_def case_prod_beta)
  have "vote_key v = (Height cs, Round cs, T)" "v_BlockID v = h"
    using signer.vote_fields [OF v] by (simp_all add: vote_key_def)
  moreover have "own_vote N cs T h v" using c v by (auto simp: own_vote_def)
  ultimately show ?thesis using c s by (auto simp: signAddVote_def)
qed

text \<open>A vote step: the vote is cast, and the node moves on to the step of the vote.\<close>

lemma vote_step_casts:
  assumes "can_sign N u" and "core u = core cs" and "kept cs u"
    and "internalMsgQueue u = internalMsgQueue cs" "internalOverflow u = internalOverflow cs"
    and "t = newStep (updateRoundStep (Round cs) s (signAddVote N T h u))"
  shows "casts N T h cs t" and "pos t = (Height cs, Round cs, s)" and "kept cs t" and "locks t = locks u"
    and "Votes t = Votes u"
proof -
  obtain v c where v: "own_vote N u T h v" "vote_key v = (Height u, Round u, T)" "v_BlockID v = h"
    and s: "signAddVote N T h u = sendInternalMessage \<lparr>mi_Msg = VoteMessage v, mi_PeerID = []\<rparr>
      (u\<lparr>cs_clock := c, signedVotes := signedVotes u @ [v]\<rparr>)"
    using signAddVote_signs [OF assms(1)] by blast
  have e: "Height u = Height cs" "Round u = Round cs" "signedVotes u = signedVotes cs"
    "chainState u = chainState cs"
    using assms(2) by (simp_all add: core_def pos_def)
  have "own_vote N cs T h v" using v(1) e assms(3) unfolding own_vote_def kept_def by simp
  then show "casts N T h cs t"
    using v(2,3) e assms(4,5) unfolding casts_def assms(6) s by (auto simp: new_votes_def sent_def machine_defs)
  show "pos t = (Height cs, Round cs, s)" "kept cs t" "locks t = locks u" "Votes t = Votes u"
    using e assms(3) unfolding assms(6) s by (auto simp: pos_def kept_def locks_def machine_defs)
qed

lemma enterPrevote_casts:
  assumes sign: "can_sign N cs" and early: "Step cs < RoundStepPrevote"
    and block: "ProposalBlock cs = Some b" and valid: "be_ValidateBlock N (chainState cs) b = Inr err"
    and h: "h = (case LockedBlock cs of Some l \<Rightarrow> blk_Hash N l | None \<Rightarrow> if err = None then blk_Hash N b else 0)"
  shows "\<exists>t. enterPrevote N (Height cs) (Round cs) cs = Inr t \<and> casts N PrevoteType h cs t
    \<and> pos t = (Height cs, Round cs, RoundStepPrevote) \<and> kept cs t \<and> locks t = locks cs \<and> Votes t = Votes cs"
proof -
  define t where "t = newStep (updateRoundStep (Round cs) RoundStepPrevote (signAddVote N PrevoteType h cs))"
  have "defaultDoPrevote N (Height cs) (Round cs) cs = Inr (signAddVote N PrevoteType h cs)"
    using block valid h by (auto simp: defaultDoPrevote_def split: option.splits)
  then have "enterPrevote N (Height cs) (Round cs) cs = Inr t"
    using early by (auto simp: enterPrevote_def t_def)
  with vote_step_casts [OF sign refl _ refl refl t_def] show ?thesis by (simp add: kept_def)
qed

lemma enterPrecommit_casts:
  assumes sign: "can_sign N cs" and early: "Step cs < RoundStepPrecommit"
    and polka: "vs_TwoThirdsMajority N (hvs_Prevotes N (Votes cs) (Round cs)) = (h, True)" and "h \<noteq> 0"
    and pol: "Round cs \<le> fst (hvs_POLInfo N (Votes cs))"
    and block: "ProposalBlock cs = Some b" and hash: "blk_HashTo N (Some b) h"
    and valid: "be_ValidateBlock N (chainState cs) b = Inr None"
  shows "\<exists>t. enterPrecommit N (Height cs) (Round cs) cs = Inr t \<and> casts N PrecommitType h cs t
    \<and> pos t = (Height cs, Round cs, RoundStepPrecommit) \<and> kept cs t \<and> Votes t = Votes cs
    \<and> LockedRound t = Round cs \<and> ProposalBlock t = Some b
    \<and> LockedBlock t = (if blk_HashTo N (LockedBlock cs) h then LockedBlock cs else Some b)"
proof -
  define u where "u = cs\<lparr>LockedRound := Round cs,
    LockedBlock := if blk_HashTo N (LockedBlock cs) h then LockedBlock cs else ProposalBlock cs\<rparr>"
  have "enterPrecommit_body N (Height cs) (Round cs) cs = Inr (signAddVote N PrecommitType h u)"
    using assms by (auto simp: enterPrecommit_body_def u_def not_less)
  moreover define t where "t = newStep (updateRoundStep (Round cs) RoundStepPrecommit (signAddVote N PrecommitType h u))"
  ultimately have "enterPrecommit N (Height cs) (Round cs) cs = Inr t"
    using early by (auto simp: enterPrecommit_def)
  moreover have u: "core u = core cs" "can_sign N u" "kept cs u" "internalMsgQueue u = internalMsgQueue cs"
    "internalOverflow u = internalOverflow cs" "Votes u = Votes cs"
    using sign by (simp_all add: u_def core_def pos_def can_sign_def kept_def)
  moreover have "casts N PrecommitType h cs t" "pos t = (Height cs, Round cs, RoundStepPrecommit)" "kept cs t"
    "locks t = locks u" "Votes t = Votes u"
    by (rule vote_step_casts [OF u(2,1,3,4,5) t_def])+
  moreover have "LockedRound t = Round cs" "ProposalBlock t = Some b"
    "LockedBlock t = (if blk_HashTo N (LockedBlock cs) h then LockedBlock cs else Some b)"
    using \<open>locks t = locks u\<close> block by (simp_all add: locks_def u_def)
  ultimately show ?thesis by simp
qed

end

section \<open>Proposing\<close>

text \<open>The proposer of the round has a signer that returns signatures, and a block to propose: its valid
  block, or a new one.\<close>

definition can_propose ::
  "('val, 'vs, 'hvs, 'blk, 'bs, 'pv) node \<Rightarrow> ('val, 'vs, 'hvs, 'blk, 'bs, 'pv) consensus_state \<Rightarrow> 'blk \<Rightarrow> bool" where
  "can_propose N cs b \<longleftrightarrow> (\<exists>pv k. privValidator cs = Some pv \<and> privValidatorPubKey cs = Some k
     \<and> vals_HasAddress N (Validators cs) (pubkey_Address k)
     \<and> isProposer N (pubkey_Address k) cs = Inr True
     \<and> (\<forall>ch p. fst (pv_SignProposal N pv ch p) = None)
     \<and> (case ValidBlock cs of Some v \<Rightarrow> b = v | None \<Rightarrow> createProposalBlock N cs = Inr (Some b)))"

lemma createProposalBlock_tick [simp]:
  "createProposalBlock N (scheduleTimeout d h r s cs) = createProposalBlock N cs"
  by (simp add: createProposalBlock_def machine_defs cong: option.case_cong if_cong)

lemma isProposer_tick [simp]: "isProposer N a (scheduleTimeout d h r s cs) = isProposer N a cs"
  by (simp add: isProposer_def machine_defs)

lemma defaultDecideProposal_queues:
  assumes "(case ValidBlock cs of Some v \<Rightarrow> Inr (Some v) | None \<Rightarrow> createProposalBlock N cs) = Inr (Some b)"
    and "privValidator cs = Some pv"
    and "pv_SignProposal N pv (st_ChainID (chainState cs)) (NewProposal N height round (ValidRound cs) (Some b)) = (None, p)"
  shows "defaultDecideProposal N height round cs = Inr (sendInternalMessage
    \<lparr>mi_Msg = ProposalMessage p, mi_PeerID = []\<rparr> (cs\<lparr>signedProposals := signedProposals cs @ [p]\<rparr>))"
  using assms by (simp add: defaultDecideProposal_def)

context consensus_node
begin

lemma enterPropose_proposes:
  assumes new: "new_proposal_ok N" and can: "can_propose N cs b" and first: "Proposal cs = None"
    and step: "Round cs < round \<or> Round cs = round \<and> Step cs < RoundStepPropose"
  shows "\<exists>t p pv q. enterPropose N (Height cs) round cs = Inr t \<and> signedProposals t = signedProposals cs @ [p]
    \<and> sent (ProposalMessage p) cs t
    \<and> p_Height p = Height cs \<and> p_Round p = round \<and> p_POLRound p = ValidRound cs \<and> p_Block p = Some b
    \<and> pos t = (Height cs, round, RoundStepPropose) \<and> kept cs t \<and> locks t = locks cs \<and> Votes t = Votes cs
    \<and> privValidator cs = Some pv \<and> pv_SignProposal N pv (st_ChainID (chainState cs)) q = (None, p)"
proof -
  let ?u = "scheduleTimeout (cfg_Propose N (cs_config cs) round) (Height cs) round RoundStepPropose cs"
  obtain pv k where c: "privValidator cs = Some pv" "privValidatorPubKey cs = Some k"
      "vals_HasAddress N (Validators cs) (pubkey_Address k)" "isProposer N (pubkey_Address k) cs = Inr True"
    and ok: "\<And>ch p. fst (pv_SignProposal N pv ch p) = None"
    and b: "(case ValidBlock cs of Some v \<Rightarrow> Inr (Some v) | None \<Rightarrow> createProposalBlock N cs) = Inr (Some b)"
    using can by (auto simp: can_propose_def split: option.splits)
  let ?q = "NewProposal N (Height cs) round (ValidRound cs) (Some b)"
  obtain p where p: "pv_SignProposal N pv (st_ChainID (chainState cs)) ?q = (None, p)"
    using ok by (metis prod.collapse)
  have f: "p_Height p = Height cs" "p_Round p = round" "p_POLRound p = ValidRound cs" "p_Block p = Some b"
    using signer.proposal_fields [OF p] new by (simp_all add: new_proposal_ok_def)
  define w where "w = sendInternalMessage \<lparr>mi_Msg = ProposalMessage p, mi_PeerID = []\<rparr>
    (?u\<lparr>signedProposals := signedProposals ?u @ [p]\<rparr>)"
  have u: "privValidator ?u = Some pv" "privValidatorPubKey ?u = Some k" "Validators ?u = Validators cs"
    "ValidBlock ?u = ValidBlock cs" "chainState ?u = chainState cs" "ValidRound ?u = ValidRound cs"
    by (simp_all add: c machine_defs)
  have "defaultDecideProposal N (Height cs) round ?u = Inr w"
    unfolding w_def
    by (rule defaultDecideProposal_queues [where cs = ?u and pv = pv and b = b]) (use u b p in \<open>simp_all cong: option.case_cong\<close>)
  then have body: "enterPropose_body N (Height cs) round cs = Inr w"
    using u c by (simp add: enterPropose_body_def Let_def)
  define t where "t = newStep (updateRoundStep round RoundStepPropose w)"
  have w: "Proposal w = None" "Height w = Height cs" "signedProposals w = signedProposals cs @ [p]"
    "sent (ProposalMessage p) cs w" "kept cs w" "locks w = locks cs" "Votes w = Votes cs"
    using first by (simp_all add: w_def machine_defs sent_def kept_def locks_def)
  have "\<not> isProposalComplete N t" using w(1) by (simp add: t_def isProposalComplete_def machine_defs)
  then have "enterPropose N (Height cs) round cs = Inr t"
    using body step by (auto simp: enterPropose_def t_def [symmetric])
  moreover have "signedProposals t = signedProposals w" "sent (ProposalMessage p) cs t" "kept cs t" "locks t = locks w"
    "Votes t = Votes w" "pos t = (Height cs, round, RoundStepPropose)"
    using w by (simp_all add: t_def machine_defs pos_def kept_def locks_def sent_def)
  ultimately show ?thesis using w f c(1) p by auto
qed

end

section \<open>Messages\<close>

text \<open>What the proposal of the round is checked for: its position, its POL round and the signature of the
  proposer.\<close>

definition proposal_fits ::
  "('val, 'vs, 'hvs, 'blk, 'bs, 'pv) node \<Rightarrow> ('val, 'vs, 'hvs, 'blk, 'bs, 'pv) consensus_state
     \<Rightarrow> 'blk proposal \<Rightarrow> bool" where
  "proposal_fits N cs p \<longleftrightarrow> p_Height p = Height cs \<and> p_Round p = Round cs
     \<and> (p_POLRound p = - 1 \<or> 0 \<le> p_POLRound p \<and> p_POLRound p < Round cs)
     \<and> (\<exists>v. vals_GetProposer N (Validators cs) = Some v
          \<and> PubKey_VerifySignature N (val_PubKey v)
              (ProposalSignBytes N p (st_ChainID (chainState cs))) (p_Signature p))"

text \<open>The state with the proposal taken in, \<open>Valid*\<close> updated when the polka is there already.\<close>

definition with_proposal ::
  "('val, 'vs, 'hvs, 'blk, 'bs, 'pv) node \<Rightarrow> 'blk proposal
     \<Rightarrow> ('val, 'vs, 'hvs, 'blk, 'bs, 'pv) consensus_state
     \<Rightarrow> ('val, 'vs, 'hvs, 'blk, 'bs, 'pv) consensus_state" where
  "with_proposal N p cs = (case vs_TwoThirdsMajority N (hvs_Prevotes N (Votes cs) (Round cs)) of
     (h, polka) \<Rightarrow> setProposal_valid N h polka (cs\<lparr>Proposal := Some p, ProposalBlock := p_Block p\<rparr>))"

lemma with_proposal_fields [simp]:
  "Proposal (with_proposal N p cs) = Some p" "ProposalBlock (with_proposal N p cs) = p_Block p"
  "core (with_proposal N p cs) = core cs" "kept cs (with_proposal N p cs)"
  "Votes (with_proposal N p cs) = Votes cs" "LockedBlock (with_proposal N p cs) = LockedBlock cs"
  "internalMsgQueue (with_proposal N p cs) = internalMsgQueue cs"
  "internalOverflow (with_proposal N p cs) = internalOverflow cs"
  by (simp_all add: with_proposal_def setProposal_valid_def core_def pos_def kept_def split: prod.split)

lemma with_proposal_core [simp]:
  "Height (with_proposal N p cs) = Height cs" "Round (with_proposal N p cs) = Round cs"
  "Step (with_proposal N p cs) = Step cs" "signedVotes (with_proposal N p cs) = signedVotes cs"
  "chainState (with_proposal N p cs) = chainState cs"
  using with_proposal_fields(3) [of N p cs] by (simp_all add: core_def pos_def)

lemma with_proposal_can_sign: "can_sign N cs \<Longrightarrow> can_sign N (with_proposal N p cs)"
  using with_proposal_fields(4) [where N = N and p = p and cs = cs]
  by (auto intro: can_sign_cong simp: kept_def)

lemma handleMsg_proposal:
  assumes "proposal_fits N cs p" and "Proposal cs = None"
  shows "handleMsg N \<lparr>mi_Msg = ProposalMessage p, mi_PeerID = peer\<rparr> cs
    = andThen (setProposal_step N (snd (vs_TwoThirdsMajority N (hvs_Prevotes N (Votes cs) (Round cs))))
        (with_proposal N p cs)) (\<lambda>t. Inr (broadcastMessageToPeers (ProposalMessage p) t))"
proof -
  let ?m = "snd (vs_TwoThirdsMajority N (hvs_Prevotes N (Votes cs) (Round cs)))"
  have "defaultSetProposal N p cs = andThen (setProposal_step N ?m (with_proposal N p cs)) (\<lambda>t. Inr ((True, None), t))"
    using assms by (auto simp: proposal_fits_def defaultSetProposal_def with_proposal_def Let_def split: prod.split)
  then show ?thesis
    by (cases "setProposal_step N ?m (with_proposal N p cs)") (simp_all add: handleMsg_def)
qed

context consensus_node
begin

lemma complete_proposal_casts:
  assumes sign: "can_sign N cs" and first: "Proposal cs = None" and early: "Step cs \<le> RoundStepPropose"
    and fits: "proposal_fits N cs p" and block: "p_Block p = Some b"
    and complete: "p_POLRound p = - 1 \<or> vs_HasTwoThirdsMajority N (hvs_Prevotes N (Votes cs) (p_POLRound p))"
    and valid: "be_ValidateBlock N (chainState cs) b = Inr err"
    and h: "h = (case LockedBlock cs of Some l \<Rightarrow> blk_Hash N l | None \<Rightarrow> if err = None then blk_Hash N b else 0)"
  shows "\<exists>u. handleMsg N \<lparr>mi_Msg = ProposalMessage p, mi_PeerID = peer\<rparr> cs
      = andThen (if snd (vs_TwoThirdsMajority N (hvs_Prevotes N (Votes cs) (Round cs)))
                 then enterPrecommit N (Height cs) (Round cs) u else Inr u)
          (\<lambda>t. Inr (broadcastMessageToPeers (ProposalMessage p) t))
    \<and> casts N PrevoteType h cs u \<and> pos u = (Height cs, Round cs, RoundStepPrevote)
    \<and> kept cs u \<and> locks u = locks (with_proposal N p cs) \<and> Votes u = Votes cs"
proof -
  let ?u = "with_proposal N p cs"
  have u: "can_sign N ?u" "Step ?u < RoundStepPrevote" "ProposalBlock ?u = Some b"
    "be_ValidateBlock N (chainState ?u) b = Inr err"
    using with_proposal_can_sign [OF sign] early valid block by (auto simp: word_le_nat_alt word_less_nat_alt)
  obtain t where t: "enterPrevote N (Height cs) (Round cs) ?u = Inr t" "casts N PrevoteType h ?u t"
    "pos t = (Height cs, Round cs, RoundStepPrevote)" "kept ?u t" "locks t = locks ?u" "Votes t = Votes cs"
    using enterPrevote_casts [OF u, of h] h by auto
  have "isProposalComplete N ?u" using complete block by (auto simp: isProposalComplete_def)
  then have "setProposal_step N polka ?u
      = (if polka then enterPrecommit N (Height cs) (Round cs) t else Inr t)" for polka
    using early t(1,3) by (simp add: setProposal_step_def pos_def)
  moreover have "casts N PrevoteType h cs t"
    using with_proposal_fields(4) [where N = N and p = p and cs = cs]
    by (intro casts_cong [OF t(2)]) (simp_all add: kept_def)
  moreover have "kept cs t"
    using t(4) with_proposal_fields(4) [where N = N and p = p and cs = cs] by (simp add: kept_def)
  ultimately show ?thesis using handleMsg_proposal [OF fits first] t by auto
qed

lemma proposal_casts:
  assumes sign: "can_sign N cs" and first: "Proposal cs = None" and early: "Step cs \<le> RoundStepPropose"
    and p: "p_Height p = Height cs" "p_Round p = Round cs" "p_POLRound p = - 1" "p_Block p = Some b"
    and proposer: "vals_GetProposer N (Validators cs) = Some v"
    and signed: "PubKey_VerifySignature N (val_PubKey v)
        (ProposalSignBytes N p (st_ChainID (chainState cs))) (p_Signature p)"
    and polka: "\<not> snd (vs_TwoThirdsMajority N (hvs_Prevotes N (Votes cs) (Round cs)))"
    and valid: "be_ValidateBlock N (chainState cs) b = Inr err"
    and h: "h = (case LockedBlock cs of Some l \<Rightarrow> blk_Hash N l | None \<Rightarrow> if err = None then blk_Hash N b else 0)"
  shows "\<exists>t. handleMsg N \<lparr>mi_Msg = ProposalMessage p, mi_PeerID = peer\<rparr> cs = Inr t
    \<and> casts N PrevoteType h cs t \<and> pos t = (Height cs, Round cs, RoundStepPrevote)
    \<and> kept cs t \<and> locks t = locks (cs\<lparr>Proposal := Some p, ProposalBlock := Some b\<rparr>) \<and> Votes t = Votes cs"
proof -
  have fits: "proposal_fits N cs p" using p proposer signed by (simp add: proposal_fits_def)
  have l: "with_proposal N p cs = cs\<lparr>Proposal := Some p, ProposalBlock := Some b\<rparr>"
    using polka p(4) by (cases "vs_TwoThirdsMajority N (hvs_Prevotes N (Votes cs) (Round cs))")
      (simp add: with_proposal_def setProposal_valid_def)
  obtain t where t: "handleMsg N \<lparr>mi_Msg = ProposalMessage p, mi_PeerID = peer\<rparr> cs
      = Inr (broadcastMessageToPeers (ProposalMessage p) t)"
    "casts N PrevoteType h cs t" "pos t = (Height cs, Round cs, RoundStepPrevote)" "kept cs t"
    "locks t = locks (cs\<lparr>Proposal := Some p, ProposalBlock := Some b\<rparr>)" "Votes t = Votes cs"
    using complete_proposal_casts [OF sign first early fits p(4) _ valid h] p(3) polka l by auto
  have "casts N PrevoteType h cs (broadcastMessageToPeers (ProposalMessage p) t)"
    by (rule casts_cong [OF t(2)]) (simp_all add: machine_defs kept_def)
  moreover have "locks (broadcastMessageToPeers (ProposalMessage p) t) = locks t"
    "kept cs (broadcastMessageToPeers (ProposalMessage p) t)"
    using t(4) by (simp_all add: machine_defs kept_def locks_def)
  ultimately show ?thesis using t by (simp add: machine_defs pos_def)
qed

lemma addVote_polka_fields:
  assumes "blk_HashTo N (ProposalBlock cs) h"
  shows "core (addVote_polka N vote h cs) = core cs" "Votes (addVote_polka N vote h cs) = Votes cs"
    "ProposalBlock (addVote_polka N vote h cs) = ProposalBlock cs" "Proposal (addVote_polka N vote h cs) = Proposal cs"
    "can_sign N (addVote_polka N vote h cs) = can_sign N cs" "kept c (addVote_polka N vote h cs) = kept c cs"
    "internalMsgQueue (addVote_polka N vote h cs) = internalMsgQueue cs"
    "internalOverflow (addVote_polka N vote h cs) = internalOverflow cs"
  using assms by (simp_all add: addVote_polka_def Let_def core_def pos_def can_sign_def kept_def)

lemma polka_casts:
  assumes sign: "can_sign N cs" and step: "RoundStepPrevote \<le> Step cs" "Step cs < RoundStepPrecommit"
    and vote: "v_Height vote = Height cs" "v_Round vote = Round cs" "v_Type vote = PrevoteType"
    and added: "hvs_AddVote N vote peer (Votes cs) = Inr ((True, err), vs)"
    and polka: "vs_TwoThirdsMajority N (hvs_Prevotes N vs (Round cs)) = (h, True)" and h: "h \<noteq> 0"
    and pol: "Round cs \<le> fst (hvs_POLInfo N vs)"
    and complete: "isProposalComplete N (cs\<lparr>Votes := vs\<rparr>)"
    and block: "ProposalBlock cs = Some b" "blk_HashTo N (Some b) h"
    and valid: "be_ValidateBlock N (chainState cs) b = Inr None"
  shows "\<exists>t. handleMsg N \<lparr>mi_Msg = VoteMessage vote, mi_PeerID = peer\<rparr> cs = Inr t
    \<and> casts N PrecommitType h cs t \<and> pos t = (Height cs, Round cs, RoundStepPrecommit)
    \<and> kept cs t \<and> Votes t = vs
    \<and> LockedRound t = Round cs \<and> blk_HashTo N (LockedBlock t) h \<and> ProposalBlock t = Some b
    \<and> (LockedBlock cs = None \<longrightarrow> LockedBlock t = None \<or> LockedBlock t = Some b)"
proof -
  define u where "u = addVote_polka N vote h (cs\<lparr>Votes := vs\<rparr>)"
  have f: "core u = core cs" "Votes u = vs" "ProposalBlock u = Some b" "Proposal u = Proposal cs"
    "can_sign N u" "kept cs u" "internalMsgQueue u = internalMsgQueue cs" "internalOverflow u = internalOverflow cs"
    using addVote_polka_fields [where cs = "cs\<lparr>Votes := vs\<rparr>" and h = h and vote = vote] block sign
    by (simp_all add: u_def core_def pos_def) (simp_all add: can_sign_def kept_def)
  then have g: "Height u = Height cs" "Round u = Round cs" "Step u = Step cs" "chainState u = chainState cs"
    "signedVotes u = signedVotes cs"
    by (simp_all add: core_def pos_def)
  have "isProposalComplete N u"
    using complete f block(1) by (auto simp: isProposalComplete_def split: option.splits if_splits)
  moreover obtain t where t: "enterPrecommit N (Height cs) (Round cs) u = Inr t" "casts N PrecommitType h u t"
    "pos t = (Height cs, Round cs, RoundStepPrecommit)" "kept u t" "Votes t = vs" "LockedRound t = Round cs"
    "ProposalBlock t = Some b" "LockedBlock t = (if blk_HashTo N (LockedBlock u) h then LockedBlock u else Some b)"
    using enterPrecommit_casts [OF f(5), of h b] step(2) polka h pol block(2) valid f g by (auto split del: if_split)
  ultimately have "addVote_prevote N (Height cs) vote (cs\<lparr>Votes := vs\<rparr>) = Inr t"
    using vote polka step(1) g by (simp add: addVote_prevote_def u_def [symmetric])
  then have "addVote N vote peer cs = Inr ((True, err), t)"
    using vote added by (simp add: addVote_def)
  then obtain c where m: "handleMsg N \<lparr>mi_Msg = VoteMessage vote, mi_PeerID = peer\<rparr> cs
      = Inr (if c then broadcastMessageToPeers (VoteMessage vote) t else t)"
    by (auto simp: handleMsg_def tryAddVote_def case_prod_beta)
  define w where "w = (if c then broadcastMessageToPeers (VoteMessage vote) t else t)"
  have "casts N PrecommitType h cs w"
    by (rule casts_cong [OF t(2)]) (use f g in \<open>simp_all add: w_def machine_defs kept_def\<close>)
  moreover have "kept cs w" "pos w = pos t" "Votes w = vs" "LockedRound w = LockedRound t" "LockedBlock w = LockedBlock t"
    "ProposalBlock w = ProposalBlock t"
    using t(4,5) f(6) by (simp_all add: w_def machine_defs pos_def kept_def)
  moreover have "blk_HashTo N (LockedBlock t) h" using t(8) block(2) by simp
  moreover have "LockedBlock u = None" if "LockedBlock cs = None"
    using that by (simp add: u_def addVote_polka_def Let_def)
  ultimately show ?thesis using m t(3,6,7,8) by (simp add: w_def [symmetric])
qed

end

section \<open>Sample states\<close>

lemma sample_can_sign:
  assumes "privValidator cs = Some sample_key" and "privValidatorPubKey cs = Some (EcdsaPubKey 5)"
    and "Validators cs = Some sample_validators"
  shows "can_sign sample_node cs"
  using assms
  by (simp add: can_sign_def sample_validators_def sample_run_defs PrivValidatorLocal_SignVote_def sign_result_def
      NewPrivValidatorLocal_def Let_def)

lemma sample_run_can_sign:
  "\<exists>s. sample_run [TickerTick, TickerFire, Tock 0] = Some s \<and> can_sign sample_node (sys_cs s)"
  "\<exists>s. sample_run [TickerTick, TickerFire, Tock 0, InternalMsg] = Some s \<and> can_sign sample_node (sys_cs s)"
proof -
  have "\<exists>s. sample_run [TickerTick, TickerFire, Tock 0] = Some s \<and> privValidator (sys_cs s) = Some sample_key
      \<and> privValidatorPubKey (sys_cs s) = Some (EcdsaPubKey 5) \<and> Validators (sys_cs s) = Some sample_validators"
    by (simp add: sample_run_defs sample_validators_def state_machine_defs library_defs cong: eval_cong)
  then show "\<exists>s. sample_run [TickerTick, TickerFire, Tock 0] = Some s \<and> can_sign sample_node (sys_cs s)"
    using sample_can_sign by blast
  have "\<exists>s. sample_run [TickerTick, TickerFire, Tock 0, InternalMsg] = Some s \<and> privValidator (sys_cs s) = Some sample_key
      \<and> privValidatorPubKey (sys_cs s) = Some (EcdsaPubKey 5) \<and> Validators (sys_cs s) = Some sample_validators"
    by (simp add: sample_run_defs sample_validators_def state_machine_defs library_defs cong: eval_cong)
  then show "\<exists>s. sample_run [TickerTick, TickerFire, Tock 0, InternalMsg] = Some s \<and> can_sign sample_node (sys_cs s)"
    using sample_can_sign by blast
qed

lemma sample_proposal_queued:
  "\<exists>s p b v mis. sample_run [TickerTick, TickerFire, Tock 0] = Some s
     \<and> internalMsgQueue (sys_cs s) = \<lparr>mi_Msg = ProposalMessage p, mi_PeerID = []\<rparr> # mis
     \<and> Height (sys_cs s) = 1 \<and> Round (sys_cs s) = 0 \<and> Step (sys_cs s) = RoundStepPropose
     \<and> Proposal (sys_cs s) = None \<and> LockedBlock (sys_cs s) = None
     \<and> p_Height p = 1 \<and> p_Round p = 0 \<and> p_POLRound p = - 1 \<and> p_Block p = Some b
     \<and> vals_GetProposer sample_ext (Validators (sys_cs s)) = Some v
     \<and> PubKey_VerifySignature sample_ext (val_PubKey v)
         (ProposalSignBytes sample_ext p (st_ChainID (chainState (sys_cs s)))) (p_Signature p)
     \<and> \<not> snd (vs_TwoThirdsMajority sample_ext (hvs_Prevotes sample_ext (Votes (sys_cs s)) 0))
     \<and> validateBlock sample_ext (chainState (sys_cs s)) b = Inr None"
  by (simp add: sample_run_defs state_machine_defs library_defs cong: eval_cong)

lemma sample_prevote_queued:
  "\<exists>s vote err vs h b mis. sample_run [TickerTick, TickerFire, Tock 0, InternalMsg] = Some s
     \<and> internalMsgQueue (sys_cs s) = \<lparr>mi_Msg = VoteMessage vote, mi_PeerID = []\<rparr> # mis
     \<and> Height (sys_cs s) = 1 \<and> Round (sys_cs s) = 0 \<and> Step (sys_cs s) = RoundStepPrevote
     \<and> v_Height vote = 1 \<and> v_Round vote = 0 \<and> v_Type vote = PrevoteType
     \<and> hvs_AddVote sample_ext vote [] (Votes (sys_cs s)) = Inr ((True, err), vs)
     \<and> vs_TwoThirdsMajority sample_ext (hvs_Prevotes sample_ext vs 0) = (h, True) \<and> h \<noteq> 0
     \<and> 0 \<le> fst (hvs_POLInfo sample_ext vs)
     \<and> isProposalComplete (default_node sample_ext sample_block_db) (sys_cs s\<lparr>Votes := vs\<rparr>)
     \<and> ProposalBlock (sys_cs s) = Some b \<and> blk_HashTo sample_ext (Some b) h
     \<and> validateBlock sample_ext (chainState (sys_cs s)) b = Inr None"
  by (simp add: sample_run_defs state_machine_defs library_defs cong: eval_cong)

section \<open>Properties\<close>

text \<open>C21. A proposer proposes as soon as it enters the propose step. When a node that is the proposer of
  the round enters it from an earlier round or step, it signs exactly one proposal, for its height
  and the round, of its valid block with the round of its polka, or of a block it makes, puts it on
  its queue and is in the propose step.\<close>

theorem proposer_proposes:
  assumes "new_proposal_ok E" and "can_propose (default_node E D) cs b" and "Proposal cs = None"
    and "Round cs < round \<or> Round cs = round \<and> Step cs < RoundStepPropose"
  shows "\<exists>t p. enterPropose (default_node E D) (Height cs) round cs = Inr t
    \<and> signedProposals t = signedProposals cs @ [p]
    \<and> \<lparr>mi_Msg = ProposalMessage p, mi_PeerID = []\<rparr> \<in> set (internalMsgQueue t @ internalOverflow t)
    \<and> p_Height p = Height cs \<and> p_Round p = round \<and> p_POLRound p = ValidRound cs \<and> p_Block p = Some b
    \<and> Height t = Height cs \<and> Round t = round \<and> Step t = RoundStepPropose"
proof -
  have "new_proposal_ok (default_node E D)"
    using assms(1) by (simp add: new_proposal_ok_def default_node_def ext.defs)
  from default_consensus.enterPropose_proposes [OF this assms(2-4)] show ?thesis
    by (fastforce simp: pos_def dest: sent_in)
qed

theorem proposer_proposes_witness:
  "\<exists>t p. enterPropose (default_node sample_ext sample_block_db) 1 0 (sample_proposed\<lparr>Step := RoundStepNewRound\<rparr>) = Inr t
     \<and> signedProposals t = [p] \<and> p_Height p = 1 \<and> p_Round p = 0 \<and> Step t = RoundStepPropose"
proof -
  let ?cs = "sample_proposed\<lparr>Step := RoundStepNewRound\<rparr>"
  obtain b where b: "can_propose (default_node sample_ext sample_block_db) ?cs b"
    by (simp add: can_propose_def sample_state_defs)
  have f: "Proposal ?cs = None" "Height ?cs = 1" "Round ?cs = 0" "Step ?cs < RoundStepPropose"
    "signedProposals ?cs = []"
    by (simp_all add: sample_state_defs)
  show ?thesis
    using proposer_proposes [OF sample_hypotheses(2) b f(1), of 0] f by auto
qed

text \<open>C22. The first proposal of a round is answered as soon as it arrives. A validator that has not
  prevoted in the round takes in a proposal with a block for its position, signed by the proposer,
  with a POL round that is \<open>-1\<close> or an earlier round. If the proposal names no POL round, or the node
  has that round's majority of prevotes, the node signs and queues exactly one prevote and enters
  the prevote step: for its locked block if it has one, else for the proposed block if that passes
  validation, else for nil; and if the prevotes of the round itself have their majority already, it
  enters the precommit step from there. If the node lacks the majority of the POL round, it keeps
  the proposal, signs nothing and stays where it is.\<close>

theorem proposal_is_answered:
  assumes "can_sign (default_node E D) cs" and "Proposal cs = None" and "Step cs \<le> RoundStepPropose"
    and "p_Height p = Height cs" and "p_Round p = Round cs" and "p_Block p = Some b"
    and "p_POLRound p = - 1 \<or> 0 \<le> p_POLRound p \<and> p_POLRound p < Round cs"
    and "vals_GetProposer E (Validators cs) = Some v"
    and "PubKey_VerifySignature E (val_PubKey v) (ProposalSignBytes E p (st_ChainID (chainState cs))) (p_Signature p)"
    and "validateBlock E (chainState cs) b = Inr err"
  shows "if p_POLRound p = - 1 \<or> vs_HasTwoThirdsMajority E (hvs_Prevotes E (Votes cs) (p_POLRound p))
    then \<exists>u vote. handleMsg (default_node E D) \<lparr>mi_Msg = ProposalMessage p, mi_PeerID = peer\<rparr> cs
          = andThen (if snd (vs_TwoThirdsMajority E (hvs_Prevotes E (Votes cs) (Round cs)))
                     then enterPrecommit (default_node E D) (Height cs) (Round cs) u else Inr u)
              (\<lambda>t. Inr (broadcastMessageToPeers (ProposalMessage p) t))
      \<and> Height u = Height cs \<and> Round u = Round cs \<and> Step u = RoundStepPrevote
      \<and> new_votes cs u = [vote]
      \<and> \<lparr>mi_Msg = VoteMessage vote, mi_PeerID = []\<rparr> \<in> set (internalMsgQueue u @ internalOverflow u)
      \<and> v_Height vote = Height cs \<and> v_Round vote = Round cs \<and> v_Type vote = PrevoteType
      \<and> v_BlockID vote = (case LockedBlock cs of
            Some locked \<Rightarrow> blk_Hash E locked | None \<Rightarrow> if err = None then blk_Hash E b else 0)
    else \<exists>t. handleMsg (default_node E D) \<lparr>mi_Msg = ProposalMessage p, mi_PeerID = peer\<rparr> cs = Inr t
      \<and> Proposal t = Some p \<and> ProposalBlock t = Some b \<and> new_votes cs t = []
      \<and> Height t = Height cs \<and> Round t = Round cs \<and> Step t = Step cs"
proof -
  have f: "vals_GetProposer (default_node E D) = vals_GetProposer E"
    "PubKey_VerifySignature (default_node E D) = PubKey_VerifySignature E"
    "ProposalSignBytes (default_node E D) = ProposalSignBytes E"
    "vs_HasTwoThirdsMajority (default_node E D) = vs_HasTwoThirdsMajority E"
    by (simp_all add: default_node_def ext.defs)
  have fits: "proposal_fits (default_node E D) cs p" using assms(4,5,7-9) by (simp add: proposal_fits_def f)
  show ?thesis
  proof (cases "p_POLRound p = - 1 \<or> vs_HasTwoThirdsMajority E (hvs_Prevotes E (Votes cs) (p_POLRound p))")
    case True
    then show ?thesis
      using default_consensus.complete_proposal_casts [OF assms(1-3) fits assms(6), unfolded f default_node_fields,
          OF True assms(10) refl, of peer]
      by (fastforce simp: casts_def vote_key_def pos_def dest: sent_in)
  next
    case False
    then have "\<not> isProposalComplete (default_node E D) (with_proposal (default_node E D) p cs)"
      using assms(6,7) by (auto simp: isProposalComplete_def f default_node_fields)
    moreover have "Step cs \<noteq> RoundStepCommit" using assms(3) by auto
    ultimately show ?thesis
      using False handleMsg_proposal [OF fits assms(2), of peer] assms(6)
      by (simp add: setProposal_step_def machine_defs new_votes_def)
  qed
qed

text \<open>The witness: the sample node takes in its own proposal, and prevotes.\<close>

theorem proposal_is_answered_witness:
  "\<exists>s t vote p. sample_run [TickerTick, TickerFire, Tock 0] = Some s
     \<and> handleMsg (default_node sample_ext sample_block_db) \<lparr>mi_Msg = ProposalMessage p, mi_PeerID = []\<rparr> (sys_cs s) = Inr t
     \<and> Step t = RoundStepPrevote \<and> new_votes (sys_cs s) t = [vote] \<and> v_Type vote = PrevoteType"
proof -
  obtain s p b v where r: "sample_run [TickerTick, TickerFire, Tock 0] = Some s"
    and q: "Height (sys_cs s) = 1" "Round (sys_cs s) = 0" "Step (sys_cs s) = RoundStepPropose"
      "Proposal (sys_cs s) = None"
    and p: "p_Height p = 1" "p_Round p = 0" "p_POLRound p = - 1" "p_Block p = Some b"
    and v: "vals_GetProposer sample_ext (Validators (sys_cs s)) = Some v"
      "PubKey_VerifySignature sample_ext (val_PubKey v)
         (ProposalSignBytes sample_ext p (st_ChainID (chainState (sys_cs s)))) (p_Signature p)"
    and m: "\<not> snd (vs_TwoThirdsMajority sample_ext (hvs_Prevotes sample_ext (Votes (sys_cs s)) 0))"
    and b: "validateBlock sample_ext (chainState (sys_cs s)) b = Inr None"
    using sample_proposal_queued by (elim exE conjE)
  have c: "can_sign (default_node sample_ext sample_block_db) (sys_cs s)"
    using sample_run_can_sign(1) r by (simp add: sample_node_def)
  obtain u vote where
      "handleMsg (default_node sample_ext sample_block_db) \<lparr>mi_Msg = ProposalMessage p, mi_PeerID = []\<rparr> (sys_cs s)
        = Inr (broadcastMessageToPeers (ProposalMessage p) u)"
    and "Step u = RoundStepPrevote" "new_votes (sys_cs s) u = [vote]" "v_Type vote = PrevoteType"
    using proposal_is_answered [where peer = "[]" and D = sample_block_db, OF c q(4) _ _ _ p(4) _ v b] q p m
    by auto
  then show ?thesis using r by (auto simp: machine_defs new_votes_def)
qed

text \<open>C23. A polka is precommitted as soon as it is seen. A validator in the prevote step of a round
  that holds the complete proposal and takes in the prevote that completes a majority of the round
  for the proposed block, a valid one, locks that block in this round, signs and queues exactly one
  precommit, for it, and enters the precommit step, whatever it was locked on before.\<close>

theorem polka_is_precommitted:
  assumes "can_sign (default_node E D) cs" and "RoundStepPrevote \<le> Step cs" and "Step cs < RoundStepPrecommit"
    and "v_Height vote = Height cs" and "v_Round vote = Round cs" and "v_Type vote = PrevoteType"
    and "hvs_AddVote E vote peer (Votes cs) = Inr ((True, err), vs)"
    and "vs_TwoThirdsMajority E (hvs_Prevotes E vs (Round cs)) = (h, True)" and "h \<noteq> 0"
    and "Round cs \<le> fst (hvs_POLInfo E vs)"
    and "isProposalComplete (default_node E D) (cs\<lparr>Votes := vs\<rparr>)"
    and "ProposalBlock cs = Some b" and "blk_HashTo E (Some b) h"
    and "validateBlock E (chainState cs) b = Inr None"
  shows "\<exists>t v. handleMsg (default_node E D) \<lparr>mi_Msg = VoteMessage vote, mi_PeerID = peer\<rparr> cs = Inr t
    \<and> Height t = Height cs \<and> Round t = Round cs \<and> Step t = RoundStepPrecommit
    \<and> LockedRound t = Round cs \<and> blk_HashTo E (LockedBlock t) h
    \<and> new_votes cs t = [v]
    \<and> \<lparr>mi_Msg = VoteMessage v, mi_PeerID = []\<rparr> \<in> set (internalMsgQueue t @ internalOverflow t)
    \<and> v_Height v = Height cs \<and> v_Round v = Round cs \<and> v_Type v = PrecommitType \<and> v_BlockID v = h"
proof -
  have f: "hvs_AddVote (default_node E D) = hvs_AddVote E" "hvs_POLInfo (default_node E D) = hvs_POLInfo E"
    by (simp_all add: default_node_def ext.defs)
  show ?thesis
    using default_consensus.polka_casts [OF assms(1-6), unfolded f default_node_fields,
        OF assms(7-10) assms(11) assms(12-14)]
    by (fastforce simp: casts_def vote_key_def pos_def dest: sent_in)
qed

theorem polka_is_precommitted_witness:
  "\<exists>s t vote v. sample_run [TickerTick, TickerFire, Tock 0, InternalMsg] = Some s
     \<and> handleMsg (default_node sample_ext sample_block_db) \<lparr>mi_Msg = VoteMessage vote, mi_PeerID = []\<rparr> (sys_cs s) = Inr t
     \<and> Step t = RoundStepPrecommit \<and> LockedRound t = 0 \<and> new_votes (sys_cs s) t = [v] \<and> v_Type v = PrecommitType"
proof -
  obtain s vote err vs h b where r: "sample_run [TickerTick, TickerFire, Tock 0, InternalMsg] = Some s"
    and q: "Height (sys_cs s) = 1" "Round (sys_cs s) = 0" "Step (sys_cs s) = RoundStepPrevote"
    and v: "v_Height vote = 1" "v_Round vote = 0" "v_Type vote = PrevoteType"
    and a: "hvs_AddVote sample_ext vote [] (Votes (sys_cs s)) = Inr ((True, err), vs)"
    and m: "vs_TwoThirdsMajority sample_ext (hvs_Prevotes sample_ext vs 0) = (h, True)" "h \<noteq> 0"
      "0 \<le> fst (hvs_POLInfo sample_ext vs)"
    and c: "isProposalComplete (default_node sample_ext sample_block_db) (sys_cs s\<lparr>Votes := vs\<rparr>)"
    and b: "ProposalBlock (sys_cs s) = Some b" "blk_HashTo sample_ext (Some b) h"
      "validateBlock sample_ext (chainState (sys_cs s)) b = Inr None"
    using sample_prevote_queued by (elim exE conjE)
  have "can_sign (default_node sample_ext sample_block_db) (sys_cs s)"
    using sample_run_can_sign(2) r by (simp add: sample_node_def)
  then show ?thesis
    using polka_is_precommitted [OF _ _ _ _ _ v(3) a _ m(2) _ c b] q v m r by fastforce
qed

end
