(* ===== verification/Go_Strings.thy ===== *)
theory Go_Strings
  imports Go_Prelude "HOL-Library.Char_ord"
begin

text \<open>
  What the program uses of Go's \<open>strings\<close> and \<open>strconv\<close>: \<open>Split\<close> at one character, \<open>TrimSpace\<close> and
  \<open>Atoi\<close>. A string is its list of bytes; \<open>TrimSpace\<close> is modelled for ASCII text, which the
  command line arguments it is used on are.
\<close>

section \<open>Split and join\<close>

fun Split :: "char \<Rightarrow> string \<Rightarrow> string list" where
  "Split sep [] = [[]]"
| "Split sep (c # cs) =
     (if c = sep then [] # Split sep cs
      else case Split sep cs of p # ps \<Rightarrow> (c # p) # ps | [] \<Rightarrow> [[c]])"

fun Join :: "char \<Rightarrow> string list \<Rightarrow> string" where
  "Join sep [] = []"
| "Join sep [p] = p"
| "Join sep (p # q # ps) = p @ sep # Join sep (q # ps)"

lemma Split_not_Nil [simp]: "Split sep s \<noteq> []"
  by (cases s) (auto split: list.split)

lemma Split_no_sep: "sep \<notin> set p \<Longrightarrow> Split sep p = [p]"
  by (induction p) auto

lemma Split_append_sep: "sep \<notin> set p \<Longrightarrow> Split sep (p @ sep # s) = p # Split sep s"
  by (induction p) auto

text \<open>Splitting undoes joining, and joining undoes splitting.\<close>

lemma Split_Join: "ps \<noteq> [] \<Longrightarrow> \<forall>p\<in>set ps. sep \<notin> set p \<Longrightarrow> Split sep (Join sep ps) = ps"
  by (induction sep ps rule: Join.induct) (auto simp: Split_no_sep Split_append_sep)

lemma Join_Split: "Join sep (Split sep s) = s"
proof (induction sep s rule: Split.induct)
  case (2 sep c cs)
  then show ?case
    by (cases "Split sep cs"; cases "tl (Split sep cs)") auto
qed simp

lemma Split_parts: "p \<in> set (Split sep s) \<Longrightarrow> sep \<notin> set p"
proof (induction sep s arbitrary: p rule: Split.induct)
  case (2 sep c cs)
  then show ?case by (cases "Split sep cs") (auto split: if_splits)
qed simp

section \<open>Trimming\<close>

definition is_space :: "char \<Rightarrow> bool" where
  "is_space c \<longleftrightarrow> c \<in> {CHR 0x09, CHR 0x0A, CHR 0x0B, CHR 0x0C, CHR 0x0D, CHR 0x20}"

definition TrimSpace :: "string \<Rightarrow> string" where
  "TrimSpace s = rev (dropWhile is_space (rev (dropWhile is_space s)))"

lemma TrimSpace_ends:
  assumes "TrimSpace s \<noteq> []"
  shows "\<not> is_space (hd (TrimSpace s)) \<and> \<not> is_space (last (TrimSpace s))"
proof -
  let ?t = "dropWhile is_space s"
  have last: "\<not> is_space (last (TrimSpace s))"
    using assms hd_dropWhile [of is_space "rev ?t"] by (auto simp: TrimSpace_def last_rev)
  have "?t \<noteq> []" using assms unfolding TrimSpace_def by (metis dropWhile.simps(1) rev.simps(1))
  then have h: "\<not> is_space (hd ?t)" by (rule hd_dropWhile)
  obtain n where "TrimSpace s = take n ?t"
    unfolding TrimSpace_def by (metis dropWhile_eq_drop rev_rev_ident rev_drop)
  then have "hd (TrimSpace s) = hd ?t" using assms by (cases n; cases ?t) auto
  then show ?thesis using last h by simp
qed

lemma TrimSpace_infix: "\<exists>us vs. s = us @ TrimSpace s @ vs \<and> (\<forall>c\<in>set us \<union> set vs. is_space c)"
proof -
  let ?t = "dropWhile is_space s"
  have "rev ?t = takeWhile is_space (rev ?t) @ dropWhile is_space (rev ?t)" by simp
  then have "?t = TrimSpace s @ rev (takeWhile is_space (rev ?t))"
    unfolding TrimSpace_def by (metis rev_append rev_rev_ident)
  then have "s = takeWhile is_space s @ TrimSpace s @ rev (takeWhile is_space (rev ?t))"
    by (metis takeWhile_dropWhile_id)
  then show ?thesis by (metis Un_iff set_rev set_takeWhileD)
qed

section \<open>Numbers\<close>

definition is_digit :: "char \<Rightarrow> bool" where
  "is_digit c \<longleftrightarrow> CHR ''0'' \<le> c \<and> c \<le> CHR ''9''"

definition digit_value :: "char \<Rightarrow> int" where
  "digit_value c = int (of_char c) - 48"

text \<open>\<open>Atoi\<close> on a 64-bit platform: an optional sign, then at least one decimal digit; \<open>None\<close> stands
  for a syntax error or a number that is not an \<open>int64\<close>.\<close>

definition Atoi :: "string \<Rightarrow> int option" where
  "Atoi s =
     (let neg = (case s of c # _ \<Rightarrow> c = CHR ''-'' | [] \<Rightarrow> False);
          ds = (case s of c # cs \<Rightarrow> if c = CHR ''-'' \<or> c = CHR ''+'' then cs else s | [] \<Rightarrow> s);
          n = foldl (\<lambda>n c. n * 10 + digit_value c) 0 ds;
          i = (if neg then - n else n)
      in
      if ds = [] \<or> \<not> list_all is_digit ds then None
      else if is_i64 i then Some i
      else None)"

text \<open>The decimal notation of a number.\<close>

fun nat_digits :: "nat \<Rightarrow> string" where
  "nat_digits n = (if n < 10 then [char_of (48 + n)] else nat_digits (n div 10) @ [char_of (48 + n mod 10)])"

declare nat_digits.simps [simp del]

definition Itoa :: "int \<Rightarrow> string" where
  "Itoa i = (if i < 0 then CHR ''-'' # nat_digits (nat (- i)) else nat_digits (nat i))"

lemma digit_char:
  assumes "d < 10"
  shows "is_digit (char_of (48 + d :: nat))" "digit_value (char_of (48 + d :: nat)) = int d"
  using assms by (auto simp: is_digit_def less_eq_char_def digit_value_def)

lemma nat_digits_all: "list_all is_digit (nat_digits n) \<and> nat_digits n \<noteq> []"
proof (induction n rule: nat_digits.induct)
  case (1 n)
  then show ?case using digit_char(1) by (subst nat_digits.simps) (simp add: nat_digits.simps [of n])
qed

lemma nat_digits_value: "foldl (\<lambda>n c. n * 10 + digit_value c) 0 (nat_digits n) = int n"
proof (induction n rule: nat_digits.induct)
  case (1 n)
  have "int (n div 10) * 10 + int (n mod 10) = int n"
    by (metis mult_div_mod_eq mult.commute of_nat_add of_nat_mult of_nat_numeral)
  then show ?case using 1 digit_char(2) by (subst nat_digits.simps) simp
qed

lemma nat_digits_hd: "is_digit (hd (nat_digits n))"
  using nat_digits_all [of n] by (cases "nat_digits n") auto

lemma Atoi_Itoa:
  assumes "is_i64 i"
  shows "Atoi (Itoa i) = Some i"
proof (cases "i < 0")
  case True
  then show ?thesis
    using assms nat_digits_all [of "nat (- i)"] nat_digits_value [of "nat (- i)"]
    by (simp add: Itoa_def Atoi_def Let_def)
next
  case False
  obtain c cs where d: "nat_digits (nat i) = c # cs" using nat_digits_all [of "nat i"] by (cases "nat_digits (nat i)") auto
  have "c \<noteq> CHR ''-''" "c \<noteq> CHR ''+''"
    using nat_digits_hd [of "nat i"] d by (auto simp: is_digit_def less_eq_char_def)
  then show ?thesis
    using False assms nat_digits_all [of "nat i"] nat_digits_value [of "nat i"] d
    by (simp add: Itoa_def Atoi_def Let_def)
qed

lemma Itoa_no_comma: "CHR '','' \<notin> set (Itoa i)"
proof -
  have "CHR '','' \<notin> set (nat_digits n)" for n
    using nat_digits_all [of n] by (auto simp: list_all_iff is_digit_def less_eq_char_def)
  then show ?thesis by (auto simp: Itoa_def)
qed

end
