(* ===== verification/P2P_Server.thy ===== *)
theory P2P_Server
  imports P2P_Codec Block_Sync Block_Store Go_Strings
begin

text \<open>
  The client side of \<open>p2p/p2p.go\<close>: \<open>Send\<close> and \<open>SendRPC\<close>, the connection to the bootstrap peers that
  \<open>NewP2PServer\<close> makes, and what a request gets from a peer whose handlers are those of
  \<open>P2P_Codec\<close>. The libp2p host is the record \<open>host\<close>: it opens streams, which are written to and then
  read.
\<close>

section \<open>Requests\<close>

record 's host =
  NewStream :: "peer_id \<Rightarrow> string \<Rightarrow> go_error + 's"
  stream_Write :: "bytes \<Rightarrow> 's \<Rightarrow> (nat \<times> go_error option) \<times> 's"
  CloseWrite :: "'s \<Rightarrow> go_error option \<times> 's"
  stream_In :: "'s \<Rightarrow> bytes"

text \<open>The protocols (the constants of \<open>p2p.go\<close>).\<close>

definition TopicHello :: string where
  "TopicHello = ''/mpbft/dev/hello/1.0.0''"

definition TopicFullBlock :: string where
  "TopicFullBlock = ''/mpbft/dev/fullblock/1.0.0''"

definition TopicConsensusSync :: string where
  "TopicConsensusSync = ''/mpbft/dev/consensus_sync/1.0.0''"

text \<open>\<open>data\<close> is the encoding of the message, or its error. A stream on which writing failed is closed
  or reset.\<close>

definition Send :: "'s host \<Rightarrow> peer_id \<Rightarrow> string \<Rightarrow> go_error + bytes \<Rightarrow> go_error + 's" where
  "Send H peer topic data =
     andThen data (\<lambda>data.
       andThen (NewStream H peer topic) (\<lambda>stream.
         case WriteMsgWithPrependedSize (stream_Write H) data stream of
           (Some err, stream) \<Rightarrow> Inl err
         | (None, stream) \<Rightarrow>
             (case CloseWrite H stream of
                (Some err, stream) \<Rightarrow> Inl err
              | (None, stream) \<Rightarrow> Inr stream)))"

definition SendRPC ::
  "'s host \<Rightarrow> peer_id \<Rightarrow> string \<Rightarrow> go_error + bytes \<Rightarrow> (bytes \<Rightarrow> go_error + 'r) \<Rightarrow> go_error + 'r" where
  "SendRPC H peer topic req dec =
     andThen (Send H peer topic req) (\<lambda>s.
       andThen (fst (ReadMsgWithPrependedSize (stream_In H s))) dec)"

text \<open>The two requests of block sync, as its parameters \<open>hello\<close> and \<open>fetch\<close>; \<open>dec_block\<close> is
  \<open>rlp.DecodeBytes\<close> into a block.\<close>

definition sync_hello :: "'s host \<Rightarrow> 'blk wire \<Rightarrow> peer_id \<Rightarrow> u64 option" where
  "sync_hello H W p =
     (case SendRPC H p TopicHello (enc_Uint64Struct W 0)
        (\<lambda>data. case dec_Uint64Struct W data of (h, Some err) \<Rightarrow> Inl err | (h, None) \<Rightarrow> Inr h) of
        Inl err \<Rightarrow> None
      | Inr h \<Rightarrow> Some h)"

definition sync_fetch ::
  "'s host \<Rightarrow> 'blk wire \<Rightarrow> (bytes \<Rightarrow> go_error + 'blk) \<Rightarrow> peer_id \<Rightarrow> u64 \<Rightarrow> go_error + 'blk" where
  "sync_fetch H W dec_block p height = SendRPC H p TopicFullBlock (enc_Uint64Struct W height) dec_block"

section \<open>Bootstrap peers\<close>

record ('ma, 'pi) libp2p =
  NewMultiaddr :: "string \<Rightarrow> go_error + 'ma"
  AddrInfoFromP2pAddr :: "'ma \<Rightarrow> go_error + 'pi"
  pi_ID :: "'pi \<Rightarrow> peer_id"
  Connect :: "'pi \<Rightarrow> go_error option"

text \<open>The loop over the bootstrap addresses counts the peers it could connect to and notes whether
  the node is one of them.\<close>

fun bootstrap_loop :: "('ma, 'pi) libp2p \<Rightarrow> peer_id \<Rightarrow> string list \<Rightarrow> nat \<times> bool \<Rightarrow> nat \<times> bool" where
  "bootstrap_loop L self [] acc = acc"
| "bootstrap_loop L self (addr # addrs) (successes, bootstrapNode) =
     (if addr = [] then bootstrap_loop L self addrs (successes, bootstrapNode)
      else case NewMultiaddr L addr of
        Inl err \<Rightarrow> bootstrap_loop L self addrs (successes, bootstrapNode)
      | Inr ma \<Rightarrow>
          (case AddrInfoFromP2pAddr L ma of
             Inl err \<Rightarrow> bootstrap_loop L self addrs (successes, bootstrapNode)
           | Inr pi \<Rightarrow>
               if pi_ID L pi = self then bootstrap_loop L self addrs (successes, True)
               else case Connect L pi of
                 Some err \<Rightarrow> bootstrap_loop L self addrs (successes, bootstrapNode)
               | None \<Rightarrow> bootstrap_loop L self addrs (Suc successes, bootstrapNode)))"

text \<open>\<open>NewP2PServer\<close>: its error, if any. \<open>new_host\<close> is the id of the host that \<open>libp2p.New\<close> made.\<close>

definition NewP2PServer ::
  "('ma, 'pi) libp2p \<Rightarrow> bool \<Rightarrow> go_error + peer_id \<Rightarrow> string \<Rightarrow> go_error option" where
  "NewP2PServer L TestMode new_host bootstrapPeers =
     (case new_host of
        Inl err \<Rightarrow> Some err
      | Inr self \<Rightarrow>
          let (successes, bootstrapNode) =
            bootstrap_loop L self (Split CHR '','' bootstrapPeers) (0, False)
          in
          if \<not> TestMode \<and> successes = 0 \<and> \<not> bootstrapNode
          then Some (OtherError ''failed to connect to any bootstrap peer'')
          else None)"

section \<open>Which addresses count\<close>

fun peer_info :: "('ma, 'pi) libp2p \<Rightarrow> string \<Rightarrow> 'pi option" where
  "peer_info L addr =
     (if addr = [] then None
      else case andThen (NewMultiaddr L addr) (AddrInfoFromP2pAddr L) of Inl err \<Rightarrow> None | Inr pi \<Rightarrow> Some pi)"

definition connected_peer :: "('ma, 'pi) libp2p \<Rightarrow> peer_id \<Rightarrow> string \<Rightarrow> bool" where
  "connected_peer L self addr \<longleftrightarrow>
     (\<exists>pi. peer_info L addr = Some pi \<and> pi_ID L pi \<noteq> self \<and> Connect L pi = None)"

definition own_address :: "('ma, 'pi) libp2p \<Rightarrow> peer_id \<Rightarrow> string \<Rightarrow> bool" where
  "own_address L self addr \<longleftrightarrow> (\<exists>pi. peer_info L addr = Some pi \<and> pi_ID L pi = self)"

lemma bootstrap_loop_counts:
  "bootstrap_loop L self addrs (n, b) =
     (n + length (filter (connected_peer L self) addrs), b \<or> (\<exists>a\<in>set addrs. own_address L self a))"
proof (induction addrs arbitrary: n b)
  case (Cons a addrs)
  show ?case
  proof (cases "peer_info L a")
    case None
    then have "bootstrap_loop L self (a # addrs) (n, b) = bootstrap_loop L self addrs (n, b)"
      by (auto split: if_splits sum.splits)
    then show ?thesis using None Cons by (simp add: connected_peer_def own_address_def)
  next
    case (Some pi)
    then obtain ma where a: "a \<noteq> []" "NewMultiaddr L a = Inr ma" "AddrInfoFromP2pAddr L ma = Inr pi"
      by (auto simp: andThen_eq_Inr split: if_splits sum.splits)
    show ?thesis
      using a Some Cons by (auto simp: connected_peer_def own_address_def split: option.split)
  qed
qed simp

section \<open>A peer that answers\<close>

text \<open>A host connected to a peer whose handler answers \<open>answer topic bs\<close> to the bytes \<open>bs\<close> that were
  written before the stream was closed for writing; what it answers is written with its size in
  front.\<close>

type_synonym open_stream = "string \<times> bytes"

definition connected_host :: "(string \<Rightarrow> bytes \<Rightarrow> bytes option) \<Rightarrow> open_stream host" where
  "connected_host answer =
     \<lparr>NewStream = (\<lambda>p topic. Inr (topic, [])),
      stream_Write = (\<lambda>bs (topic, s). ((length bs, None), (topic, s @ bs))),
      CloseWrite = (\<lambda>s. (None, s)),
      stream_In = (\<lambda>(topic, s). case answer topic s of None \<Rightarrow> []
        | Some resp \<Rightarrow> snd (WriteMsgWithPrependedSize full_write resp []))\<rparr>"

definition framed :: "bytes \<Rightarrow> bytes" where
  "framed msg = snd (WriteMsgWithPrependedSize full_write msg [])"

lemma read_framed: "length msg < 2 ^ 32 \<Longrightarrow> ReadMsgWithPrependedSize (framed msg) = (Inr msg, [])"
  using ReadMsg_WriteMsg [of msg "[]"] by (simp add: framed_def)

lemma SendRPC_connected:
  assumes "answer topic (framed req) = Some resp" and "length resp < 2 ^ 32"
  shows "SendRPC (connected_host answer) p topic (Inr req) dec = dec resp"
  using assms read_framed [OF assms(2)]
  by (simp add: SendRPC_def Send_def connected_host_def WriteMsgWithPrependedSize_def framed_def
      full_write_def)

text \<open>The handlers of a node with the store \<open>store\<close>, by topic; a panic of a handler is no answer.\<close>

definition serve ::
  "('val, 'vs, 'hvs, 'blk, 'bs, 'pv) node \<Rightarrow> 'blk wire \<Rightarrow> 'bs \<Rightarrow> string \<Rightarrow> bytes \<Rightarrow> bytes option" where
  "serve E W store topic s =
     (if topic = TopicHello then handleHello E W store s
      else if topic = TopicFullBlock
      then (case handleFullBlock E W store s of Inl p \<Rightarrow> None | Inr r \<Rightarrow> r)
      else None)"

text \<open>Encodings of requests and of heights are there and short.\<close>

definition short_requests :: "'blk wire \<Rightarrow> bool" where
  "short_requests W \<longleftrightarrow> (\<forall>h. \<exists>bs. enc_Uint64Struct W h = Inr bs \<and> length bs < 2 ^ 32)"

lemma sync_hello_answer:
  assumes "wire_ok W" and "short_requests W"
  shows "sync_hello (connected_host (serve E W store)) W p = Some (store_Height E store)"
proof -
  obtain req resp where req: "enc_Uint64Struct W 0 = Inr req" "length req < 2 ^ 32"
    and resp: "enc_Uint64Struct W (store_Height E store) = Inr resp" "length resp < 2 ^ 32"
    using assms(2) unfolding short_requests_def by blast
  have "dec_Uint64Struct W req = (0, None)" "dec_Uint64Struct W resp = (store_Height E store, None)"
    using assms(1) req resp by (auto simp: wire_ok_def)
  then have d: "dec_Uint64Struct W resp = (store_Height E store, None)"
    and "serve E W store TopicHello (framed req) = Some resp"
    using read_framed [OF req(2)] req resp by (simp_all add: serve_def handleHello_def)
  then show ?thesis using req d by (simp add: sync_hello_def SendRPC_connected [OF _ resp(2)])
qed

lemma sync_fetch_answer:
  assumes "wire_ok W" and "short_requests W"
    and load: "store_LoadBlock E store h = Inr vb" "store_LoadBlockCommit E store h = Inr c"
      "blk_WithCommit E c vb = Inr (Some b)"
    and enc: "EncodeToRLPBytes W (Some b) = Inr bs" "length bs < 2 ^ 32" "dec_block bs = Inr b"
  shows "sync_fetch (connected_host (serve E W store)) W dec_block p h = Inr b"
proof -
  obtain req where req: "enc_Uint64Struct W h = Inr req" "length req < 2 ^ 32"
    using assms(2) unfolding short_requests_def by blast
  have "dec_Uint64Struct W req = (h, None)" using assms(1) req by (auto simp: wire_ok_def)
  then have "serve E W store TopicFullBlock (framed req) = Some bs"
    using read_framed [OF req(2)] load enc(1)
    by (simp add: serve_def handleFullBlock_def TopicHello_def TopicFullBlock_def)
  then show ?thesis
    using enc req by (simp add: sync_fetch_def SendRPC_connected [OF _ enc(2)])
qed

section \<open>Properties\<close>

text \<open>C40. A server needs a bootstrap peer. \<open>NewP2PServer\<close> succeeds exactly when the host could be made
  and, outside of test mode, one of the comma-separated bootstrap addresses is that of the node itself
  or of a peer it could connect to; empty, malformed and unreachable addresses do not count.\<close>

theorem NewP2PServer_bootstraps:
  "NewP2PServer L TestMode new_host bootstrapPeers = None \<longleftrightarrow>
     (\<exists>self. new_host = Inr self \<and> (TestMode \<or>
        (\<exists>addr\<in>set (Split CHR '','' bootstrapPeers). connected_peer L self addr \<or> own_address L self addr)))"
  by (cases new_host)
    (auto simp: NewP2PServer_def bootstrap_loop_counts filter_empty_conv)

end
