(* ===== verification/Block_Sync_Progress.thy ===== *)
theory Block_Sync_Progress
  imports P2P_Server
begin

text \<open>
  Block sync (\<open>p2p/block_sync.go\<close>) against a peer that answers (\<open>P2P_Server\<close>): a node that lags
  behind a peer whose store holds a chain of valid blocks catches up with it. The whole way is
  covered: the requests and answers with their framing and encoding, the handlers of the peer, its
  store, and validation, commit verification, application and saving at the node that syncs. And every
  sync comes to an end, when the heights that peers report are bounded: it returns, or it panics, and
  then in one of three ways.
\<close>

section \<open>Saving\<close>

text \<open>A database whose writes succeed, and a block it can encode.\<close>

definition db_writes :: "('db, 'blk) db_ext \<Rightarrow> bool" where
  "db_writes D \<longleftrightarrow> db_ok D \<and> (\<forall>k v db. fst (db_Put D k v db))"

lemma SaveBlock_complete:
  assumes tot: "db_writes D" and n: "number b = BlockStore_Height D db + 1"
    and enc: "rlp_EncodeBlock D b = Some bd" "rlp_EncodeCommit D c = Some cd"
  shows "\<exists>db'. BlockStore_SaveBlock D number b c db = Inr db' \<and> BlockStore_Height D db' = number b"
proof -
  have ok: "db_ok D" using tot by (simp add: db_writes_def)
  have put: "\<exists>db'. db_Put D k v db = (True, db')" for k v db
    using tot unfolding db_writes_def by (metis prod.collapse)
  obtain db1 db2 db3 where p: "db_Put D (block_key (number b)) bd db = (True, db1)"
    "db_Put D (commit_key (number b)) cd db1 = (True, db2)"
    "db_Put D (string_bytes ''height'') (PutUint64 (number b)) db2 = (True, db3)"
    using put by metis
  have "BlockStore_SaveBlock D number b c db = Inr db3"
    using n enc p by (simp add: BlockStore_SaveBlock_def)
  moreover have "BlockStore_Height D db3 = number b"
    using db_ok_put [OF ok p(3)] by (simp add: BlockStore_Height_def)
  ultimately show ?thesis by blast
qed

section \<open>The chain that is fetched\<close>

text \<open>\<open>S h\<close> is the chain state after the block \<open>B h\<close>: valid, with a commit that verifies, applied.\<close>

definition valid_chain ::
  "('val, 'vs, 'hvs, 'blk) ext \<Rightarrow> (u64 \<Rightarrow> 'val chain_state) \<Rightarrow> (u64 \<Rightarrow> 'blk) \<Rightarrow> u64 \<Rightarrow> u64 \<Rightarrow> bool" where
  "valid_chain E S B n m \<longleftrightarrow>
     (\<forall>h. n < h \<longrightarrow> h \<le> m \<longrightarrow> blk_NumberU64 E (B h) = h
        \<and> validateBlock E (S (h - 1)) (B h) = Inr None
        \<and> vals_VerifyCommit E (st_Validators (S (h - 1))) (st_ChainID (S (h - 1))) (blk_Hash E (B h)) h
            (blk_HeaderCommit E (B h)) = None
        \<and> DefaultBlockExecutor_ApplyBlock E (S (h - 1)) (B h) = Inr (Inr (S h)))"

text \<open>The blocks can be encoded for the database.\<close>

definition storable ::
  "('val, 'vs, 'hvs, 'blk) ext \<Rightarrow> ('db, 'blk) db_ext \<Rightarrow> (u64 \<Rightarrow> 'blk) \<Rightarrow> u64 \<Rightarrow> u64 \<Rightarrow> bool" where
  "storable E D B n m \<longleftrightarrow>
     (\<forall>h. n < h \<longrightarrow> h \<le> m \<longrightarrow> rlp_EncodeBlock D (B h) \<noteq> None
        \<and> rlp_EncodeCommit D (blk_HeaderCommit E (B h)) \<noteq> None)"

text \<open>A store that has the blocks and can send them.\<close>

definition store_serves ::
  "('val, 'vs, 'hvs, 'blk) ext \<Rightarrow> ('db, 'blk) db_ext \<Rightarrow> 'blk wire \<Rightarrow> (bytes \<Rightarrow> go_error + 'blk) \<Rightarrow> 'db
     \<Rightarrow> (u64 \<Rightarrow> 'blk) \<Rightarrow> u64 \<Rightarrow> u64 \<Rightarrow> bool" where
  "store_serves E D W dec_block db B n m \<longleftrightarrow> BlockStore_Height D db = m
     \<and> (\<forall>h. n < h \<longrightarrow> h \<le> m \<longrightarrow> (\<exists>vb c bs.
          BlockStore_LoadBlock D db h = Inr vb \<and> BlockStore_LoadBlockCommit D db h = Inr c
        \<and> blk_WithCommit E c vb = Inr (Some (B h)) \<and> EncodeToRLPBytes W (Some (B h)) = Inr bs
        \<and> length bs < 2 ^ 32 \<and> dec_block bs = Inr (B h)))"

lemma store_serves_fetch:
  assumes "store_serves E D W dec_block db B n m" and "wire_ok W" and "short_requests W"
    and "n < h" and "h \<le> m"
  shows "sync_fetch (connected_host (serve (default_node E D) W db)) W dec_block p h = Inr (B h)"
proof -
  obtain vb c bs where "BlockStore_LoadBlock D db h = Inr vb" "BlockStore_LoadBlockCommit D db h = Inr c"
    "blk_WithCommit E c vb = Inr (Some (B h))" "EncodeToRLPBytes W (Some (B h)) = Inr bs"
    "length bs < 2 ^ 32" "dec_block bs = Inr (B h)"
    using assms unfolding store_serves_def by blast
  then show ?thesis
    by (intro sync_fetch_answer [OF assms(2,3)]) (simp_all add: default_node_def ext.defs)
qed

section \<open>The inner loop\<close>

lemma less_Suc_not_0:
  fixes h m :: "'a::len word"
  assumes "h < m"
  shows "h + 1 \<noteq> 0"
proof
  assume "h + 1 = 0"
  then have "h = - 1" by (simp add: eq_neg_iff_add_eq_0)
  then show False using assms by simp
qed

lemma sync_height_ok:
  assumes ch: "valid_chain E S B n m" and h: "n \<le> h" "h < m" and tot: "db_writes D" and enc: "storable E D B n m"
    and fetch: "fetch p (h + 1) = Inr (B (h + 1))"
    and bs: "bsync_chainState bs = S h" "BlockStore_Height D (bsync_blockStore bs) = h"
  shows "\<exists>bs'. sync_height (default_node E D) fetch p (h + 1) bs = Inr (None, bs')
    \<and> bsync_chainState bs' = S (h + 1) \<and> BlockStore_Height D (bsync_blockStore bs') = h + 1"
proof -
  have up: "h < h + 1" "h + 1 \<le> m"
    using less_Suc_not_0 [OF h(2)] h(2) by (simp_all add: word_less_Suc inc_le)
  have c: "blk_NumberU64 E (B (h + 1)) = h + 1" "validateBlock E (S h) (B (h + 1)) = Inr None"
    "vals_VerifyCommit E (st_Validators (S h)) (st_ChainID (S h)) (blk_Hash E (B (h + 1))) (h + 1)
       (blk_HeaderCommit E (B (h + 1))) = None"
    "DefaultBlockExecutor_ApplyBlock E (S h) (B (h + 1)) = Inr (Inr (S (h + 1)))"
    using ch h(1) up unfolding valid_chain_def by (auto dest: spec [of _ "h + 1"])
  obtain bd cd where be: "rlp_EncodeBlock D (B (h + 1)) = Some bd"
    "rlp_EncodeCommit D (blk_HeaderCommit E (B (h + 1))) = Some cd"
    using enc h(1) up unfolding storable_def by (metis not_None_eq order_le_less_trans)
  obtain db' where "BlockStore_SaveBlock D (blk_NumberU64 E) (B (h + 1)) (blk_HeaderCommit E (B (h + 1)))
      (bsync_blockStore bs) = Inr db'" "BlockStore_Height D db' = h + 1"
    using SaveBlock_complete [where number = "blk_NumberU64 E" and db = "bsync_blockStore bs", OF tot _ be]
    unfolding bs(2) c(1) by blast
  then show ?thesis
    using fetch bs c
    by (simp add: sync_height_def default_node_def ext.defs)
qed

lemma sync_heights_ok:
  assumes ch: "valid_chain E S B n m" and tot: "db_writes D" and enc: "storable E D B n m" and top: "m + 1 \<noteq> 0"
    and fetch: "\<forall>h. n < h \<longrightarrow> h \<le> m \<longrightarrow> fetch p h = Inr (B h)"
    and h: "n \<le> h" "h \<le> m" "fuel = unat m - unat h"
    and bs: "bsync_chainState bs = S h" "BlockStore_Height D (bsync_blockStore bs) = h"
  shows "\<exists>bs'. sync_heights (default_node E D) fetch p m fuel (h + 1) bs = Some (Inr (None, bs'))
    \<and> bsync_chainState bs' = S m \<and> BlockStore_Height D (bsync_blockStore bs') = m"
  using h bs
proof (induction fuel arbitrary: h bs)
  case 0
  then have "h = m" by (simp add: word_le_nat_alt word_unat_eq_iff)
  then show ?case using 0 word_less_Suc [OF top] by simp
next
  case (Suc fuel)
  have lt: "h < m" using Suc.prems(2,3) by (metis diff_self_eq_0 nat.distinct(1) order_le_less)
  then have ne: "h + 1 \<noteq> 0" by (rule less_Suc_not_0)
  have le: "h + 1 \<le> m" using lt by (rule inc_le)
  have "n < h + 1" using Suc.prems(1) word_less_Suc [OF ne] by (rule order_le_less_trans)
  then obtain u where u: "sync_height (default_node E D) fetch p (h + 1) bs = Inr (None, u)"
    "bsync_chainState u = S (h + 1)" "BlockStore_Height D (bsync_blockStore u) = h + 1"
    using sync_height_ok [OF ch Suc.prems(1) lt tot enc, of fetch p bs] fetch le Suc.prems(4,5) by blast
  have "\<exists>bs'. sync_heights (default_node E D) fetch p m fuel (h + 1 + 1) u = Some (Inr (None, bs'))
    \<and> bsync_chainState bs' = S m \<and> BlockStore_Height D (bsync_blockStore bs') = m"
    using Suc.prems \<open>n < h + 1\<close> le u unat_word_Suc [OF ne] by (intro Suc.IH) auto
  then show ?case using le u(1) by simp
qed

section \<open>Every sync ends\<close>

text \<open>A save that returns leaves the height of the store, or raises it to the number of the block.\<close>

lemma SaveBlock_height:
  assumes ok: "db_ok D" and save: "BlockStore_SaveBlock D number b c db = Inr db'"
  shows "number b = BlockStore_Height D db + 1
    \<and> (BlockStore_Height D db' = BlockStore_Height D db \<or> BlockStore_Height D db' = number b)"
proof -
  have n: "number b = BlockStore_Height D db + 1"
    using save by (auto simp: BlockStore_SaveBlock_def split: if_splits)
  have same: "BlockStore_Height D db' = BlockStore_Height D db"
    if "db_Get D db' = db_Get D db \<or> (\<exists>k v. k \<noteq> string_bytes ''height'' \<and> db_Get D db' = (db_Get D db)(k \<mapsto> v))"
    for db db' using that by (auto simp: BlockStore_Height_def)
  have put: "BlockStore_Height D db' = BlockStore_Height D db"
    if "db_Put D k v db = (r, db')" "k \<noteq> string_bytes ''height''" for k v r db db'
    using db_ok_put [OF ok that(1)] that(2) by (intro same) (auto split: if_splits)
  have last: "BlockStore_Height D (snd (db_Put D (string_bytes ''height'') (PutUint64 n) db)) \<in> {BlockStore_Height D db, n}"
    for n db
    using db_ok_put [OF ok prod.collapse [symmetric], of "string_bytes ''height''" "PutUint64 n" db]
    by (auto simp: BlockStore_Height_def split: if_splits)
  show ?thesis
  proof (cases "rlp_EncodeBlock D b")
    case (Some bd)
    obtain ok1 db1 where p1: "db_Put D (block_key (number b)) bd db = (ok1, db1)" by fastforce
    have h1: "BlockStore_Height D db1 = BlockStore_Height D db" by (rule put [OF p1]) simp
    show ?thesis
    proof (cases "rlp_EncodeCommit D c")
      case None
      then show ?thesis using save n Some p1 h1 by (auto simp: BlockStore_SaveBlock_def split: if_splits)
    next
      case (Some cd)
      obtain ok2 db2 where p2: "db_Put D (commit_key (number b)) cd db1 = (ok2, db2)" by fastforce
      have h2: "BlockStore_Height D db2 = BlockStore_Height D db1" by (rule put [OF p2]) simp
      show ?thesis
        using save n \<open>rlp_EncodeBlock D b = Some bd\<close> Some p1 p2 h1 h2 last [of "number b" db2]
        by (auto simp: BlockStore_SaveBlock_def split: if_splits)
    qed
  qed (use save n in \<open>auto simp: BlockStore_SaveBlock_def split: if_splits\<close>)
qed

text \<open>After a save that failed silently the chain state is ahead of the store, and no further block
  can be applied and saved.\<close>

definition stuck :: "('val, 'vs, 'hvs, 'blk, 'bs, 'pv) node \<Rightarrow> ('val, 'bs) block_sync \<Rightarrow> bool" where
  "stuck N bs \<longleftrightarrow> (\<forall>fetch p h bs'. sync_height N fetch p h bs \<noteq> Inr (None, bs'))"

lemma sync_height_saved:
  assumes "sync_height (default_node E D) fetch p h bs = Inr (None, u)"
  shows "\<exists>vb. validateBlock E (bsync_chainState bs) vb = Inr None
    \<and> DefaultBlockExecutor_ApplyBlock E (bsync_chainState bs) vb = Inr (Inr (bsync_chainState u))
    \<and> BlockStore_SaveBlock D (blk_NumberU64 E) vb (blk_HeaderCommit E vb) (bsync_blockStore bs)
        = Inr (bsync_blockStore u)"
proof (cases "fetch p h")
  case (Inr vb)
  obtain r1 where v: "validateBlock E (bsync_chainState bs) vb = Inr r1"
    using assms Inr by (auto simp: sync_height_def andThen_eq_Inr)
  let ?c = "vals_VerifyCommit E (st_Validators (bsync_chainState bs)) (st_ChainID (bsync_chainState bs))
      (blk_Hash E vb) (blk_NumberU64 E vb) (blk_HeaderCommit E vb)"
  have c: "r1 = None" "?c = None"
    using assms Inr v by (auto simp: sync_height_def split: option.splits)
  obtain r2 where a: "DefaultBlockExecutor_ApplyBlock E (bsync_chainState bs) vb = Inr r2"
    using assms Inr v c by (auto simp: sync_height_def andThen_eq_Inr)
  then show ?thesis
    using assms Inr v c by (cases r2) (auto simp: sync_height_def andThen_eq_Inr)
qed (use assms in \<open>simp add: sync_height_def\<close>)

lemma sync_height_progress:
  assumes ok: "db_ok D" and top: "BlockStore_Height D (bsync_blockStore bs) + 1 \<noteq> 0"
    and step: "sync_height (default_node E D) fetch p h bs = Inr (None, u)"
  shows "BlockStore_Height D (bsync_blockStore u) = BlockStore_Height D (bsync_blockStore bs) + 1
    \<or> stuck (default_node E D) u"
proof -
  obtain vb where a: "DefaultBlockExecutor_ApplyBlock E (bsync_chainState bs) vb = Inr (Inr (bsync_chainState u))"
    and s: "BlockStore_SaveBlock D (blk_NumberU64 E) vb (blk_HeaderCommit E vb) (bsync_blockStore bs)
        = Inr (bsync_blockStore u)"
    using sync_height_saved [OF step] by blast
  note n = SaveBlock_height [OF ok s]
  have last: "st_LastBlockHeight (bsync_chainState u) = BlockStore_Height D (bsync_blockStore bs) + 1"
    using default_executor.exec_height [OF a] n by simp
  have "stuck (default_node E D) u"
    if same: "BlockStore_Height D (bsync_blockStore u) = BlockStore_Height D (bsync_blockStore bs)"
    unfolding stuck_def
  proof (intro allI notI)
    fix fetch p h t
    assume "sync_height (default_node E D) fetch p h u = Inr (None, t)"
    then obtain vb' where v: "validateBlock E (bsync_chainState u) vb' = Inr None"
      and s': "BlockStore_SaveBlock D (blk_NumberU64 E) vb' (blk_HeaderCommit E vb') (bsync_blockStore u)
        = Inr (bsync_blockStore t)"
      using sync_height_saved by blast
    have "blk_NumberU64 E vb' = st_LastBlockHeight (bsync_chainState u) + 1"
      using default_executor.valid_number [OF v] last top by simp
    moreover have "blk_NumberU64 E vb' = st_LastBlockHeight (bsync_chainState u)"
      using SaveBlock_height [OF ok s'] same last by simp
    ultimately show False by simp
  qed
  then show ?thesis using n by auto
qed

lemma sync_heights_progress:
  assumes ok: "db_ok D" and top: "m + 1 \<noteq> 0"
    and "BlockStore_Height D (bsync_blockStore bs) < m"
    and "sync_heights (default_node E D) fetch p m fuel (BlockStore_Height D (bsync_blockStore bs) + 1) bs
      = Some (Inr (None, t))"
  shows "BlockStore_Height D (bsync_blockStore t) = m \<or> stuck (default_node E D) t"
  using assms(3,4)
proof (induction fuel arbitrary: bs)
  case 0
  then show ?case using inc_le [of "BlockStore_Height D (bsync_blockStore bs)" m] by simp
next
  case (Suc fuel)
  let ?l = "BlockStore_Height D (bsync_blockStore bs)"
  have le: "?l + 1 \<le> m" using Suc.prems(1) by (rule inc_le)
  then obtain e u where u: "sync_height (default_node E D) fetch p (?l + 1) bs = Inr (e, u)"
    using Suc.prems(2) by (cases "sync_height (default_node E D) fetch p (?l + 1) bs") auto
  then have e: "e = None" and r: "sync_heights (default_node E D) fetch p m fuel (?l + 1 + 1) u = Some (Inr (None, t))"
    using Suc.prems(2) le by (cases e; simp)+
  have "?l + 1 \<noteq> 0" by (rule less_Suc_not_0 [OF Suc.prems(1)])
  from sync_height_progress [OF ok this u [unfolded e]]
  consider (saved) "BlockStore_Height D (bsync_blockStore u) = ?l + 1" | (stuck) "stuck (default_node E D) u" by blast
  then show ?case
  proof cases
    case saved
    show ?thesis
    proof (cases "?l + 1 = m")
      case True
      then have "\<not> ?l + 1 + 1 \<le> m" using word_less_Suc [OF top] by simp
      then have "t = u" using r by (cases fuel) simp_all
      then show ?thesis using saved True by simp
    next
      case False
      then show ?thesis using Suc.IH [of u] saved le r by simp
    qed
  next
    case stuck
    have "t = u"
    proof (cases "?l + 1 + 1 \<le> m")
      case True
      then show ?thesis
        using r stuck by (cases fuel) (auto simp: stuck_def split: sum.splits prod.splits option.splits)
    next
      case False
      then show ?thesis using r by (cases fuel) simp_all
    qed
    then show ?thesis using stuck by simp
  qed
qed

lemma stuck_ends:
  assumes "stuck (default_node E D) bs" and "BlockStore_Height D (bsync_blockStore bs) < m" and "m + 1 \<noteq> 0"
  shows "\<exists>r. sync_heights (default_node E D) fetch p m (unat m - unat (BlockStore_Height D (bsync_blockStore bs)))
      (BlockStore_Height D (bsync_blockStore bs) + 1) bs = Some r \<and> (\<forall>t. r \<noteq> Inr (None, t))"
proof -
  let ?l = "BlockStore_Height D (bsync_blockStore bs)"
  have "unat ?l < unat m" using assms(2) by (simp add: word_less_nat_alt)
  then obtain f where f: "unat m - unat ?l = Suc f" by (metis Suc_diff_Suc)
  have le: "?l + 1 \<le> m" using assms(2) by (rule inc_le)
  show ?thesis
    using assms(1) le unfolding f stuck_def
    by (cases "sync_height (default_node E D) fetch p (?l + 1) bs") (auto split: prod.split option.split)
qed

text \<open>A round of greetings and fetches either ends the sync or reaches the greatest height reported so
  far, unless a save failed; after that the next round ends. The heights reported bound the rounds.\<close>

lemma block_sync_ends_aux:
  assumes ok: "db_ok D" and top: "B + 1 \<noteq> 0"
    and hello: "\<forall>k. \<forall>q\<in>set ps. \<forall>h. hello k q = Some h \<longrightarrow> h \<le> B"
    and "m \<le> B" and "unat B - unat m < fuel"
    and "m \<le> BlockStore_Height D (bsync_blockStore bs) \<or> stuck (default_node E D) bs"
  shows "block_sync_sync (default_node E D) hello fetch ps fuel k (m, p) bs \<noteq> None"
  using assms(4-6)
proof (induction fuel arbitrary: k m p bs)
  case (Suc fuel)
  obtain m' p' where g: "greet (hello k) ps (m, p) = (m', p')" by fastforce
  have mm: "m \<le> m'" "m' \<le> B"
    using greet_max [OF g] hello Suc.prems(1) by (auto split: if_splits)
  have top': "m' + 1 \<noteq> 0"
  proof (cases "m' = B")
    case False
    then have "m' < B" using mm(2) by simp
    then show ?thesis by (rule less_Suc_not_0)
  qed (simp add: top)
  let ?l = "BlockStore_Height D (bsync_blockStore bs)"
  let ?r = "sync_heights (default_node E D) (fetch k) p' m' (unat m' - unat ?l) (?l + 1) bs"
  show ?case
  proof (cases "m' \<le> ?l")
    case True
    then consider "m' = ?l" | "m' < ?l" by fastforce
    then show ?thesis using g by cases simp_all
  next
    case False
    then have lt: "?l < m'" by simp
    have "unat m' + 1 \<le> unat (?l + 1) + (unat m' - unat ?l)"
      using lt unat_word_Suc [OF less_Suc_not_0 [OF lt]] by (simp add: word_less_nat_alt)
    then have "?r \<noteq> None" by (rule sync_heights_ends [OF _ top'])
    then obtain r where r: "?r = Some r" by blast
    have next_round: "block_sync_sync (default_node E D) hello fetch ps fuel (Suc k) (m', p') u \<noteq> None"
      if u: "r = Inr (None, u)" for u
    proof -
      have "\<not> stuck (default_node E D) bs"
        using stuck_ends [OF _ lt top', of E "fetch k" p'] r u by auto
      then have "m < m'" using Suc.prems(3) lt by (auto intro: order_le_less_trans)
      then have "unat B - unat m' < fuel"
        using Suc.prems(2) mm(2) by (simp add: word_less_nat_alt word_le_nat_alt)
      moreover have "m' \<le> BlockStore_Height D (bsync_blockStore u) \<or> stuck (default_node E D) u"
        using sync_heights_progress [OF ok top' lt r [unfolded u]] by auto
      ultimately show ?thesis using Suc.IH mm(2) by blast
    qed
    show ?thesis
      using g lt r next_round by (auto simp: Let_def split: sum.split option.split)
  qed
qed simp

section \<open>How a sync can panic\<close>

text \<open>The states a sync passes through: each height it has dealt with leads to the next.\<close>

inductive sync_reaches ::
  "('val, 'vs, 'hvs, 'blk, 'bs, 'pv) node \<Rightarrow> (nat \<Rightarrow> peer_id \<Rightarrow> u64 \<Rightarrow> go_error + 'blk)
     \<Rightarrow> ('val, 'bs) block_sync \<Rightarrow> ('val, 'bs) block_sync \<Rightarrow> bool" for N fetch bs where
  start: "sync_reaches N fetch bs bs"
| height: "sync_reaches N fetch bs t \<Longrightarrow> sync_height N (fetch k) q h t = Inr (None, u) \<Longrightarrow> sync_reaches N fetch bs u"

lemma sync_heights_reaches:
  assumes "sync_reaches N fetch bs t" and "sync_heights N (fetch k) q m fuel h t = Some r"
  shows "(\<forall>p. r = Inl p \<longrightarrow> (\<exists>u h'. sync_reaches N fetch bs u \<and> sync_height N (fetch k) q h' u = Inl p))
    \<and> (\<forall>v. r = Inr (None, v) \<longrightarrow> sync_reaches N fetch bs v)"
  using assms
proof (induction fuel arbitrary: h t)
  case (Suc fuel)
  show ?case
  proof (cases "sync_height N (fetch k) q h t")
    case (Inl p)
    then show ?thesis using Suc.prems by (auto split: if_splits)
  next
    case (Inr x)
    obtain e u where x: "x = (e, u)" by (cases x)
    show ?thesis
    proof (cases e)
      case None
      then have "sync_reaches N fetch bs u" using sync_reaches.height [OF Suc.prems(1)] Inr x by simp
      from Suc.IH [OF this] show ?thesis using Suc.prems Inr x None by (auto split: if_splits)
    qed (use Suc.prems Inr x in \<open>auto split: if_splits\<close>)
  qed
qed (auto split: if_splits)

lemma block_sync_reaches:
  assumes "sync_reaches N fetch bs t" and "block_sync_sync N hello fetch ps fuel k best t = Some (Inl p)"
  shows "\<exists>u k q h. sync_reaches N fetch bs u \<and> sync_height N (fetch k) q h u = Inl p"
  using assms
proof (induction fuel arbitrary: k best t)
  case (Suc fuel)
  obtain m q where g: "greet (hello k) ps best = (m, q)" by fastforce
  let ?l = "store_Height N (bsync_blockStore t)"
  let ?r = "sync_heights N (fetch k) q m (unat m - unat ?l) (?l + 1) t"
  have "\<not> m < ?l" "m \<noteq> ?l" using Suc.prems(2) g by (auto split: if_splits)
  then consider (panic) "?r = Some (Inl p)"
    | (round) u where "?r = Some (Inr (None, u))"
        "block_sync_sync N hello fetch ps fuel (Suc k) (m, q) u = Some (Inl p)"
    using Suc.prems(2) g by (auto simp: Let_def split: option.splits sum.splits prod.splits)
  then show ?case
  proof cases
    case panic
    then show ?thesis using sync_heights_reaches [OF Suc.prems(1)] by blast
  next
    case (round u)
    then show ?thesis using Suc.IH sync_heights_reaches [OF Suc.prems(1)] by blast
  qed
qed simp

lemma sync_height_panics:
  assumes "sync_height (default_node E D) fetch q h t = Inl p"
  shows "\<exists>vb. fetch q h = Inr vb \<and> (validateBlock E (bsync_chainState t) vb = Inl p
    \<or> DefaultBlockExecutor_ApplyBlock E (bsync_chainState t) vb = Inl p
    \<or> validateBlock E (bsync_chainState t) vb = Inr None \<and> p = NonContiguousBlock
      \<and> blk_NumberU64 E vb \<noteq> BlockStore_Height D (bsync_blockStore t) + 1)"
proof -
  obtain vb where vb: "fetch q h = Inr vb" using assms by (cases "fetch q h") (auto simp: sync_height_def)
  have save: "p = NonContiguousBlock \<and> number b \<noteq> BlockStore_Height D db + 1"
    if "BlockStore_SaveBlock D number b c db = Inl p" for number b c db
    using that by (auto simp: BlockStore_SaveBlock_def Let_def split: if_splits option.splits prod.splits)
  have "DefaultBlockExecutor_ApplyBlock E (bsync_chainState t) vb = Inl p
      \<or> (\<exists>st. DefaultBlockExecutor_ApplyBlock E (bsync_chainState t) vb = Inr (Inr st))"
    if "validateBlock E (bsync_chainState t) vb = Inr None"
    using assms vb that
    by (cases "DefaultBlockExecutor_ApplyBlock E (bsync_chainState t) vb")
      (auto simp: sync_height_def split: option.splits sum.splits)
  then show ?thesis
    using assms vb save
    by (fastforce simp: sync_height_def andThen_eq_Inl split: option.splits)
qed

text \<open>The height of the store is that of the chain state, or one less once a save has failed silently.\<close>

definition store_follows :: "('db, 'blk) db_ext \<Rightarrow> ('val, 'db) block_sync \<Rightarrow> bool" where
  "store_follows D bs \<longleftrightarrow> st_InitialHeight (bsync_chainState bs) = 1
     \<and> st_LastBlockHeight (bsync_chainState bs)
         \<in> {BlockStore_Height D (bsync_blockStore bs), BlockStore_Height D (bsync_blockStore bs) + 1}"

lemma valid_next:
  assumes "validateBlock E st vb = Inr None" and "st_InitialHeight st = 1"
  shows "blk_NumberU64 E vb = st_LastBlockHeight st + 1"
  using default_executor.valid_number [OF assms(1)] assms(2) by (simp split: if_splits)

lemma sync_reaches_store_follows:
  assumes "sync_reaches (default_node E D) fetch bs t" and "db_ok D" and "store_follows D bs"
  shows "store_follows D t"
  using assms
proof (induction rule: sync_reaches.induct)
  case (height t k q h u)
  obtain vb where v: "validateBlock E (bsync_chainState t) vb = Inr None"
    and a: "DefaultBlockExecutor_ApplyBlock E (bsync_chainState t) vb = Inr (Inr (bsync_chainState u))"
    and s: "BlockStore_SaveBlock D (blk_NumberU64 E) vb (blk_HeaderCommit E vb) (bsync_blockStore t)
        = Inr (bsync_blockStore u)"
    using sync_height_saved [OF height.hyps(2)] by blast
  have t: "store_follows D t" using height.IH height.prems by blast
  then show ?case
    using SaveBlock_height [OF height.prems(1) s] default_executor.exec_height [OF a]
      default_executor.exec_initial [OF a] valid_next [OF v]
    by (auto simp: store_follows_def)
qed simp

section \<open>Properties\<close>

text \<open>C14. Block sync catches up. A node whose store ends at height \<open>n\<close>, with the chain state after it,
  and one peer whose store holds a valid chain up to the height \<open>m\<close>: the sync ends without an error
  after at most two rounds of greetings, with the peer's height in the store and the chain state
  after the peer's last block.\<close>

theorem sync_from_peer_completes:
  assumes "wire_ok W" and "short_requests W" and "db_writes D" and "m + 1 \<noteq> 0" and "n \<le> m"
    and "valid_chain E S B n m" and "store_serves E D W dec_block db B n m"
    and "bsync_chainState bs = S n" and "BlockStore_Height D (bsync_blockStore bs) = n"
    and "storable E D B n m"
  shows "\<exists>bs'. block_sync_sync (default_node E D)
      (\<lambda>k. sync_hello (connected_host (serve (default_node E D) W db)) W)
      (\<lambda>k. sync_fetch (connected_host (serve (default_node E D) W db)) W dec_block)
      [p] 2 0 (0, []) bs = Some (Inr (None, bs'))
    \<and> LastChainState bs' = S m \<and> BlockStore_Height D (bsync_blockStore bs') = m"
proof -
  let ?N = "default_node E D" and ?H = "connected_host (serve (default_node E D) W db)"
  have hello: "sync_hello ?H W p = Some m"
    using sync_hello_answer [OF assms(1,2), of ?N db p] assms(7) by (simp add: store_serves_def)
  have g0: "greet (sync_hello ?H W) [p] (0, []) = (m, p)"
    using hello by (cases "m = 0") (auto simp: word_gt_0)
  have g1: "greet (sync_hello ?H W) [p] (m, p) = (m, p)"
    using hello by simp
  have fetch: "\<forall>h. n < h \<longrightarrow> h \<le> m \<longrightarrow> sync_fetch ?H W dec_block p h = Inr (B h)"
    using store_serves_fetch [OF assms(7,1,2)] by blast
  obtain bs' where bs': "sync_heights ?N (sync_fetch ?H W dec_block) p m (unat m - unat n) (n + 1) bs
      = Some (Inr (None, bs'))" "bsync_chainState bs' = S m" "BlockStore_Height D (bsync_blockStore bs') = m"
    using sync_heights_ok [where fetch = "sync_fetch ?H W dec_block" and S = S and B = B and h = n
        and bs = bs, OF assms(6,3,10,4) fetch order_refl assms(5) refl assms(8,9)] by blast
  show ?thesis
  proof (cases "n = m")
    case True
    then show ?thesis using g0 assms(8,9) by (simp add: numeral_2_eq_2 LastChainState_def)
  next
    case False
    then have "\<not> m < n" "m \<noteq> n" using assms(5) by auto
    then show ?thesis using g0 g1 assms(9) bs' by (simp add: numeral_2_eq_2 LastChainState_def)
  qed
qed

text \<open>For the witness: the sample node at genesis and a peer that has block 1.\<close>

definition sample_sync_db :: "(bytes \<Rightarrow> bytes option, sample_blk) db_ext" where
  "sample_sync_db =
     \<lparr>db_Get = (\<lambda>db. db),
      db_Put = (\<lambda>k v db. (True, db(k \<mapsto> v))),
      rlp_EncodeBlock = (\<lambda>b. if b = sample_committed_block then Some [1] else None),
      rlp_DecodeBlock = (\<lambda>bs. Some sample_committed_block),
      rlp_EncodeCommit = (\<lambda>c. if c = sb_Commit sample_committed_block then Some [2] else None),
      rlp_DecodeCommit = (\<lambda>bs. sb_Commit sample_committed_block)\<rparr>"

definition sample_block_wire :: "sample_blk wire" where
  "sample_block_wire =
     \<lparr>enc_Vote = (\<lambda>v. Inl IncorrectMsg), dec_Vote = (\<lambda>bs. Inl IncorrectMsg),
      vote_ValidateBasic = (\<lambda>v. None),
      enc_Proposal = (\<lambda>p. Inl IncorrectMsg), dec_Proposal = (\<lambda>bs. Inl IncorrectMsg),
      proposal_ValidateBasic = (\<lambda>p. None),
      enc_FullBlock = (\<lambda>b. Inl IncorrectMsg),
      EncodeToRLPBytes = (\<lambda>b. if b = Some sample_committed_block then Inr [1] else Inl IncorrectMsg),
      DecodeFromRLPBytes = (\<lambda>bs. (sample_committed_block, None)),
      enc_Uint64Struct = (\<lambda>h. Inr (PutUint64 h)), dec_Uint64Struct = (\<lambda>bs. (Uint64 bs, None)),
      enc_SyncRequest = (\<lambda>r. Inl IncorrectMsg), dec_SyncRequest = (\<lambda>bs. Inl IncorrectMsg),
      enc_SyncResponse = (\<lambda>r. Inl IncorrectMsg), dec_SyncResponse = (\<lambda>bs. Inl IncorrectMsg)\<rparr>"

definition sample_peer_db :: "bytes \<Rightarrow> bytes option" where
  "sample_peer_db = [block_key 1 \<mapsto> [1], commit_key 1 \<mapsto> [2], string_bytes ''height'' \<mapsto> PutUint64 1]"

lemma sample_block_1:
  "blk_NumberU64 sample_ext sample_committed_block = 1"
  "validateBlock sample_ext sample_genesis sample_committed_block = Inr None"
  "vals_VerifyCommit sample_ext (st_Validators sample_genesis) (st_ChainID sample_genesis)
     (blk_Hash sample_ext sample_committed_block) 1 (blk_HeaderCommit sample_ext sample_committed_block) = None"
  "\<exists>st. DefaultBlockExecutor_ApplyBlock sample_ext sample_genesis sample_committed_block = Inr (Inr st)
     \<and> st_LastBlockHeight st = 1"
  by (simp_all add: sample_committed_block_def sample_state_defs cong: eval_cong)

lemma only_height_1: "(0::u64) < h \<Longrightarrow> h \<le> 1 \<Longrightarrow> h = 1"
  by (metis word_le_sub1 word_gt_0 diff_self inc_le add_0 order_antisym)

lemma sample_sync_db_writes: "db_writes sample_sync_db"
proof -
  have "sb_Commit sample_committed_block = Some c \<longleftrightarrow> Some c = sb_Commit sample_committed_block" for c
    by auto
  then show ?thesis
    by (auto simp: db_writes_def db_ok_def sample_sync_db_def split: if_splits)
qed

theorem sync_from_peer_completes_witness:
  "\<exists>bs'. block_sync_sync (default_node sample_ext sample_sync_db)
      (\<lambda>k. sync_hello (connected_host (serve (default_node sample_ext sample_sync_db)
         sample_block_wire sample_peer_db)) sample_block_wire)
      (\<lambda>k. sync_fetch (connected_host (serve (default_node sample_ext sample_sync_db)
         sample_block_wire sample_peer_db)) sample_block_wire (\<lambda>bs. Inr sample_committed_block))
      [''peer''] 2 0 (0, []) sample_bsync = Some (Inr (None, bs'))
    \<and> st_LastBlockHeight (LastChainState bs') = 1
    \<and> BlockStore_Height sample_sync_db (bsync_blockStore bs') = 1"
proof -
  obtain st where st: "DefaultBlockExecutor_ApplyBlock sample_ext sample_genesis sample_committed_block
      = Inr (Inr st)" "st_LastBlockHeight st = 1"
    using sample_block_1(4) by blast
  let ?S = "\<lambda>h. if h = 0 then sample_genesis else st"
  have wire: "wire_ok sample_block_wire" "short_requests sample_block_wire"
    by (auto simp: wire_ok_def sample_block_wire_def short_requests_def split: if_splits)
  have "valid_chain sample_ext ?S (\<lambda>h. sample_committed_block) 0 1"
    using sample_block_1 st only_height_1 by (auto simp: valid_chain_def)
  moreover have "storable sample_ext sample_sync_db (\<lambda>h. sample_committed_block) 0 1"
    by (simp add: storable_def sample_sync_db_def sample_ext_def)
  moreover obtain c where c: "sb_Commit sample_committed_block = Some c"
    by (simp add: sample_committed_block_def)
  then have "sample_committed_block\<lparr>sb_Commit := Some c\<rparr> = sample_committed_block"
    by (cases sample_committed_block) simp
  then have "store_serves sample_ext sample_sync_db sample_block_wire (\<lambda>bs. Inr sample_committed_block)
      sample_peer_db (\<lambda>h. sample_committed_block) 0 1"
    using only_height_1 c
    by (auto simp: store_serves_def BlockStore_Height_def BlockStore_LoadBlock_def
        BlockStore_LoadBlockCommit_def sample_sync_db_def sample_peer_db_def sample_block_wire_def sample_ext_def)
  moreover have "bsync_chainState sample_bsync = ?S 0"
    "BlockStore_Height sample_sync_db (bsync_blockStore sample_bsync) = 0"
    by (simp_all add: sample_bsync_def BlockStore_Height_def sample_sync_db_def)
  ultimately show ?thesis
    using sync_from_peer_completes [OF wire sample_sync_db_writes, of 1 0 sample_ext ?S] st(2) by fastforce
qed

text \<open>C15. Every block sync comes to an end, and when it does not return the cause is known. No peer ever
  reports a last height above \<open>B\<close>, and at the start the store is at the height of the chain state,
  whose initial height is 1, as every constructor makes it. Then after at most \<open>B + 1\<close> rounds of
  greetings, whatever blocks the peers send and in whatever order the rounds find them, \<open>sync\<close>
  returns, with or without an error, or it panics in one of these ways: validating a fetched block
  panics, applying it does, or \<open>SaveBlock\<close> finds that the block does not continue the store. The last
  only happens in a state in which the store is one height behind the chain state: a save of this
  sync has failed, which \<open>SaveBlock\<close> does not report.\<close>

theorem block_sync_ends:
  assumes "db_ok D" and "B + 1 \<noteq> 0"
    and "\<forall>k. \<forall>q\<in>set ps. \<forall>h. hello k q = Some h \<longrightarrow> h \<le> B"
    and "st_InitialHeight (bsync_chainState bs) = 1"
    and "BlockStore_Height D (bsync_blockStore bs) = st_LastBlockHeight (bsync_chainState bs)"
  shows "\<exists>r. block_sync_sync (default_node E D) hello fetch ps (unat B + 1) 0 (0, []) bs = Some r
    \<and> (\<forall>p. r = Inl p \<longrightarrow> (\<exists>t k q h vb. sync_reaches (default_node E D) fetch bs t \<and> fetch k q h = Inr vb
        \<and> (validateBlock E (bsync_chainState t) vb = Inl p
          \<or> DefaultBlockExecutor_ApplyBlock E (bsync_chainState t) vb = Inl p
          \<or> p = NonContiguousBlock
            \<and> st_LastBlockHeight (bsync_chainState t) = BlockStore_Height D (bsync_blockStore t) + 1)))"
proof -
  let ?sync = "block_sync_sync (default_node E D) hello fetch ps (unat B + 1) 0 (0, []) bs"
  have "?sync \<noteq> None" by (rule block_sync_ends_aux [OF assms(1-3)]) simp_all
  moreover have "\<exists>t k q h vb. sync_reaches (default_node E D) fetch bs t \<and> fetch k q h = Inr vb
        \<and> (validateBlock E (bsync_chainState t) vb = Inl p
          \<or> DefaultBlockExecutor_ApplyBlock E (bsync_chainState t) vb = Inl p
          \<or> p = NonContiguousBlock
            \<and> st_LastBlockHeight (bsync_chainState t) = BlockStore_Height D (bsync_blockStore t) + 1)"
    if panic: "?sync = Some (Inl p)" for p
  proof -
    obtain t k q h where t: "sync_reaches (default_node E D) fetch bs t"
      and p: "sync_height (default_node E D) (fetch k) q h t = Inl p"
      using block_sync_reaches [OF sync_reaches.start panic] by blast
    have "store_follows D bs" using assms(4,5) by (simp add: store_follows_def)
    then have f: "store_follows D t" by (rule sync_reaches_store_follows [OF t assms(1)])
    then show ?thesis
      using sync_height_panics [OF p] valid_next [where E = E and st = "bsync_chainState t"] t
      unfolding store_follows_def by fastforce
  qed
  ultimately show ?thesis by blast
qed

theorem block_sync_ends_witness:
  "\<exists>r. block_sync_sync (default_node sample_ext sample_sync_db) (\<lambda>k p. Some 1)
     (\<lambda>k p h. Inr sample_committed_block) [''peer''] 2 0 (0, []) sample_bsync = Some r"
proof -
  have "db_ok sample_sync_db" using sample_sync_db_writes by (simp add: db_writes_def)
  moreover have "unat (1::u64) + 1 = 2" by simp
  moreover have "st_InitialHeight (bsync_chainState sample_bsync) = 1"
    "BlockStore_Height sample_sync_db (bsync_blockStore sample_bsync) = st_LastBlockHeight (bsync_chainState sample_bsync)"
    by (simp_all add: sample_bsync_def sample_sync_db_def BlockStore_Height_def sample_genesis_def MakeGenesisChainState_def)
  ultimately show ?thesis
    using block_sync_ends [of sample_sync_db 1 "[''peer'']" "\<lambda>k p. Some 1" sample_bsync sample_ext
        "\<lambda>k p h. Inr sample_committed_block"]
    by (simp only: if_True) fastforce
qed

end
