(* ===== verification/CS_Panics.thy ===== *)
theory CS_Panics
  imports CS_Commit_Rules
begin

text \<open>
  The internal checks of the consensus state machine. \<open>consensus/consensus_state.go\<close> is full of
  panics that guard what its author takes for impossible: a height that does not match the chain
  state, a commit without a majority, a timeout with an unknown step. This theory separates those
  that no event can raise, the set \<open>sanity\<close>, from those that remain, and says why they do: no
  panic of \<open>sanity\<close> ends an event in a reachable state, and the panics left are listed one by
  one in the property at the end.
\<close>

section \<open>Operations that do not raise an internal panic\<close>

definition sanity :: "panic set" where
  "sanity = {StateHeightMismatch, InconsistentLastBlockHeight, InconsistentInitialHeight,
     PrecommitsWithoutMajority, EmptyLastCommit, InvalidTimeoutStep, ProposalWithoutPrivValidator,
     PrevoteWaitWithoutTwoThirds, PrecommitWaitWithoutTwoThirds, CommitWithoutMajority,
     FinalizeHeightMismatch, FinalizeWithoutMajority, FinalizeWrongBlock, UnexpectedVoteType,
     ValidatorPowersMismatch, NoLastCommit, KeyGenerationFailed, NodeKeyFailed, GossipSubFailed}"

definition quiet :: "'a res \<Rightarrow> bool" where
  "quiet m \<longleftrightarrow> (\<forall>p. m = Inl p \<longrightarrow> p \<notin> sanity)"

lemma quiet_Inr [simp]: "quiet (Inr x)"
  by (simp add: quiet_def)

lemma quiet_Inl [simp]: "quiet (Inl p) \<longleftrightarrow> p \<notin> sanity"
  by (simp add: quiet_def)

lemma quiet_andThen [intro]:
  "quiet m \<Longrightarrow> (\<And>x. m = Inr x \<Longrightarrow> quiet (f x)) \<Longrightarrow> quiet (andThen m f)"
  by (auto simp: quiet_def andThen_eq_Inl)

lemma quiet_deref [simp]: "quiet (deref p)"
  by (cases p) (simp_all add: sanity_def)

lemma quiet_safe [simp]: "quiet (SafeAddInt32 a b)" "quiet (SafeSubInt32 a b)"
  by (simp_all add: SafeAddInt32_def SafeSubInt32_def sanity_def)

section \<open>What is relied on\<close>

text \<open>The package of the vote sets and validators raises no panic of this repository. A majority of
  precommits is in a round from 0 on and more than two thirds of any votes; tracking a new round
  changes no majority; a vote that was added has a valid type; a commit makes a vote set.\<close>

definition library_quiet :: "('val, 'vs, 'hvs, 'blk, 'e) ext_scheme \<Rightarrow> bool" where
  "library_quiet E \<longleftrightarrow>
     (\<forall>n v. quiet (vals_IncrementProposerPriority E n v)) \<and> (\<forall>v s. quiet (vs_AddVote E v s))
     \<and> (\<forall>s. quiet (vs_MakeCommit E s)) \<and> (\<forall>ch c v. quiet (CommitToVoteSet E ch c v))
     \<and> (\<forall>n s. quiet (hvs_SetRound E n s)) \<and> (\<forall>v p s. quiet (hvs_AddVote E v p s))
     \<and> (\<forall>c b. quiet (blk_WithCommit E c b))"

definition majorities_law :: "('val, 'vs, 'hvs, 'blk, 'e) ext_scheme \<Rightarrow> bool" where
  "majorities_law E \<longleftrightarrow>
     (\<forall>vs r b. vs_TwoThirdsMajority E (hvs_Precommits E vs r) = (b, True) \<longrightarrow>
        vs \<noteq> None \<and> 0 \<le> r \<and> vs_HasTwoThirdsMajority E (hvs_Precommits E vs r)
        \<and> vs_HasTwoThirdsAny E (hvs_Precommits E vs r))"

definition tracking_law :: "('val, 'vs, 'hvs, 'blk, 'e) ext_scheme \<Rightarrow> bool" where
  "tracking_law E \<longleftrightarrow>
     (\<forall>n vs vs' r. hvs_SetRound E n vs = Inr vs' \<longrightarrow>
        vs_TwoThirdsMajority E (hvs_Precommits E vs' r) = vs_TwoThirdsMajority E (hvs_Precommits E vs r)
        \<and> vs_HasTwoThirdsAny E (hvs_Precommits E vs' r) = vs_HasTwoThirdsAny E (hvs_Precommits E vs r))"

definition votes_law :: "('val, 'vs, 'hvs, 'blk, 'e) ext_scheme \<Rightarrow> bool" where
  "votes_law E \<longleftrightarrow>
     (\<forall>v p vs err vs'. hvs_AddVote E v p vs = Inr ((True, err), vs') \<longrightarrow> IsVoteTypeValid (v_Type v))
     \<and> (\<forall>ch c vals vs. CommitToVoteSet E ch c vals = Inr vs \<longrightarrow> vs \<noteq> None)"

definition library_ok :: "('val, 'vs, 'hvs, 'blk, 'e) ext_scheme \<Rightarrow> bool" where
  "library_ok E \<longleftrightarrow> library_quiet E \<and> majorities_law E \<and> tracking_law E \<and> votes_law E"

text \<open>The executor and the store raise none of the internal panics either.\<close>

definition node_quiet :: "('val, 'vs, 'hvs, 'blk, 'bs, 'pv) node \<Rightarrow> bool" where
  "node_quiet N \<longleftrightarrow>
     (\<forall>st b. quiet (be_ValidateBlock N st b)) \<and> (\<forall>st b. quiet (be_ApplyBlock N st b))
     \<and> (\<forall>st h c a. quiet (be_MakeBlock N st h c a))
     \<and> (\<forall>bs h. quiet (store_LoadBlock N bs h)) \<and> (\<forall>bs h. quiet (store_LoadBlockCommit N bs h))
     \<and> (\<forall>bs. quiet (store_LoadSeenCommit N bs)) \<and> (\<forall>b c bs. quiet (store_SaveBlock N b c bs))"

lemma library_quietD:
  assumes "library_ok E"
  shows "quiet (vals_IncrementProposerPriority E n v)" "quiet (vs_AddVote E vt s)" "quiet (vs_MakeCommit E s)"
    "quiet (CommitToVoteSet E ch c v)" "quiet (hvs_SetRound E n h)" "quiet (hvs_AddVote E vt p h)"
    "quiet (blk_WithCommit E c b)"
  using assms by (simp_all add: library_ok_def library_quiet_def)

lemma node_quietD:
  assumes "node_quiet N"
  shows "quiet (be_ValidateBlock N st b)" "quiet (be_ApplyBlock N st b)" "quiet (be_MakeBlock N st h c a)"
    "quiet (store_LoadBlock N bs h)" "quiet (store_LoadBlockCommit N bs h)" "quiet (store_LoadSeenCommit N bs)"
    "quiet (store_SaveBlock N b c bs)"
  using assms by (simp_all add: node_quiet_def)

lemma majorityD:
  assumes "library_ok E" and "vs_TwoThirdsMajority E (hvs_Precommits E vs r) = (b, True)"
  shows "vs \<noteq> None" "0 \<le> r" "vs_HasTwoThirdsMajority E (hvs_Precommits E vs r)"
    "vs_HasTwoThirdsAny E (hvs_Precommits E vs r)"
  using assms unfolding library_ok_def majorities_law_def by blast+

section \<open>The default executor and store\<close>

lemma MedianTime_quiet: "quiet (MedianTime E c v)"
  by (auto simp: MedianTime_def Let_def)

lemma validateBlock_quiet: "quiet (validateBlock E st b)"
  using MedianTime_quiet [of E]
  by (auto simp: validateBlock_def validateBlock_header_def validateBlock_time_def sanity_def
      split: option.split)

lemma ApplyBlock_quiet:
  assumes "library_ok E"
  shows "quiet (DefaultBlockExecutor_ApplyBlock E st b)"
proof -
  have "quiet (updateState E st h b [] [])" for h
    using library_quietD(1) [OF assms] by (auto simp: updateState_def)
  then show ?thesis by (auto simp: DefaultBlockExecutor_ApplyBlock_def split: sum.split)
qed

lemma SaveBlock_quiet: "quiet (BlockStore_SaveBlock D n b c db)"
  by (auto simp: BlockStore_SaveBlock_def Let_def sanity_def split: option.split prod.split)

lemma default_node_quiet:
  assumes "library_ok E"
  shows "node_quiet (default_node E D)"
proof -
  have "quiet (DefaultBlockExecutor_MakeBlock E st h c a)" for st h c a
    using MedianTime_quiet [of E] by (auto simp: DefaultBlockExecutor_MakeBlock_def ChainState_MakeBlock_def)
  moreover have "quiet (BlockStore_LoadBlock D db h)" "quiet (BlockStore_LoadBlockCommit D db h)"
    "quiet (BlockStore_LoadSeenCommit D db)" for db h
    by (simp_all add: BlockStore_LoadBlock_def BlockStore_LoadBlockCommit_def BlockStore_LoadSeenCommit_def
        sanity_def split: option.split)
  ultimately show ?thesis
    using validateBlock_quiet [of E] ApplyBlock_quiet [OF assms] SaveBlock_quiet [of D]
    by (simp add: node_quiet_def default_node_def ext.defs)
qed

lemma default_library_ok: "library_ok E \<Longrightarrow> library_ok (default_node E D)"
  by (simp add: library_ok_def library_quiet_def majorities_law_def tracking_law_def votes_law_def
      default_node_def ext.defs)

section \<open>The votes a transition leaves alone\<close>

lemma Votes_basic [simp]:
  "Votes (newStep cs) = Votes cs" "Votes (scheduleTimeout d h r s cs) = Votes cs"
  "Votes (updateRoundStep r s cs) = Votes cs" "Votes (sendInternalMessage mi cs) = Votes cs"
  "Votes (snd (CanonicalNow E cs)) = Votes cs"
  by (simp_all add: machine_defs CanonicalNow_def)

lemma signAddVote_Votes [simp]: "Votes (signAddVote E T h cs) = Votes cs"
proof -
  have "Votes t = Votes cs" if "signVote E pv T h cs = (r, t)" for pv r t
    using that
    by (auto simp: signVote_def voteTime_def CanonicalNow_def CanonicalNowMs_def Let_def
        split: option.splits prod.splits)
  then show ?thesis by (auto simp: signAddVote_def split: option.split sum.split prod.split)
qed

lemma enterPrevote_Votes: "enterPrevote N h r cs = Inr t \<Longrightarrow> Votes t = Votes cs"
  by (auto simp: enterPrevote_def defaultDoPrevote_def andThen_eq_Inr split: if_splits option.splits)

lemma enterPrecommit_body_Votes: "enterPrecommit_body N h r cs = Inr t \<Longrightarrow> Votes t = Votes cs"
  by (auto simp: enterPrecommit_body_def Let_def andThen_eq_Inr split: if_splits prod.splits option.splits)

lemma enterPrecommit_Votes: "enterPrecommit N h r cs = Inr t \<Longrightarrow> Votes t = Votes cs"
  using enterPrecommit_body_Votes by (fastforce simp: enterPrecommit_def andThen_eq_Inr split: if_splits)

lemma defaultDecideProposal_Votes: "defaultDecideProposal N h r cs = Inr t \<Longrightarrow> Votes t = Votes cs"
  by (auto simp: defaultDecideProposal_def Let_def andThen_eq_Inr case_prod_beta split: option.splits)

lemma enterPropose_body_Votes: "enterPropose_body N h r cs = Inr t \<Longrightarrow> Votes t = Votes cs"
  using defaultDecideProposal_Votes
  by (fastforce simp: enterPropose_body_def Let_def andThen_eq_Inr split: option.splits if_splits)

lemma enterPropose_Votes: "enterPropose N h r cs = Inr t \<Longrightarrow> Votes t = Votes cs"
  using enterPropose_body_Votes enterPrevote_Votes
  by (fastforce simp: enterPropose_def Let_def andThen_eq_Inr split: if_splits)

text \<open>A new round leaves the majorities as they are.\<close>

definition same_majorities ::
  "('val, 'vs, 'hvs, 'blk, 'e) ext_scheme \<Rightarrow> 'hvs option \<Rightarrow> 'hvs option \<Rightarrow> bool" where
  "same_majorities E vs vs' \<longleftrightarrow> (\<forall>r.
     vs_TwoThirdsMajority E (hvs_Precommits E vs' r) = vs_TwoThirdsMajority E (hvs_Precommits E vs r)
     \<and> vs_HasTwoThirdsAny E (hvs_Precommits E vs' r) = vs_HasTwoThirdsAny E (hvs_Precommits E vs r))"

lemma enterNewRound_votes:
  "enterNewRound N h r cs = Inr t
     \<Longrightarrow> t = cs \<or> (\<exists>n u. hvs_SetRound N n (Votes cs) = Inr (Votes u) \<and> enterPropose N h r u = Inr t)"
  by (auto simp: enterNewRound_def Let_def andThen_eq_Inr CanonicalNow_def machine_defs split: if_splits)

section \<open>The transitions of a round\<close>

lemma enterPrevote_quiet:
  assumes "node_quiet N"
  shows "quiet (enterPrevote N h r cs)"
  using node_quietD(1) [OF assms]
  by (auto intro!: quiet_andThen simp: enterPrevote_def defaultDoPrevote_def split: option.split)

lemma enterPrevoteWait_quiet:
  "vs_HasTwoThirdsAny N (hvs_Prevotes N (Votes cs) r) \<Longrightarrow> quiet (enterPrevoteWait N h r cs)"
  by (simp add: enterPrevoteWait_def Let_def)

lemma enterPrecommitWait_quiet:
  "vs_HasTwoThirdsAny N (hvs_Precommits N (Votes cs) r) \<Longrightarrow> quiet (enterPrecommitWait N h r cs)"
  by (simp add: enterPrecommitWait_def Let_def)

lemma enterPrecommit_quiet:
  assumes "node_quiet N"
  shows "quiet (enterPrecommit N h r cs)"
proof -
  have "quiet (enterPrecommit_body N h r cs)"
    using node_quietD(1) [OF assms]
    by (auto intro!: quiet_andThen simp: enterPrecommit_body_def Let_def sanity_def split: prod.split option.split)
  then show ?thesis by (auto intro!: quiet_andThen simp: enterPrecommit_def)
qed

lemma createProposalBlock_quiet:
  assumes "library_ok N" and "node_quiet N" and "privValidator cs \<noteq> None"
  shows "quiet (createProposalBlock N cs)"
  using library_quietD(3) [OF assms(1)] node_quietD(3) [OF assms(2)] assms(3)
  by (auto intro!: quiet_andThen simp: createProposalBlock_def split: option.split)

lemma enterPropose_quiet:
  assumes "library_ok N" and "node_quiet N"
  shows "quiet (enterPropose N h r cs)"
proof -
  have decide: "quiet (defaultDecideProposal N h r cs)" if "privValidator cs \<noteq> None" for cs
    using createProposalBlock_quiet [OF assms that]
    by (auto intro!: quiet_andThen simp: defaultDecideProposal_def Let_def case_prod_beta split: option.split)
  have "quiet (enterPropose_body N h r cs)"
    using decide
    by (auto intro!: quiet_andThen simp: enterPropose_body_def Let_def isProposer_def machine_defs split: option.split)
  then show ?thesis
    using enterPrevote_quiet [OF assms(2)] by (auto intro!: quiet_andThen simp: enterPropose_def Let_def)
qed

lemma incrementPriorities_quiet:
  assumes "library_ok N" and "quiet delta"
  shows "quiet (incrementPriorities N delta i v)"
  using assms
proof (induction N delta i v rule: incrementPriorities.induct)
  case (1 E delta i validators)
  show ?case
    using 1 library_quietD(1)
    by (subst incrementPriorities.simps) (auto intro!: quiet_andThen)
qed

lemma enterNewRound_quiet:
  assumes "library_ok N" and "node_quiet N"
  shows "quiet (enterNewRound N h r cs)"
  using incrementPriorities_quiet [OF assms(1)] library_quietD(5) [OF assms(1)] enterPropose_quiet [OF assms]
  by (auto intro!: quiet_andThen simp: enterNewRound_def Let_def case_prod_beta)

text \<open>What \<open>addVote\<close> has found of the precommits still holds when the new round has begun.\<close>

lemma enterNewRound_majorities:
  assumes "library_ok N" and "enterNewRound N h r cs = Inr t"
  shows "same_majorities N (Votes cs) (Votes t)"
proof -
  from enterNewRound_votes [OF assms(2)] consider (same) "t = cs"
    | (new) n u where "hvs_SetRound N n (Votes cs) = Inr (Votes u)" "enterPropose N h r u = Inr t" by blast
  then show ?thesis
  proof cases
    case new
    have "same_majorities N (Votes cs) (Votes u)"
      using assms(1) new(1) unfolding library_ok_def tracking_law_def same_majorities_def by blast
    then show ?thesis by (simp add: enterPropose_Votes [OF new(2)])
  qed (simp add: same_majorities_def)
qed

lemma handleTimeout_quiet:
  assumes "library_ok N" and "node_quiet N" and "tick_ok q ti"
  shows "quiet (handleTimeout N ti rs cs)"
proof -
  note q = enterNewRound_quiet [OF assms(1,2)] enterPrevote_quiet [OF assms(2)] enterPrecommit_quiet [OF assms(2)]
    enterPropose_quiet [OF assms(1,2)]
  have w: "quiet (andThen (enterPrecommit N h r cs) (enterNewRound N h' r'))" for h r h' r'
    by (intro quiet_andThen q)
  show ?thesis using assms(3) unfolding handleTimeout_def tick_ok_def by (simp add: q w) auto
qed

section \<open>Committing\<close>

text \<open>Heights of the chain state: a chain that has blocks starts at its initial height.\<close>

definition initial_ok :: "'val chain_state \<Rightarrow> bool" where
  "initial_ok st \<longleftrightarrow> st_LastBlockHeight st = 0 \<or> st_InitialHeight st \<le> st_LastBlockHeight st"

text \<open>Where the last commit of the next height comes from.\<close>

definition commit_known ::
  "('val, 'vs, 'hvs, 'blk, 'bs, 'pv) node \<Rightarrow> ('val, 'vs, 'hvs, 'blk, 'bs, 'pv) consensus_state \<Rightarrow> bool" where
  "commit_known N cs \<longleftrightarrow>
     (if CommitRound cs > -1 \<and> Votes cs \<noteq> None
      then vs_HasTwoThirdsMajority N (hvs_Precommits N (Votes cs) (CommitRound cs))
      else LastCommit cs \<noteq> None)"

lemma updateToState_quiet:
  assumes "cs_inv cs" and "initial_ok (chainState cs)" and "commit_known N cs"
    and "st_LastBlockHeight st' = Height cs"
  shows "quiet (updateToState N st' cs)"
proof -
  have eq: "Height cs = (if st_LastBlockHeight (chainState cs) = 0 then st_InitialHeight (chainState cs)
      else st_LastBlockHeight (chainState cs) + 1)" "Height cs \<noteq> 0"
    using assms(1) unfolding cs_inv_def chain_ok_def next_height_eq by blast+
  then have "updateToState_check st' cs = Inr ()"
    using assms(2,4) word_less_Suc [of "st_LastBlockHeight (chainState cs)"]
    by (auto simp: updateToState_check_def initial_ok_def)
  moreover have "quiet (updateToState_lastCommit N st' cs)"
    using assms(3) by (auto simp: updateToState_lastCommit_def commit_known_def Let_def split: if_splits)
  ultimately show ?thesis by (auto intro!: quiet_andThen simp: updateToState_def)
qed

lemma saveBlock_keeps:
  "saveBlock N block seen cs = Inr t
     \<Longrightarrow> Votes t = Votes cs \<and> CommitRound t = CommitRound cs \<and> LastCommit t = LastCommit cs"
  by (auto simp: saveBlock_def andThen_eq_Inr split: if_splits)

lemma saveBlock_quiet:
  "node_quiet N \<Longrightarrow> quiet seen \<Longrightarrow> quiet (saveBlock N block seen cs)"
  using node_quietD(7) by (auto intro!: quiet_andThen simp: saveBlock_def)

context consensus_node
begin

lemma applyBlock_quiet:
  assumes "node_quiet N" and inv: "cs_inv cs" and "initial_ok (chainState cs)" and "commit_known N cs"
    and valid: "be_ValidateBlock N (chainState cs) block = Inr None" and after: "\<And>c. quiet (after c)"
  shows "quiet (applyBlock N block after cs)"
proof -
  have "quiet (updateToState N st' cs)"
    if "be_ApplyBlock N (ChainState_Copy N (chainState cs)) block = Inr (Inr st')" for st'
    using updateToState_quiet [OF inv assms(3,4)] executor.exec_height [OF that] validate_height [OF inv valid]
    by simp
  then show ?thesis
    using node_quietD(2) [OF assms(1)] after
    by (auto intro!: quiet_andThen simp: applyBlock_def Let_def split: sum.split)
qed

lemma saveAndApply_quiet:
  assumes "node_quiet N" and "cs_inv cs" and "initial_ok (chainState cs)" and "commit_known N cs"
    and "be_ValidateBlock N (chainState cs) block = Inr None" and "quiet seen" and "\<And>c. quiet (after c)"
  shows "quiet (andThen (saveBlock N block seen cs) (applyBlock N block after))"
proof (rule quiet_andThen)
  fix u
  assume u: "saveBlock N block seen cs = Inr u"
  have c: "core u = core cs" by (rule saveBlock_core [OF u])
  show "quiet (applyBlock N block after u)"
    using assms c core_inv [OF c] saveBlock_keeps [OF u]
    by (intro applyBlock_quiet) (simp_all add: core_def commit_known_def)
qed (rule saveBlock_quiet [OF assms(1,6)])

lemma finalizeCommit_quiet:
  assumes "library_ok N" and "node_quiet N" and "cs_inv cs" and "initial_ok (chainState cs)"
    and maj: "vs_TwoThirdsMajority N (hvs_Precommits N (Votes cs) (CommitRound cs)) = (h, True)"
    and "blk_HashTo N (ProposalBlock cs) h"
  shows "quiet (finalizeCommit N height cs)"
proof -
  have "commit_known N cs" using majorityD [OF assms(1) maj] by (simp add: commit_known_def)
  then have "quiet (andThen (saveBlock N block (vs_MakeCommit N (hvs_Precommits N (Votes cs) (CommitRound cs))) cs)
      (applyBlock N block (\<lambda>cs. Inr (scheduleRound0 N (GetRoundState cs) cs))))"
    if "be_ValidateBlock N (chainState cs) block = Inr None" for block
    using library_quietD(3) [OF assms(1)] that assms by (intro saveAndApply_quiet) simp_all
  then show ?thesis
    using node_quietD(1) [OF assms(2)] maj assms(6)
    by (auto intro!: quiet_andThen [of "deref _"] quiet_andThen [of "be_ValidateBlock _ _ _"]
        simp: finalizeCommit_def Let_def sanity_def split: option.split)
qed

lemma tryFinalizeCommit_quiet:
  assumes "library_ok N" and "node_quiet N" and "cs_inv cs" and "initial_ok (chainState cs)"
    and "Height cs = height"
  shows "quiet (tryFinalizeCommit N height cs)"
  using finalizeCommit_quiet [OF assms(1-4)] assms(5)
  by (auto simp: tryFinalizeCommit_def Let_def split: prod.split)

lemma enterCommit_quiet:
  assumes "library_ok N" and "node_quiet N" and inv: "cs_inv cs" and "initial_ok (chainState cs)"
    and maj: "vs_TwoThirdsMajority N (hvs_Precommits N (Votes cs) commitRound) = (h, True)"
  shows "quiet (enterCommit N height commitRound cs)"
proof (cases "Height cs \<noteq> height \<or> RoundStepCommit \<le> Step cs")
  case True
  then show ?thesis by (simp add: enterCommit_def)
next
  case False
  let ?c = "\<lambda>u. (updateRoundStep (Round u) RoundStepCommit u)\<lparr>CommitRound := commitRound\<rparr>"
  have "quiet (tryFinalizeCommit N height (newStep (w\<lparr>CommitTime := now\<rparr>)))"
    if u: "enterCommit_body N commitRound cs = Inr u" and w: "CanonicalNow N (?c u) = (now, w)" for u now w
  proof -
    have "stays cs (newStep (w\<lparr>CommitTime := now\<rparr>))" by (rule enterCommit_state [OF inv u w])
    then show ?thesis
      using assms(4) False by (intro tryFinalizeCommit_quiet [OF assms(1,2)]) (simp_all add: stays_def)
  qed
  moreover have "quiet (enterCommit_body N commitRound cs)"
    using maj by (simp add: enterCommit_body_def Let_def)
  ultimately show ?thesis
    by (auto intro!: quiet_andThen simp: enterCommit_def Let_def split: prod.split)
qed

lemma processCommitedBlock_quiet:
  assumes "library_ok N" and "node_quiet N" and inv: "cs_inv cs" and "initial_ok (chainState cs)"
  shows "quiet (processCommitedBlock N block cs)"
proof -
  define after where "after = (\<lambda>cs. if SkipTimeoutCommit (cs_config cs) \<and> vs_HasAll N (LastCommit cs)
      then enterNewRound N (Height cs) 0 cs else Inr (scheduleRound0 N (GetRoundState cs) cs))"
  let ?c = "\<lambda>lc. (updateRoundStep (Round cs) RoundStepCommit cs)\<lparr>CommitRound := -1, LastCommit := lc\<rparr>"
  let ?u = "\<lambda>lc. (snd (CanonicalNow N (?c lc)))\<lparr>CommitTime := fst (CanonicalNow N (?c lc))\<rparr>"
  have after: "quiet (after c)" for c
    using enterNewRound_quiet [OF assms(1,2)] by (simp add: after_def)
  have save: "quiet (andThen (saveBlock N block seen (?u lc)) (applyBlock N block after))"
    if "be_ValidateBlock N (chainState cs) block = Inr None" "quiet seen" "lc \<noteq> None" for lc seen
  proof -
    have u: "core (?u lc) = core (updateRoundStep (Round cs) RoundStepCommit cs)"
      by (simp add: CanonicalNow_def core_def pos_def)
    have "stays cs (?u lc)" by (rule commit_step_stays [OF inv u])
    moreover have "commit_known N (?u lc)"
      using that(3) by (simp add: commit_known_def CanonicalNow_def)
    ultimately show ?thesis
      using that assms(4) after by (intro saveAndApply_quiet [OF assms(2)]) (simp_all add: stays_def)
  qed
  have "lc \<noteq> None" if "CommitToVoteSet N ch c vals = Inr lc" for ch c vals lc
    using assms(1) that unfolding library_ok_def votes_law_def by blast
  then show ?thesis
    using node_quietD(1) [OF assms(2)] library_quietD(4) [OF assms(1)] save
    unfolding processCommitedBlock_def after_def [symmetric]
    by (auto intro!: quiet_andThen [of "be_ValidateBlock _ _ _"] quiet_andThen [of "CommitToVoteSet _ _ _ _"]
        simp: Let_def case_prod_beta split: option.split)
qed

lemma defaultSetProposal_quiet:
  assumes "library_ok N" and "node_quiet N" and inv: "cs_inv cs" and "initial_ok (chainState cs)"
  shows "quiet (defaultSetProposal N proposal cs)"
proof -
  have step: "quiet (setProposal_step N b u)" if "core u = core cs" for b u
  proof -
    have "cs_inv u" "initial_ok (chainState u)"
      using core_inv [OF that] inv assms(4) that by (simp_all add: core_def)
    then have "quiet (tryFinalizeCommit N (Height u) u)" by (intro tryFinalizeCommit_quiet assms(1,2)) simp_all
    then show ?thesis
      using enterPrevote_quiet [OF assms(2)] enterPrecommit_quiet [OF assms(2)]
      by (auto intro!: quiet_andThen simp: setProposal_step_def)
  qed
  have "core (setProposal_valid N h b (cs\<lparr>Proposal := p, ProposalBlock := pb\<rparr>)) = core cs" for h b p pb
    by (simp add: setProposal_valid_core) (simp add: core_def pos_def)
  then show ?thesis
    by (auto intro!: quiet_andThen step simp: defaultSetProposal_def Let_def case_prod_beta)
qed

lemma addVote_prevote_quiet:
  assumes "library_ok N" and "node_quiet N"
  shows "quiet (addVote_prevote N height vote cs)"
proof -
  obtain h ok where m: "vs_TwoThirdsMajority N (hvs_Prevotes N (Votes cs) (v_Round vote)) = (h, ok)" by fastforce
  define u where "u = (if ok then addVote_polka N vote h cs else cs)"
  have "Votes u = Votes cs" by (simp add: u_def addVote_polka_def Let_def)
  then have "quiet (enterPrevoteWait N height (v_Round vote) u)"
    if "vs_HasTwoThirdsAny N (hvs_Prevotes N (Votes cs) (v_Round vote))"
    using that by (intro enterPrevoteWait_quiet) simp
  then show ?thesis
    using enterNewRound_quiet [OF assms] enterPrecommit_quiet [OF assms(2)] enterPrevote_quiet [OF assms(2)] m
    unfolding addVote_prevote_def Let_def
    by (simp add: u_def [symmetric] split: option.split)
qed

lemma addVote_precommit_quiet:
  assumes "library_ok N" and "node_quiet N" and inv: "cs_inv cs" and "initial_ok (chainState cs)"
    and new: "new_proposal_ok N"
  shows "quiet (addVote_precommit N height vote cs)"
proof -
  let ?r = "v_Round vote"
  obtain h ok where m: "vs_TwoThirdsMajority N (hvs_Precommits N (Votes cs) ?r) = (h, ok)" by fastforce
  note q = enterNewRound_quiet [OF assms(1,2)] enterPrecommit_quiet [OF assms(2)]
  have wait: "quiet (enterPrecommitWait N height ?r t)"
    if "vs_HasTwoThirdsAny N (hvs_Precommits N (Votes cs) ?r)" "same_majorities N (Votes cs) (Votes t)" for t
    using that by (intro enterPrecommitWait_quiet) (simp add: same_majorities_def)
  have "quiet (andThen (enterNewRound N height ?r cs) (\<lambda>cs.
      andThen (enterPrecommit N height ?r cs) (\<lambda>cs.
        if h \<noteq> 0 then
          andThen (enterCommit N height ?r cs) (\<lambda>u.
            if SkipTimeoutCommit (cs_config u) \<and> all then enterNewRound N (Height u) 0 u else Inr u)
        else enterPrecommitWait N height ?r cs)))" if ok for all
  proof (intro quiet_andThen q)
    fix u w
    assume u: "enterNewRound N height ?r cs = Inr u" and w: "enterPrecommit N height ?r u = Inr w"
    have same: "same_majorities N (Votes cs) (Votes w)"
      using enterNewRound_majorities [OF assms(1) u] enterPrecommit_Votes [OF w] by simp
    have maj: "vs_TwoThirdsMajority N (hvs_Precommits N (Votes w) ?r) = (h, True)"
      using same m that by (simp add: same_majorities_def)
    have su: "stays cs u" by (rule enterNewRound_stays [OF inv new u])
    have any: "vs_HasTwoThirdsAny N (hvs_Precommits N (Votes cs) ?r)"
      using majorityD(4) [OF assms(1)] m that by simp
    show "quiet (if h \<noteq> 0 then
          andThen (enterCommit N height ?r w) (\<lambda>u.
            if SkipTimeoutCommit (cs_config u) \<and> all then enterNewRound N (Height u) 0 u else Inr u)
        else enterPrecommitWait N height ?r w)"
    proof (cases "Height cs = height")
      case True
      then have "?r \<le> Round u" by (rule enterNewRound_round [OF inv new u])
      then have "stays u w" by (intro enterPrecommit_stays [OF stays_inv [OF su] _ w])
      then have "stays cs w" by (rule stays_trans [OF su])
      then have "quiet (enterCommit N height ?r w)"
        using assms(4) by (intro enterCommit_quiet [OF assms(1,2) _ _ maj]) (simp_all add: stays_def)
      then show ?thesis using wait [OF any same] q by (auto intro!: quiet_andThen)
    next
      case False
      then have "Height w \<noteq> height"
        using u w by (simp add: enterNewRound_def enterPrecommit_def)
      then show ?thesis by (auto intro!: quiet_andThen q simp: enterCommit_def enterPrecommitWait_def)
    qed
  qed
  moreover have "quiet (andThen (enterNewRound N height ?r cs) (enterPrecommitWait N height ?r))"
    if "vs_HasTwoThirdsAny N (hvs_Precommits N (Votes cs) ?r)"
    using enterNewRound_majorities [OF assms(1)] by (intro quiet_andThen q wait that)
  ultimately show ?thesis using m by (simp add: addVote_precommit_def Let_def)
qed

lemma addVote_quiet:
  assumes "library_ok N" and "node_quiet N" and inv: "cs_inv cs" and "initial_ok (chainState cs)"
    and new: "new_proposal_ok N"
  shows "quiet (addVote N vote peer cs)"
proof -
  have late: "quiet (addVote_late N vote cs)"
    using library_quietD(2) [OF assms(1)] enterNewRound_quiet [OF assms(1,2)]
    by (auto intro!: quiet_andThen simp: addVote_late_def Let_def case_prod_beta)
  have c: "core (cs\<lparr>Votes := vs\<rparr>) = core cs" for vs by (simp add: core_def pos_def)
  have added: "quiet (case v_Type vote of
        PrevoteType \<Rightarrow> addVote_prevote N (Height cs) vote (cs\<lparr>Votes := vs\<rparr>)
      | PrecommitType \<Rightarrow> addVote_precommit N (Height cs) vote (cs\<lparr>Votes := vs\<rparr>)
      | _ \<Rightarrow> Inl UnexpectedVoteType)"
    if "hvs_AddVote N vote peer (Votes cs) = Inr ((True, err), vs)" for err vs
  proof -
    have "IsVoteTypeValid (v_Type vote)" using assms(1) that unfolding library_ok_def votes_law_def by blast
    moreover have "quiet (addVote_precommit N (Height cs) vote (cs\<lparr>Votes := vs\<rparr>))"
      using assms(4) core_inv [OF c] inv by (intro addVote_precommit_quiet [OF assms(1,2) _ _ new]) simp_all
    ultimately show ?thesis
      using addVote_prevote_quiet [OF assms(1,2)] by (cases "v_Type vote") simp_all
  qed
  have "quiet (andThen (hvs_AddVote N vote peer (Votes cs)) (\<lambda>((added, err), votes).
      let cs' = cs\<lparr>Votes := votes\<rparr> in
      if \<not> added then Inr ((added, err), cs')
      else
        andThen
          (case v_Type vote of
             PrevoteType \<Rightarrow> addVote_prevote N (Height cs) vote cs'
           | PrecommitType \<Rightarrow> addVote_precommit N (Height cs) vote cs'
           | _ \<Rightarrow> Inl UnexpectedVoteType)
          (\<lambda>cs. Inr ((added, err), cs))))"
  proof (rule quiet_andThen)
    show "quiet (hvs_AddVote N vote peer (Votes cs))" by (rule library_quietD(6) [OF assms(1)])
  qed (auto simp: Let_def intro!: quiet_andThen added)
  then show ?thesis using late by (simp add: addVote_def Let_def)
qed

lemma handleMsg_quiet:
  assumes "library_ok N" and "node_quiet N" and inv: "cs_inv cs" and "initial_ok (chainState cs)"
    and new: "new_proposal_ok N"
  shows "quiet (handleMsg N mi cs)"
  using defaultSetProposal_quiet [OF assms(1-4)] addVote_quiet [OF assms]
  by (auto intro!: quiet_andThen simp: handleMsg_def tryAddVote_def case_prod_beta split: message.split)

end

section \<open>Events\<close>

lemma createSyncRequest_quiet: "quiet (createSyncRequest N cs)"
  by (auto intro!: quiet_andThen simp: createSyncRequest_def Let_def)

lemma processSyncRequest_quiet:
  assumes "library_ok N" and "node_quiet N"
  shows "quiet (processSyncRequest N req cs)"
  using node_quietD(4,5) [OF assms(2)] library_quietD(7) [OF assms(1)]
  by (auto intro!: quiet_andThen simp: processSyncRequest_def Let_def)

context consensus_node
begin

lemma receive_event_quiet:
  assumes "library_ok N" and "node_quiet N" and inv: "system_inv s"
    and init: "initial_ok (chainState (sys_cs s))" and new: "new_proposal_ok N"
  shows "quiet (receive_event N ev s)"
proof -
  have cs: "cs_inv (sys_cs s)" using inv by (simp add: system_inv_def)
  have q: "quiet (handleMsg N mi ((sys_cs s)\<lparr>internalMsgQueue := mis\<rparr>))" for mi mis
  proof -
    have "core ((sys_cs s)\<lparr>internalMsgQueue := mis\<rparr>) = core (sys_cs s)" by (simp add: core_def pos_def)
    from core_inv [OF this] show ?thesis
      using cs init by (intro handleMsg_quiet [OF assms(1,2) _ _ new]) simp_all
  qed
  show ?thesis
  proof (cases ev)
    case (PeerMsg mi)
    then show ?thesis using handleMsg_quiet [OF assms(1,2) cs init new] by (auto intro!: quiet_andThen)
  next
    case InternalMsg
    then show ?thesis using q by (auto intro!: quiet_andThen split: list.split)
  next
    case (Tock k)
    have "quiet (handleTimeout N ti rs (sys_cs s))"
      if "take_nth k (tt_tockChan (sys_ticker s)) = Some (ti, tis)" for ti tis rs
      using take_nth_set [OF that] inv
      by (intro handleTimeout_quiet [OF assms(1,2)]) (auto simp: system_inv_def ticker_held_def)
    then show ?thesis using Tock by (auto intro!: quiet_andThen split: option.split)
  next
    case SyncTimer
    then show ?thesis using createSyncRequest_quiet by (auto intro!: quiet_andThen)
  next
    case (SyncRequest req)
    then show ?thesis using processSyncRequest_quiet [OF assms(1,2)] by (auto intro!: quiet_andThen)
  next
    case (CommittedBlock block)
    then show ?thesis
      using processCommitedBlock_quiet [OF assms(1,2) cs init] by (auto intro!: quiet_andThen)
  qed (auto split: option.split list.split)
qed

lemma chain_links_initial:
  assumes "(chain_link N)\<^sup>*\<^sup>* st st'" and "initial_ok st"
  shows "initial_ok st'"
  using assms
proof (induction rule: rtranclp_induct)
  case (step y z)
  from step(2) obtain b where b: "be_ValidateBlock N y b = Inr None"
    "be_ApplyBlock N (ChainState_Copy N y) b = Inr (Inr z)" by (rule chain_linkE)
  have z: "st_LastBlockHeight z = (if st_LastBlockHeight y = 0 then st_InitialHeight y
      else st_LastBlockHeight y + 1)" "st_InitialHeight z = st_InitialHeight y"
    using executor.valid_number [OF b(1)] executor.exec_height [OF b(2)] executor.exec_initial [OF b(2)] by simp_all
  have y: "initial_ok y" using step by blast
  show ?case
  proof (cases "st_LastBlockHeight y = 0 \<or> st_LastBlockHeight y + 1 = 0")
    case False
    then have "st_LastBlockHeight y < st_LastBlockHeight y + 1" by (intro word_less_Suc) simp
    with y z False show ?thesis by (auto simp: initial_ok_def)
  qed (use z in \<open>auto simp: initial_ok_def\<close>)
qed

end

section \<open>Property\<close>

lemma sample_library_ok: "library_ok sample_ext"
proof -
  have any: "sample_any so" if "snd (sample_majority so)" for so
    using that by (cases so) (simp_all add: sample_any_def sample_majority_def)
  have maj: "so \<noteq> None \<and> 0 \<le> r \<and> snd (sample_majority (sample_round T so r)) \<and> sample_any (sample_round T so r)"
    if "sample_majority (sample_round T so r) = (b, True)" for T so r b
  proof -
    have "\<not> (so = None \<or> r < 0)"
      using that by (cases so) (auto simp: sample_round_def sample_majority_def split: if_splits)
    then show ?thesis using any [of "sample_round T so r"] that by (simp add: not_less)
  qed
  have "library_quiet sample_ext"
    by (auto simp: library_quiet_def sample_ext_def sample_add_def sample_commit_def sanity_def split: option.split)
  moreover have "majorities_law sample_ext"
    unfolding majorities_law_def using maj by (simp add: sample_ext_def)
  moreover have "tracking_law sample_ext" by (simp add: tracking_law_def sample_ext_def)
  moreover have "votes_law sample_ext"
    by (auto simp: votes_law_def sample_ext_def sample_add_def split: option.splits if_splits)
  ultimately show ?thesis by (simp add: library_ok_def)
qed

text \<open>C5. The panics an event can end in. In every state that a node can reach from a
  consistent start, with a package of vote sets as \<open>library_ok\<close> describes it, whatever peers, timers
  and scheduler do, an event that panics does so with one of nine panics:

  a nil pointer or a division by zero of the runtime, a panic inside the package of the vote sets, a
  key of the store that does not decode (\<open>CorruptStore\<close>); a block that does not continue the store,
  which an unnoticed failure of an earlier write brings about; a round next to the largest \<open>int32\<close>;
  and the three guards that rest on the package or on the voting power of honest validators, which
  are no hypothesis here: a majority of prevotes in a round later than the one \<open>POLInfo\<close> of the
  package returns, a polka for an invalid block and a majority of precommits for an invalid block.

  So every other check of \<open>consensus_state.go\<close> is one that cannot fail: the heights agree with the
  chain state (three panics of \<open>updateToState\<close>), the last commit is there and has its majority,
  a timeout has a known step, a node that proposes has a key, a wait is entered with two thirds of
  any votes, a commit is entered and finalised with a majority, at the node's height and for the
  block of that majority, and an added vote is a prevote or a precommit.\<close>

theorem panics_of_events:
  assumes "startable state" and "initial_ok state" and "new_proposal_ok E" and "library_ok E"
    and "reachable (default_node E D) cfg state store pv s"
    and "receive_event (default_node E D) ev s = Inl p"
  shows "p \<in> {NilDereference, DivideByZero, LibraryPanic, CorruptStore, NonContiguousBlock, OverflowInt32,
    POLRoundTooSmall, PolkaForInvalidBlock, CommittedInvalidBlock}"
proof -
  have inv: "system_inv s" by (rule default_reachable_inv [OF assms(1,3,5)])
  have "initial_ok (chainState (sys_cs s))"
    by (rule default_consensus.chain_links_initial [OF default_reachable_chain [OF assms(1,3,5)] assms(2)])
  then have "quiet (receive_event (default_node E D) ev s)"
    using default_consensus.receive_event_quiet [OF default_library_ok [OF assms(4)] default_node_quiet [OF assms(4)] inv]
      assms(3) by simp
  then show ?thesis using assms(6) by (cases p) (simp_all add: sanity_def)
qed

theorem panics_of_events_witness:
  "\<exists>s. reachable (default_node sample_ext sample_block_db) sample_config sample_genesis Map.empty
         (Some sample_key) s
     \<and> st_LastBlockHeight (chainState (sys_cs s)) = 1
     \<and> (\<forall>ev p. receive_event (default_node sample_ext sample_block_db) ev s = Inl p
          \<longrightarrow> p \<in> {NilDereference, DivideByZero, LibraryPanic, CorruptStore, NonContiguousBlock, OverflowInt32,
            POLRoundTooSmall, PolkaForInvalidBlock, CommittedInvalidBlock})"
  using sample_committed_reachable
proof (elim exE conjE, intro exI conjI allI impI)
  fix s ev p assume "reachable (default_node sample_ext sample_block_db) sample_config sample_genesis
      Map.empty (Some sample_key) s"
    and "receive_event (default_node sample_ext sample_block_db) ev s = Inl p"
  then show "p \<in> {NilDereference, DivideByZero, LibraryPanic, CorruptStore, NonContiguousBlock, OverflowInt32,
      POLRoundTooSmall, PolkaForInvalidBlock, CommittedInvalidBlock}"
    by (intro panics_of_events [OF sample_hypotheses(1) _ sample_hypotheses(2) sample_library_ok])
      (simp_all add: initial_ok_def sample_genesis_def MakeGenesisChainState_def)
qed

end
