(* ===== verification/CS_Timeouts.thy ===== *)
theory CS_Timeouts
  imports CS_Commit_Rules
begin

text \<open>
  A node never waits for a timeout that is not on its way. In the steps NewHeight, Propose and
  PrevoteWait, and after two thirds of any precommits, the state machine of
  \<open>consensus/consensus_state.go\<close> goes on when a timeout fires. The timeout has to pass the ticker of
  \<open>consensus/timeout_ticker.go\<close>, which keeps only the latest one and ignores ticks that are not later.
  This theory shows that the timeout of the position the node waits at is never lost on that way: it
  is in \<open>tickChan\<close>, or carried by the armed timer, or fired and not yet received.
\<close>

section \<open>What a node waits for\<close>

definition waiting :: "('val, 'vs, 'hvs, 'blk, 'bs, 'pv) consensus_state \<Rightarrow> bool" where
  "waiting cs \<longleftrightarrow> Step cs < RoundStepPrecommitWait
     \<and> (TriggeredTimeoutPrecommit cs
        \<or> Step cs \<in> {RoundStepNewHeight, RoundStepPropose, RoundStepPrevoteWait})"

text \<open>The latest position a timeout may have been asked for, and the position of the timeout that a
  waiting node waits for.\<close>

definition due :: "('val, 'vs, 'hvs, 'blk, 'bs, 'pv) consensus_state \<Rightarrow> u64 \<times> int \<times> round_step" where
  "due cs = (Height cs, Round cs,
     if TriggeredTimeoutPrecommit cs \<and> Step cs < RoundStepPrecommitWait then RoundStepPrecommitWait else Step cs)"

definition round_fits :: "('val, 'vs, 'hvs, 'blk, 'bs, 'pv) consensus_state \<Rightarrow> bool" where
  "round_fits cs \<longleftrightarrow> Round cs \<le> 2147483646 \<and> 
     (Step cs = RoundStepNewHeight \<longrightarrow> Round cs = 0 \<and> \<not> TriggeredTimeoutPrecommit cs)"

text \<open>The node is past the old position, and if it waits, for a timeout it has just asked for.\<close>

definition moved ::
  "('val, 'vs, 'hvs, 'blk, 'bs, 'pv) consensus_state
     \<Rightarrow> ('val, 'vs, 'hvs, 'blk, 'bs, 'pv) consensus_state \<Rightarrow> bool" where
  "moved cs t \<longleftrightarrow> (waiting t \<longrightarrow> due cs < due t \<and> due t \<in> ti_key ` set (tickChan t))"

text \<open>What every handler does to the wait.\<close>

definition waits ::
  "('val, 'vs, 'hvs, 'blk, 'bs, 'pv) consensus_state
     \<Rightarrow> ('val, 'vs, 'hvs, 'blk, 'bs, 'pv) consensus_state \<Rightarrow> bool" where
  "waits cs t \<longleftrightarrow> due cs \<le> due t \<and> set (tickChan cs) \<subseteq> set (tickChan t)
     \<and> (\<forall>ti\<in>set (tickChan t). ti \<in> set (tickChan cs) \<or> ti_key ti \<le> due t)
     \<and> (moved cs t \<or> (waiting cs \<and> due t = due cs)) \<and> (round_fits cs \<longrightarrow> round_fits t)"

lemma waits_refl: "waits cs cs"
  by (auto simp: waits_def moved_def)

lemma waits_trans:
  assumes "waits a b" and "waits b c"
  shows "waits a c"
proof -
  have "moved a c \<or> (waiting a \<and> due c = due a)"
    using assms by (auto simp: waits_def moved_def)
  moreover have "ti \<in> set (tickChan a) \<or> ti_key ti \<le> due c" if "ti \<in> set (tickChan c)" for ti
    using assms that unfolding waits_def by (meson order_trans)
  ultimately show ?thesis using assms unfolding waits_def by (meson order_trans subset_trans)
qed

lemma moved_waits: "moved a b \<Longrightarrow> waits b c \<Longrightarrow> due a \<le> due b \<Longrightarrow> moved a c"
  by (auto simp: waits_def moved_def)

lemma waits_moved: "waits a b \<Longrightarrow> moved b c \<Longrightarrow> moved a c"
  by (auto simp: waits_def moved_def)

section \<open>The handlers of a round\<close>

text \<open>The fields the wait depends on.\<close>

definition wait_view ::
  "('val, 'vs, 'hvs, 'blk, 'bs, 'pv) consensus_state
     \<Rightarrow> (u64 \<times> int \<times> round_step) \<times> bool \<times> timeout_info list" where
  "wait_view cs = (pos cs, TriggeredTimeoutPrecommit cs, tickChan cs)"

lemma wait_view_eq:
  assumes "wait_view t = wait_view cs"
  shows "waits cs u = waits t u" "waits u cs = waits u t" "waiting t = waiting cs" "due t = due cs"
proof -
  show w: "waiting t = waiting cs" and d: "due t = due cs"
    using assms by (simp_all add: wait_view_def pos_def waiting_def due_def)
  show "waits cs u = waits t u" "waits u cs = waits u t"
    using assms w d by (simp_all add: waits_def moved_def wait_view_def pos_def round_fits_def)
qed

lemma same_view_waits: "wait_view t = wait_view cs \<Longrightarrow> waits cs t"
  using wait_view_eq(1) waits_refl by blast

lemma wait_view_basic [simp]:
  "wait_view (newStep cs) = wait_view cs" "wait_view (sendInternalMessage mi cs) = wait_view cs"
  "wait_view (broadcastMessageToPeers m cs) = wait_view cs"
  "wait_view (snd (CanonicalNow E cs)) = wait_view cs"
  "wait_view (snd (updatePrivValidatorPubKey E cs)) = wait_view cs"
  by (simp_all add: wait_view_def pos_def machine_defs CanonicalNow_def updatePrivValidatorPubKey_def
      split: option.split sum.split)

lemma wait_view_updates [simp]:
  "wait_view (cs\<lparr>Votes := vs\<rparr>) = wait_view cs" "wait_view (cs\<lparr>LastCommit := lc\<rparr>) = wait_view cs"
  "wait_view (cs\<lparr>LockedRound := r\<rparr>) = wait_view cs" "wait_view (cs\<lparr>LockedBlock := b\<rparr>) = wait_view cs"
  "wait_view (cs\<lparr>ProposalBlock := b\<rparr>) = wait_view cs" "wait_view (cs\<lparr>Proposal := p\<rparr>) = wait_view cs"
  "wait_view (cs\<lparr>blockStore := bs\<rparr>) = wait_view cs"
  "wait_view (cs\<lparr>signedProposals := ps\<rparr>) = wait_view cs"
  by (simp_all add: wait_view_def pos_def)

lemma signAddVote_wait_view [simp]: "wait_view (signAddVote E T h cs) = wait_view cs"
proof -
  have "wait_view t = wait_view cs" if "signVote E pv T h cs = (r, t)" for pv r t
    using that
    by (auto simp: signVote_def voteTime_def CanonicalNow_def CanonicalNowMs_def Let_def wait_view_def pos_def
        split: option.splits prod.splits)
  then show ?thesis by (auto simp: signAddVote_def split: option.split sum.split prod.split)
qed

text \<open>A step forward in the same round that asks for no timeout.\<close>

lemma waits_step:
  assumes "wait_view t = ((Height cs, Round cs, s), TriggeredTimeoutPrecommit cs, tickChan cs)"
    and "Step cs < s" and "s \<in> {RoundStepPrevote, RoundStepPrecommit, RoundStepCommit}"
  shows "waits cs t \<and> (TriggeredTimeoutPrecommit cs \<and> s < RoundStepPrecommitWait \<or> moved cs t)"
  using assms less_trans [of "Step cs" s RoundStepPrecommitWait]
  by (auto simp: wait_view_def pos_def waits_def moved_def waiting_def due_def round_fits_def less_eq_prod_def
      less_prod_def)

lemma enterPrevote_view:
  assumes "enterPrevote N height round cs = Inr t" and "round \<le> Round cs"
  shows "if Height cs = height \<and> Round cs = round \<and> Step cs < RoundStepPrevote
    then wait_view t = ((Height cs, Round cs, RoundStepPrevote), TriggeredTimeoutPrecommit cs, tickChan cs)
    else t = cs"
proof (cases "Height cs = height \<and> Round cs = round \<and> Step cs < RoundStepPrevote")
  case True
  then obtain u where u: "defaultDoPrevote N height round cs = Inr u"
    and t: "t = newStep (updateRoundStep round RoundStepPrevote u)"
    using assms(1) by (auto simp: enterPrevote_def andThen_eq_Inr dest: leD split: if_splits)
  have "wait_view u = wait_view cs"
    using u by (auto simp: defaultDoPrevote_def andThen_eq_Inr split: option.splits)
  then show ?thesis using t True by (simp add: wait_view_def pos_def machine_defs)
next
  case False
  then show ?thesis using assms by (auto simp: enterPrevote_def not_less split: if_splits)
qed

lemma enterPrecommit_body_wait_view:
  "enterPrecommit_body N height round cs = Inr t \<Longrightarrow> wait_view t = wait_view cs"
  by (auto simp: enterPrecommit_body_def Let_def andThen_eq_Inr split: if_splits prod.splits option.splits)

lemma enterPrecommit_view:
  assumes "enterPrecommit N height round cs = Inr t" and "round \<le> Round cs"
  shows "if Height cs = height \<and> Round cs = round \<and> Step cs < RoundStepPrecommit
    then wait_view t = ((Height cs, Round cs, RoundStepPrecommit), TriggeredTimeoutPrecommit cs, tickChan cs)
    else t = cs"
proof (cases "Height cs = height \<and> Round cs = round \<and> Step cs < RoundStepPrecommit")
  case True
  then obtain u where u: "enterPrecommit_body N height round cs = Inr u"
    and t: "t = newStep (updateRoundStep round RoundStepPrecommit u)"
    using assms(1) by (auto simp: enterPrecommit_def andThen_eq_Inr dest: leD split: if_splits)
  have "wait_view u = wait_view cs" by (rule enterPrecommit_body_wait_view [OF u])
  then show ?thesis using t True by (simp add: wait_view_def pos_def machine_defs)
next
  case False
  then show ?thesis using assms by (auto simp: enterPrecommit_def not_less split: if_splits)
qed

lemma enterPrevote_waits:
  assumes "enterPrevote N height round cs = Inr t" and "round \<le> Round cs"
  shows "waits cs t"
  using enterPrevote_view [OF assms] waits_step [of t cs RoundStepPrevote] waits_refl
  by (auto split: if_splits)

lemma enterPrecommit_waits:
  assumes "enterPrecommit N height round cs = Inr t" and "round \<le> Round cs"
  shows "waits cs t"
  using enterPrecommit_view [OF assms] waits_step [of t cs RoundStepPrecommit] waits_refl
  by (auto split: if_splits)

lemma enterPrevoteWait_waits:
  assumes "enterPrevoteWait N height round cs = Inr t" and "round \<le> Round cs"
  shows "waits cs t"
proof (cases "Height cs = height \<and> Round cs = round \<and> Step cs < RoundStepPrevoteWait")
  case True
  then have t: "wait_view t = ((Height cs, Round cs, RoundStepPrevoteWait), TriggeredTimeoutPrecommit cs,
      tickChan cs @ [\<lparr>ti_Duration = cfg_Prevote N (cs_config cs) round, ti_Height = Height cs,
        ti_Round = Round cs, ti_Step = RoundStepPrevoteWait\<rparr>])"
    using assms(1) by (auto simp: enterPrevoteWait_def Let_def wait_view_def pos_def machine_defs split: if_splits)
  then show ?thesis
    using True less_trans [of "Step cs" RoundStepPrevoteWait RoundStepPrecommitWait]
    by (auto simp: wait_view_def pos_def waits_def moved_def waiting_def due_def round_fits_def less_eq_prod_def
        less_prod_def ti_key_def)
next
  case False
  then show ?thesis using assms by (auto simp: enterPrevoteWait_def not_less waits_refl split: if_splits)
qed

lemma enterPrecommitWait_waits:
  assumes "enterPrecommitWait N height round cs = Inr t" and "round \<le> Round cs"
    and "Round cs = round \<longrightarrow> Step cs \<noteq> RoundStepNewHeight"
  shows "waits cs t"
proof (cases "Height cs = height \<and> Round cs = round \<and> \<not> TriggeredTimeoutPrecommit cs")
  case True
  then have t: "wait_view t = ((Height cs, Round cs, Step cs), True,
      tickChan cs @ [\<lparr>ti_Duration = cfg_Precommit N (cs_config cs) round, ti_Height = Height cs,
        ti_Round = Round cs, ti_Step = RoundStepPrecommitWait\<rparr>])"
    using assms(1) by (auto simp: enterPrecommitWait_def Let_def wait_view_def pos_def machine_defs split: if_splits)
  then show ?thesis
    using True assms(3)
    by (auto simp: wait_view_def pos_def waits_def moved_def waiting_def due_def round_fits_def less_eq_prod_def
        less_prod_def ti_key_def not_less)
next
  case False
  then show ?thesis using assms by (auto simp: enterPrecommitWait_def not_less waits_refl split: if_splits)
qed

lemma defaultDecideProposal_wait_view: "defaultDecideProposal N h r cs = Inr t \<Longrightarrow> wait_view t = wait_view cs"
  by (auto simp: defaultDecideProposal_def Let_def andThen_eq_Inr case_prod_beta split: option.splits)

lemma enterPropose_body_wait_view:
  assumes "enterPropose_body N h r cs = Inr t"
  shows "\<exists>d. wait_view t = wait_view (scheduleTimeout d h r RoundStepPropose cs)"
proof -
  let ?s = "scheduleTimeout (cfg_Propose N (cs_config cs) r) h r RoundStepPropose cs"
  have "t = ?s \<or> defaultDecideProposal N h r ?s = Inr t"
    using assms by (auto simp: enterPropose_body_def Let_def andThen_eq_Inr split: option.splits if_splits)
  then show ?thesis using defaultDecideProposal_wait_view by blast
qed

lemma SafeAddInt32_one: "SafeAddInt32 r 1 = Inr n \<Longrightarrow> r \<le> 2147483646"
  by (auto simp: SafeAddInt32_def MaxInt32_def i32_def split: if_splits)

lemma enterNewRound_view:
  assumes "enterNewRound N height round cs = Inr t"
    and "Height cs = height" "Round cs < round \<or> (Round cs = round \<and> Step cs = RoundStepNewHeight)"
  shows "round \<le> 2147483646 \<and> (\<exists>u d. (t = u \<or> enterPrevote N height round u = Inr t)
    \<and> wait_view u = ((height, round, RoundStepPropose), False,
        tickChan cs @ [\<lparr>ti_Duration = d, ti_Height = height, ti_Round = round, ti_Step = RoundStepPropose\<rparr>]))"
proof -
  obtain n w where n: "SafeAddInt32 round 1 = Inr n" and p: "enterPropose N height round w = Inr t"
    and w: "wait_view w = ((height, round, RoundStepNewRound), False, tickChan cs)"
    using assms
    by (auto simp: enterNewRound_def Let_def andThen_eq_Inr CanonicalNow_def machine_defs wait_view_def pos_def
        split: if_splits)
  obtain x where x: "enterPropose_body N height round w = Inr x"
    and t: "(let v = newStep (updateRoundStep round RoundStepPropose x) in
        if isProposalComplete N v then enterPrevote N height (Round v) v else Inr v) = Inr t"
    using p w by (auto simp: enterPropose_def andThen_eq_Inr wait_view_def pos_def)
  let ?u = "newStep (updateRoundStep round RoundStepPropose x)"
  have "\<exists>d. wait_view ?u = ((height, round, RoundStepPropose), False,
        tickChan cs @ [\<lparr>ti_Duration = d, ti_Height = height, ti_Round = round, ti_Step = RoundStepPropose\<rparr>])"
    using enterPropose_body_wait_view [OF x] w by (auto simp: wait_view_def pos_def machine_defs)
  moreover have "t = ?u \<or> enterPrevote N height round ?u = Inr t"
    using t by (auto simp: machine_defs Let_def split: if_splits)
  ultimately show ?thesis using SafeAddInt32_one [OF n] by blast
qed

lemma enterNewRound_moved:
  assumes "enterNewRound N height round cs = Inr t" and "round_fits cs"
    and "Height cs = height" "Round cs < round \<or> (Round cs = round \<and> Step cs = RoundStepNewHeight)"
  shows "moved cs t \<and> waits cs t"
proof -
  obtain u d where le: "round \<le> 2147483646" and u: "t = u \<or> enterPrevote N height round u = Inr t"
    and v: "wait_view u = ((height, round, RoundStepPropose), False,
        tickChan cs @ [\<lparr>ti_Duration = d, ti_Height = height, ti_Round = round, ti_Step = RoundStepPropose\<rparr>])"
    using enterNewRound_view [OF assms(1,3,4)] by blast
  have m: "moved cs u" "waits cs u"
    using v assms(2-4) le
    by (auto simp: wait_view_def pos_def waits_def moved_def waiting_def due_def round_fits_def less_eq_prod_def
        less_prod_def ti_key_def)
  have "round \<le> Round u" using v by (simp add: wait_view_def pos_def)
  then have "waits u t" using u enterPrevote_waits waits_refl by blast
  moreover have "due cs \<le> due u" using m(2) by (simp add: waits_def)
  ultimately show ?thesis using moved_waits [OF m(1)] waits_trans [OF m(2)] by blast
qed

lemma enterNewRound_waits:
  assumes "enterNewRound N height round cs = Inr t" and "round_fits cs"
  shows "waits cs t"
proof (cases "Height cs \<noteq> height \<or> round < Round cs \<or> (Round cs = round \<and> Step cs \<noteq> RoundStepNewHeight)")
  case True
  then show ?thesis using assms(1) by (auto simp: enterNewRound_def waits_refl)
next
  case False
  then have "Height cs = height" "Round cs < round \<or> (Round cs = round \<and> Step cs = RoundStepNewHeight)" by auto
  from enterNewRound_moved [OF assms this] show ?thesis by blast
qed

text \<open>After \<open>enterNewRound\<close> the step NewHeight is over.\<close>

lemma enterNewRound_started:
  assumes "enterNewRound N (Height cs) round cs = Inr t" and "Round t = round"
  shows "Step t \<noteq> RoundStepNewHeight"
proof (cases "round < Round cs \<or> (Round cs = round \<and> Step cs \<noteq> RoundStepNewHeight)")
  case True
  then show ?thesis using assms by (auto simp: enterNewRound_def)
next
  case False
  then have "Round cs < round \<or> (Round cs = round \<and> Step cs = RoundStepNewHeight)" by auto
  from enterNewRound_view [OF assms(1) refl this] obtain u d where u: "t = u \<or> enterPrevote N (Height cs) round u = Inr t"
    and v: "wait_view u = ((Height cs, round, RoundStepPropose), False,
        tickChan cs @ [\<lparr>ti_Duration = d, ti_Height = Height cs, ti_Round = round, ti_Step = RoundStepPropose\<rparr>])"
    by blast
  have "round \<le> Round u" using v by (simp add: wait_view_def pos_def)
  then show ?thesis
    using u v enterPrevote_view [of N "Height cs" round u t] by (auto simp: wait_view_def pos_def split: if_splits)
qed

section \<open>Committing\<close>

text \<open>The state right after the chain has moved: the first step of the next height, with no timeout
  asked for yet. What follows asks for one.\<close>

definition next_start ::
  "('val, 'vs, 'hvs, 'blk, 'bs, 'pv) consensus_state
     \<Rightarrow> ('val, 'vs, 'hvs, 'blk, 'bs, 'pv) consensus_state \<Rightarrow> bool" where
  "next_start cs c \<longleftrightarrow> Height cs + 1 \<noteq> 0
     \<and> wait_view c = ((Height cs + 1, 0, RoundStepNewHeight), False, tickChan cs)"

lemma due_next_start: "next_start cs c \<Longrightarrow> due cs < due c"
  using word_less_Suc [of "Height cs"]
  by (simp add: next_start_def wait_view_def pos_def due_def less_prod_def)

lemma scheduleRound0_next:
  assumes "next_start cs c"
  shows "waits cs (scheduleRound0 N (GetRoundState c) c)"
  using assms due_next_start [OF assms] word_less_Suc [of "Height cs"]
  by (auto simp: scheduleRound0_def CanonicalNow_def machine_defs GetRoundState_def round_state.defs
      next_start_def wait_view_def pos_def waits_def moved_def waiting_def due_def round_fits_def ti_key_def)

lemma enterNewRound_next:
  assumes "next_start cs c" and "enterNewRound N (Height c) 0 c = Inr t"
  shows "waits cs t"
proof -
  have c: "Round c = 0" "Step c = RoundStepNewHeight" "round_fits c" "tickChan c = tickChan cs"
    using assms(1) by (auto simp: next_start_def wait_view_def pos_def round_fits_def)
  have "moved c t" "waits c t" using enterNewRound_moved [OF assms(2) c(3) refl] c by simp_all
  then show ?thesis using due_next_start [OF assms(1)] c(3,4) by (auto simp: waits_def moved_def)
qed

context consensus_node
begin

lemma updateToState_resets:
  assumes inv: "cs_inv cs" and st: "st_LastBlockHeight st' = Height cs" and e: "updateToState N st' cs = Inr t"
  shows "\<exists>l. t = updateToState_reset N st' (cs\<lparr>LastCommit := l\<rparr>)"
proof -
  have "Height cs = (if st_LastBlockHeight (chainState cs) = 0 then st_InitialHeight (chainState cs)
      else st_LastBlockHeight (chainState cs) + 1)" "Height cs \<noteq> 0"
    using inv unfolding cs_inv_def chain_ok_def next_height_eq by blast+
  then have "st_LastBlockHeight (chainState cs) < st_LastBlockHeight st'"
    using st word_less_Suc [of "st_LastBlockHeight (chainState cs)"] by (auto simp: word_gt_0 split: if_splits)
  then show ?thesis using e by (auto simp: updateToState_def andThen_eq_Inr split: if_splits)
qed

lemma updateToState_next:
  assumes inv: "cs_inv cs" and bound: "Height cs + 1 \<noteq> 0" and st: "st_LastBlockHeight st' = Height cs"
    and e: "updateToState N st' cs = Inr t"
  shows "next_start cs t"
proof -
  obtain l where t: "t = updateToState_reset N st' (cs\<lparr>LastCommit := l\<rparr>)"
    using updateToState_resets [OF inv st e] by blast
  have "TriggeredTimeoutPrecommit t = False" unfolding t by (simp add: updateToState_reset_def machine_defs Let_def)
  then show ?thesis
    using bound height_next [OF inv bound st]
    by (simp add: next_start_def wait_view_def pos_def t updateToState_reset_fields)
qed

lemma applyBlock_waits:
  assumes inv: "cs_inv cs" and bound: "Height cs + 1 \<noteq> 0"
    and valid: "be_ValidateBlock N (chainState cs) block = Inr None"
    and e: "applyBlock N block after cs = Inr t"
    and after: "\<And>c. next_start cs c \<Longrightarrow> after c = Inr t \<Longrightarrow> waits cs t"
  shows "waits cs t"
proof -
  obtain r where r: "be_ApplyBlock N (ChainState_Copy N (chainState cs)) block = Inr r"
    using e by (auto simp: applyBlock_def andThen_eq_Inr)
  show ?thesis
  proof (cases r)
    case (Inl err)
    then show ?thesis using e r by (auto simp: applyBlock_def intro: waits_refl)
  next
    case (Inr st')
    then obtain u where u: "updateToState N st' cs = Inr u"
      "after (snd (updatePrivValidatorPubKey N u)) = Inr t"
      using e r by (auto simp: applyBlock_def andThen_eq_Inr)
    have "st_LastBlockHeight st' = Height cs"
      using executor.exec_height [OF r [unfolded Inr]] validate_height [OF inv valid] by simp
    then have "next_start cs u" by (rule updateToState_next [OF inv bound _ u(1)])
    then have "next_start cs (snd (updatePrivValidatorPubKey N u))" by (simp add: next_start_def)
    then show ?thesis using u(2) by (rule after)
  qed
qed

lemma saveBlock_wait_view: "saveBlock N block seen cs = Inr t \<Longrightarrow> wait_view t = wait_view cs"
  by (auto simp: saveBlock_def andThen_eq_Inr split: if_splits)

lemma finalizeCommit_waits:
  assumes inv: "cs_inv cs" and bound: "Height cs + 1 \<noteq> 0" and e: "finalizeCommit N height cs = Inr t"
  shows "waits cs t"
  using finalizeCommit_cases [OF e]
proof (elim disjE exE conjE)
  fix block u
  assume v: "be_ValidateBlock N (chainState cs) block = Inr None"
    and u: "saveBlock N block (vs_MakeCommit N (hvs_Precommits N (Votes cs) (CommitRound cs))) cs = Inr u"
    and a: "applyBlock N block (\<lambda>cs. Inr (scheduleRound0 N (GetRoundState cs) cs)) u = Inr t"
  have "core u = core cs" by (rule saveBlock_core [OF u])
  then have i: "cs_inv u" "Height u = Height cs" "chainState u = chainState cs"
    using core_inv inv by (auto simp: core_def pos_def)
  have "waits u t"
    by (rule applyBlock_waits [OF i(1) _ _ a]) (use i v bound scheduleRound0_next in auto)
  then show ?thesis using wait_view_eq(1) [OF saveBlock_wait_view [OF u]] by blast
qed (simp add: waits_refl)

lemma tryFinalizeCommit_waits:
  "cs_inv cs \<Longrightarrow> Height cs + 1 \<noteq> 0 \<Longrightarrow> tryFinalizeCommit N height cs = Inr t \<Longrightarrow> waits cs t"
  by (auto simp: tryFinalizeCommit_def Let_def waits_refl finalizeCommit_waits split: prod.splits if_splits)

lemma enterCommit_waits:
  assumes inv: "cs_inv cs" and bound: "Height cs + 1 \<noteq> 0"
    and e: "enterCommit N height commitRound cs = Inr t"
  shows "waits cs t"
  using enterCommit_cases [OF e]
proof (elim disjE exE conjE)
  fix u now w
  assume u: "enterCommit_body N commitRound cs = Inr u"
    and w: "CanonicalNow N ((updateRoundStep (Round u) RoundStepCommit u)\<lparr>CommitRound := commitRound\<rparr>) = (now, w)"
    and t: "tryFinalizeCommit N height (newStep (w\<lparr>CommitTime := now\<rparr>)) = Inr t"
    and step: "Step cs < RoundStepCommit"
  let ?v = "newStep (w\<lparr>CommitTime := now\<rparr>)"
  have uv: "wait_view u = wait_view cs"
    using u by (auto simp: enterCommit_body_def Let_def split: prod.splits if_splits)
  have "wait_view ?v = ((Height cs, Round cs, RoundStepCommit), TriggeredTimeoutPrecommit cs, tickChan cs)"
    using uv w by (auto simp: wait_view_def pos_def machine_defs CanonicalNow_def)
  from waits_step [OF this step] have "waits cs ?v" by simp
  moreover have "stays cs ?v" by (rule enterCommit_state [OF inv u w])
  then have "waits ?v t" using bound by (intro tryFinalizeCommit_waits [OF _ _ t]) (simp_all add: stays_def)
  ultimately show ?thesis by (rule waits_trans)
qed (simp add: waits_refl)

lemma processCommitedBlock_waits:
  assumes inv: "cs_inv cs" and bound: "Height cs + 1 \<noteq> 0"
    and e: "processCommitedBlock N block cs = Inr t"
  shows "waits cs t"
  using processCommitedBlock_cases [OF e]
proof (elim disjE exE conjE)
  fix lc u
  assume h: "be_ValidateBlock N (chainState cs) block = Inr None"
    and u: "saveBlock N block (Inr (blk_Commit N block)) (fast_path_state N lc cs) = Inr u"
    and a: "applyBlock N block (fast_path_after N) u = Inr t"
  have v: "wait_view u = ((Height cs, Round cs, RoundStepCommit), TriggeredTimeoutPrecommit cs, tickChan cs)"
    using saveBlock_wait_view [OF u] by (simp add: CanonicalNow_def wait_view_def pos_def machine_defs)
  have "waits cs u"
  proof (cases "Step cs = RoundStepCommit")
    case True
    then show ?thesis using v by (intro same_view_waits) (simp add: wait_view_def pos_def)
  next
    case False
    then have "Step cs < RoundStepCommit" using inv by (simp add: cs_inv_def step_ok_def order_less_le)
    then show ?thesis using waits_step [OF v] by simp
  qed
  moreover have su: "stays cs u" by (rule fast_path_saved [OF inv u])
  have "waits u t"
  proof (rule applyBlock_waits [OF stays_inv [OF su] _ _ a])
    show "waits u t" if "next_start u c" "fast_path_after N c = Inr t" for c
      using that enterNewRound_next [OF that(1)] scheduleRound0_next [OF that(1)] by (auto split: if_splits)
  qed (use su h bound in \<open>auto simp: stays_def\<close>)
  ultimately show ?thesis by (rule waits_trans)
qed (simp add: waits_refl)

section \<open>Proposals, votes and timeouts\<close>

lemma setProposal_step_waits:
  assumes "cs_inv cs" and "Height cs + 1 \<noteq> 0" and "setProposal_step N b cs = Inr t"
  shows "waits cs t"
  using setProposal_step_cases [OF assms(3)] tryFinalizeCommit_waits [OF assms(1,2)] waits_refl
    enterPrevote_waits [OF _ order_refl] enterPrecommit_waits [OF _ order_refl] waits_trans by blast

lemma defaultSetProposal_waits:
  assumes inv: "cs_inv cs" and bound: "Height cs + 1 \<noteq> 0" and e: "defaultSetProposal N proposal cs = Inr (r, t)"
  shows "waits cs t"
  using defaultSetProposal_cases [OF e]
proof (elim disjE exE)
  fix b h
  let ?c = "cs\<lparr>Proposal := Some proposal, ProposalBlock := p_Block proposal\<rparr>"
  let ?u = "setProposal_valid N h b ?c"
  assume st: "setProposal_step N b ?u = Inr t"
  have c: "core ?u = core cs"
    using setProposal_valid_core [of N h b ?c] by (simp add: core_def pos_def)
  have v: "wait_view ?u = wait_view cs" by (simp add: setProposal_valid_def wait_view_def pos_def)
  have "waits ?u t"
    using core_inv [OF c] inv bound c by (intro setProposal_step_waits [OF _ _ st]) (simp_all add: core_def pos_def)
  then show ?thesis using wait_view_eq(1) [OF v] by blast
qed (simp add: waits_refl)

lemma addVote_prevote_waits:
  assumes fits: "round_fits cs" and e: "addVote_prevote N height vote cs = Inr t"
  shows "waits cs t"
proof -
  obtain h ok where maj: "vs_TwoThirdsMajority N (hvs_Prevotes N (Votes cs) (v_Round vote)) = (h, ok)" by fastforce
  define u where "u = (if ok then addVote_polka N vote h cs else cs)"
  have uv: "wait_view u = wait_view cs" by (simp add: u_def addVote_polka_def Let_def wait_view_def pos_def)
  then have r: "round_fits u" using fits by (simp add: wait_view_def pos_def round_fits_def)
  have "waits u t"
    using addVote_prevote_cases [OF e maj u_def]
  proof (elim disjE conjE)
    show "waits u t" if "enterNewRound N height (v_Round vote) u = Inr t" by (rule enterNewRound_waits [OF that r])
    show "waits u t" if "Round u = v_Round vote" "enterPrecommit N height (v_Round vote) u = Inr t"
      using that by (intro enterPrecommit_waits [OF that(2)]) simp
    show "waits u t" if "Round u = v_Round vote" "enterPrevoteWait N height (v_Round vote) u = Inr t"
      using that by (intro enterPrevoteWait_waits [OF that(2)]) simp
    show "waits u t" if "enterPrevote N height (Round u) u = Inr t" by (rule enterPrevote_waits [OF that order_refl])
  qed (simp add: waits_refl)
  then show ?thesis using wait_view_eq(1) [OF uv] by blast
qed

lemma addVote_precommit_waits:
  assumes inv: "cs_inv cs" and new: "new_proposal_ok N" and fits: "round_fits cs" and bound: "Height cs + 1 \<noteq> 0"
    and e: "addVote_precommit N (Height cs) vote cs = Inr t"
  shows "waits cs t"
proof -
  have round: "waits cs u \<and> v_Round vote \<le> Round u" if "enterNewRound N (Height cs) (v_Round vote) cs = Inr u" for u
    using enterNewRound_waits [OF that fits] precommit_round [OF inv new that] by blast
  have entered: "waits cs w" if "enterNewRound N (Height cs) (v_Round vote) cs = Inr u"
      "enterPrecommit N (Height cs) (v_Round vote) u = Inr w" for u w
    using round [OF that(1)] enterPrecommit_waits [OF that(2)] waits_trans by blast
  show ?thesis
    using e
  proof (cases rule: addVote_precommit_cases)
    case none
    then show ?thesis by (simp add: waits_refl)
  next
    case (commit u w x)
    have w: "stays cs w" using precommit_entered [OF inv new commit(1,2)] by blast
    then have "waits w x"
      using bound by (intro enterCommit_waits [OF stays_inv [OF w] _ commit(3)]) (simp add: stays_def)
    then have x: "waits cs x" using entered [OF commit(1,2)] waits_trans by blast
    then have "round_fits x" using fits by (simp add: waits_def)
    then have "waits x t" using commit(4) enterNewRound_waits waits_refl by blast
    with x show ?thesis by (rule waits_trans)
  next
    case (nil u w)
    have "Step w \<noteq> RoundStepNewHeight" if "Round w = v_Round vote"
    proof -
      have u: "v_Round vote \<le> Round u" using round [OF nil(1)] by blast
      have "Round w = Round u \<and> (Step w = Step u \<or> Step w = RoundStepPrecommit)"
        using enterPrecommit_view [OF nil(2) u] by (auto simp: wait_view_def pos_def split: if_splits)
      then show ?thesis using enterNewRound_started [OF nil(1)] that by auto
    qed
    then have "waits w t"
      using precommit_entered [OF inv new nil(1,2)] by (intro enterPrecommitWait_waits [OF nil(3)]) auto
    then show ?thesis using entered [OF nil(1,2)] waits_trans by blast
  next
    case (wait u)
    have "waits u t"
      using round [OF wait(1)] enterNewRound_started [OF wait(1)]
      by (intro enterPrecommitWait_waits [OF wait(2)]) auto
    then show ?thesis using round [OF wait(1)] waits_trans by blast
  qed
qed

lemma addVote_waits:
  assumes inv: "cs_inv cs" and new: "new_proposal_ok N" and fits: "round_fits cs" and bound: "Height cs + 1 \<noteq> 0"
    and e: "addVote N vote peer cs = Inr (r, t)"
  shows "waits cs t"
  using e
proof (cases rule: addVote_cases)
  case late
  have "waits cs t" if "enterNewRound N (Height cs) 0 (cs\<lparr>LastCommit := l\<rparr>) = Inr t" for l
  proof -
    have "waits (cs\<lparr>LastCommit := l\<rparr>) t" using fits by (intro enterNewRound_waits [OF that]) (simp add: round_fits_def)
    then show ?thesis by (simp add: wait_view_eq(1) [of "cs\<lparr>LastCommit := l\<rparr>" cs])
  qed
  then show ?thesis using addVote_late_cases [OF late] same_view_waits waits_refl by (auto intro: same_view_waits)
next
  case (added x vs)
  let ?u = "cs\<lparr>Votes := vs\<rparr>"
  have "core ?u = core cs" by (simp add: core_def pos_def)
  from core_inv [OF this] have i: "cs_inv ?u" using inv by blast
  have f: "round_fits ?u" using fits by (simp add: round_fits_def)
  have "waits ?u t" if "addVote_precommit N (Height cs) vote ?u = Inr t"
    using that bound by (intro addVote_precommit_waits [OF i new f]) simp_all
  then have "waits ?u t" using added(3) addVote_prevote_waits [OF f] waits_refl by blast
  then show ?thesis by (simp add: wait_view_eq(1) [of ?u cs])
qed (simp add: waits_refl)

lemma handleMsg_waits:
  assumes inv: "cs_inv cs" and new: "new_proposal_ok N" and fits: "round_fits cs" and bound: "Height cs + 1 \<noteq> 0"
    and e: "handleMsg N mi cs = Inr t"
  shows "waits cs t"
proof -
  have relay: "waits cs t" if "waits cs u" "t = u \<or> t = broadcastMessageToPeers m u" for m u
    using that wait_view_eq(2) [of "broadcastMessageToPeers m u" u] by auto
  show ?thesis
    using e by (cases rule: handleMsg_cases)
      (use defaultSetProposal_waits [OF inv bound] addVote_waits [OF inv new fits bound] relay waits_refl in blast)+
qed

text \<open>The timeout a node waits for moves it on.\<close>

lemma handleTimeout_moved:
  assumes ok: "tick_ok (pos cs) ti" and wait: "waiting cs" and key: "ti_key ti = due cs" and fits: "round_fits cs"
    and inv: "cs_inv cs" and e: "handleTimeout N ti (GetRoundState cs) cs = Inr t"
  shows "moved cs t"
proof -
  have st: "ti_Step ti \<in> {RoundStepNewHeight, RoundStepPropose, RoundStepPrevoteWait, RoundStepPrecommitWait}"
    using ok by (simp add: tick_ok_def)
  have r: "ti_Round ti = Round cs" using key by (simp add: ti_key_def due_def)
  have step: "if TriggeredTimeoutPrecommit cs then ti_Step ti = RoundStepPrecommitWait else ti_Step ti = Step cs"
    "Step cs < RoundStepPrecommitWait"
    using key wait by (auto simp: ti_key_def due_def waiting_def)
  show ?thesis
    using e st
  proof (cases rule: handleTimeout_cases)
    case late
    then show ?thesis using r step key by (auto simp: ti_key_def due_def split: if_splits)
  next
    case newHeight
    then have "Step cs = RoundStepNewHeight" using step by (auto split: if_splits)
    then show ?thesis
      using enterNewRound_moved [OF newHeight(3) fits] newHeight(1) fits by (simp add: round_fits_def)
  next
    case propose
    then have c: "Step cs = RoundStepPropose" "\<not> TriggeredTimeoutPrecommit cs" using step by (auto split: if_splits)
    then show ?thesis
      using enterPrevote_view [OF propose(3)] propose(1) r waits_step [of t cs RoundStepPrevote] by simp
  next
    case prevoteWait
    then have c: "Step cs = RoundStepPrevoteWait" "\<not> TriggeredTimeoutPrecommit cs" using step by (auto split: if_splits)
    then show ?thesis
      using enterPrecommit_view [OF prevoteWait(3)] prevoteWait(1) r waits_step [of t cs RoundStepPrecommit] by simp
  next
    case (precommitWait u)
    have u: "waits cs u" using enterPrecommit_waits [OF precommitWait(3)] r by simp
    have f: "round_fits u" using u fits by (simp add: waits_def)
    have v: "Round u = Round cs" "Height u = Height cs"
      using enterPrecommit_view [OF precommitWait(3)] r by (auto simp: wait_view_def pos_def split: if_splits)
    have "i32 (ti_Round ti + 1) = Round cs + 1"
      using r fits inv by (simp add: round_fits_def is_i32_def cs_inv_def step_ok_def)
    then have "moved u t"
      using enterNewRound_moved [OF precommitWait(4) f] precommitWait(1) v by simp
    with u show ?thesis by (rule waits_moved)
  qed
qed

lemma enterNewRound_height: "enterNewRound N (Height cs) round cs = Inr t \<Longrightarrow> Height t = Height cs"
proof (cases "round < Round cs \<or> (Round cs = round \<and> Step cs \<noteq> RoundStepNewHeight)")
  case False
  assume e: "enterNewRound N (Height cs) round cs = Inr t"
  obtain u d where u: "t = u \<or> enterPrevote N (Height cs) round u = Inr t"
    and v: "wait_view u = ((Height cs, round, RoundStepPropose), False,
        tickChan cs @ [\<lparr>ti_Duration = d, ti_Height = Height cs, ti_Round = round, ti_Step = RoundStepPropose\<rparr>])"
    using enterNewRound_view [OF e refl] False by force
  then show ?thesis
    using enterPrevote_view [of N "Height cs" round u t] by (auto simp: wait_view_def pos_def split: if_splits)
qed (auto simp: enterNewRound_def)

text \<open>And further on than it was.\<close>

lemma enterNewRound_later:
  assumes "enterNewRound N (Height cs) round cs = Inr t"
    and "Round cs < round \<or> (Round cs = round \<and> Step cs = RoundStepNewHeight)"
  shows "pos cs < pos t"
proof -
  obtain u d where u: "t = u \<or> enterPrevote N (Height cs) round u = Inr t"
    and v: "wait_view u = ((Height cs, round, RoundStepPropose), False,
        tickChan cs @ [\<lparr>ti_Duration = d, ti_Height = Height cs, ti_Round = round, ti_Step = RoundStepPropose\<rparr>])"
    using enterNewRound_view [OF assms(1) refl assms(2)] by blast
  have p: "pos u = (Height cs, round, RoundStepPropose)" using v by (simp add: wait_view_def)
  have "pos t = pos u \<or> pos t = (Height cs, round, RoundStepPrevote)"
    using u enterPrevote_view [of N "Height cs" round u t] p by (auto simp: wait_view_def pos_def split: if_splits)
  then show ?thesis using p assms(2) by (auto simp: pos_def less_prod_def)
qed

lemma handleTimeout_later:
  assumes ok: "tick_ok (pos cs) ti" and wait: "waiting cs" and key: "ti_key ti = due cs" and fits: "round_fits cs"
    and inv: "cs_inv cs" and e: "handleTimeout N ti (GetRoundState cs) cs = Inr t"
  shows "Height t = Height cs \<and> pos cs < pos t"
proof -
  have st: "ti_Step ti \<in> {RoundStepNewHeight, RoundStepPropose, RoundStepPrevoteWait, RoundStepPrecommitWait}"
    using ok by (simp add: tick_ok_def)
  have r: "ti_Round ti = Round cs" using key by (simp add: ti_key_def due_def)
  have step: "if TriggeredTimeoutPrecommit cs then ti_Step ti = RoundStepPrecommitWait else ti_Step ti = Step cs"
    "Step cs < RoundStepPrecommitWait"
    using key wait by (auto simp: ti_key_def due_def waiting_def)
  have later: "Height c' = Height c \<and> pos c < pos c'"
    if "wait_view c' = ((Height c, Round c, s), x, y)" "Step c < s" for c c' :: "('val, 'vs, 'hvs, 'blk, 'bs, 'pv) consensus_state" and s x y
    using that by (simp add: wait_view_def pos_def less_prod_def)
  show ?thesis
    using e st
  proof (cases rule: handleTimeout_cases)
    case late
    then show ?thesis using r step key by (auto simp: ti_key_def due_def split: if_splits)
  next
    case newHeight
    then have "Step cs = RoundStepNewHeight" using step by (auto split: if_splits)
    then show ?thesis
      using enterNewRound_later [of cs 0 t] enterNewRound_height [of cs 0 t] newHeight fits
      by (simp add: round_fits_def)
  next
    case propose
    then have c: "Step cs = RoundStepPropose" using step by (auto split: if_splits)
    then show ?thesis using enterPrevote_view [OF propose(3)] propose(1) r later [of t cs] by simp
  next
    case prevoteWait
    then have c: "Step cs = RoundStepPrevoteWait" using step by (auto split: if_splits)
    then show ?thesis using enterPrecommit_view [OF prevoteWait(3)] prevoteWait(1) r later [of t cs] by simp
  next
    case (precommitWait u)
    have v: "Round u = Round cs" "Height u = Height cs"
      using enterPrecommit_view [OF precommitWait(3)] r by (auto simp: wait_view_def pos_def split: if_splits)
    have "i32 (ti_Round ti + 1) = Round cs + 1"
      using r fits inv by (simp add: round_fits_def is_i32_def cs_inv_def step_ok_def)
    then have e: "enterNewRound N (Height u) (Round u + 1) u = Inr t" using precommitWait(1,4) v by simp
    have "pos cs \<le> pos u"
      using enterPrecommit_view [OF precommitWait(3)] r
      by (auto simp: wait_view_def pos_def less_eq_prod_def split: if_splits)
    also have "pos u < pos t" using enterNewRound_later [OF e] by simp
    finally have "pos cs < pos t" .
    then show ?thesis using enterNewRound_height [OF e] v by simp
  qed
qed

lemma handleTimeout_waits:
  assumes ok: "tick_ok (pos cs) ti" and fits: "round_fits cs"
    and e: "handleTimeout N ti (GetRoundState cs) cs = Inr t"
  shows "waits cs t"
proof -
  have st: "ti_Step ti \<in> {RoundStepNewHeight, RoundStepPropose, RoundStepPrevoteWait, RoundStepPrecommitWait}"
    using ok by (simp add: tick_ok_def)
  have r: "ti_Round ti \<le> Round cs" if "ti_Height ti = Height cs" using ok that by (auto simp: tick_ok_def pos_def)
  show ?thesis
    using e st
  proof (cases rule: handleTimeout_cases)
    case (precommitWait u)
    then have u: "waits cs u" using enterPrecommit_waits r by blast
    then have "round_fits u" using fits by (simp add: waits_def)
    then have "waits u t" by (rule enterNewRound_waits [OF precommitWait(4)])
    with u show ?thesis by (rule waits_trans)
  qed (use r waits_refl enterNewRound_waits [OF _ fits] enterPrevote_waits enterPrecommit_waits in blast)+
qed

end

section \<open>The state machine with its ticker\<close>

text \<open>The ticker will deliver a timeout of the position \<open>k\<close>.\<close>

definition ticker_carries :: "timeout_ticker \<Rightarrow> u64 \<times> int \<times> round_step \<Rightarrow> bool" where
  "ticker_carries t k \<longleftrightarrow> (tt_armed t \<and> ti_key (tt_ti t) = k) \<or> k \<in> ti_key ` set (tt_tockChan t)"

definition not_after :: "('val, 'vs, 'hvs, 'blk, 'bs, 'pv) system \<Rightarrow> bool" where
  "not_after s \<longleftrightarrow>
     (\<forall>ti\<in>set (tickChan (sys_cs s)) \<union> {tt_ti (sys_ticker s)} \<union> set (tt_tockChan (sys_ticker s)).
        ti_key ti \<le> due (sys_cs s))"

definition on_its_way :: "('val, 'vs, 'hvs, 'blk, 'bs, 'pv) system \<Rightarrow> bool" where
  "on_its_way s \<longleftrightarrow>
     (due (sys_cs s) \<in> ti_key ` set (tickChan (sys_cs s)) \<or> ticker_carries (sys_ticker s) (due (sys_cs s)))
     \<and> (ti_key (tt_ti (sys_ticker s)) = due (sys_cs s) \<longrightarrow> ticker_carries (sys_ticker s) (due (sys_cs s)))"

definition timeouts_inv :: "('val, 'vs, 'hvs, 'blk, 'bs, 'pv) system \<Rightarrow> bool" where
  "timeouts_inv s \<longleftrightarrow> round_fits (sys_cs s) \<and> not_after s \<and> (waiting (sys_cs s) \<longrightarrow> on_its_way s)"

lemma timeouts_waits:
  assumes "timeouts_inv s" and "waits (sys_cs s) cs"
  shows "timeouts_inv (s\<lparr>sys_cs := cs\<rparr>)"
proof -
  have le: "due (sys_cs s) \<le> due cs" using assms(2) by (simp add: waits_def)
  have old: "ti_key ti \<le> due cs"
    if "ti \<in> set (tickChan (sys_cs s)) \<union> {tt_ti (sys_ticker s)} \<union> set (tt_tockChan (sys_ticker s))" for ti
    using assms(1) that le unfolding timeouts_inv_def not_after_def by (meson order_trans)
  have "not_after (s\<lparr>sys_cs := cs\<rparr>)"
    using old assms(2) by (auto simp: not_after_def waits_def)
  moreover have "on_its_way (s\<lparr>sys_cs := cs\<rparr>)" if "waiting cs"
  proof (cases "moved (sys_cs s) cs")
    case True
    then have m: "due (sys_cs s) < due cs" "due cs \<in> ti_key ` set (tickChan cs)"
      using that by (simp_all add: moved_def)
    have "ti_key (tt_ti (sys_ticker s)) \<le> due (sys_cs s)" using assms(1) by (simp add: timeouts_inv_def not_after_def)
    with m show ?thesis by (auto simp: on_its_way_def)
  next
    case False
    then have "waiting (sys_cs s)" "due cs = due (sys_cs s)" "set (tickChan (sys_cs s)) \<subseteq> set (tickChan cs)"
      using assms(2) by (auto simp: waits_def)
    then show ?thesis using assms(1) by (auto simp: timeouts_inv_def on_its_way_def)
  qed
  ultimately show ?thesis using assms by (simp add: timeouts_inv_def waits_def)
qed

lemma timeouts_frame:
  assumes "timeouts_inv s" and "wait_view cs = wait_view (sys_cs s)"
  shows "timeouts_inv (s\<lparr>sys_cs := cs\<rparr>)"
  by (rule timeouts_waits [OF assms(1) same_view_waits [OF assms(2)]])

lemma timeouts_tick:
  assumes inv: "timeouts_inv s" and q: "tickChan (sys_cs s) = ti # tis" and step: "0 < ti_Step ti"
  shows "timeouts_inv (s\<lparr>sys_cs := (sys_cs s)\<lparr>tickChan := tis\<rparr>, sys_ticker := ticker_tick ti (sys_ticker s)\<rparr>)"
proof -
  let ?cs = "(sys_cs s)\<lparr>tickChan := tis\<rparr>" and ?t = "sys_ticker s"
  have d: "due ?cs = due (sys_cs s)" "waiting ?cs = waiting (sys_cs s)" "round_fits ?cs = round_fits (sys_cs s)"
    by (simp_all add: due_def waiting_def round_fits_def)
  show ?thesis
  proof (cases "tick_ignored (tt_ti ?t) ti")
    case True
    then have "ti_key ti \<le> ti_key (tt_ti ?t)" using step by (simp add: tick_ignored_iff split: if_splits)
    moreover have "ti_key (tt_ti ?t) \<le> due (sys_cs s)" using inv by (simp add: timeouts_inv_def not_after_def)
    ultimately have "ti_key (tt_ti ?t) = due (sys_cs s)" if "ti_key ti = due (sys_cs s)" using that by simp
    then show ?thesis
      using inv True q d by (auto simp: timeouts_inv_def not_after_def on_its_way_def ticker_tick_def)
  next
    case False
    have lt: "ti_key (tt_ti ?t) < ti_key ti" by (rule tick_accepted_later [OF False step])
    have le: "ti_key ti \<le> due (sys_cs s)" using inv q by (simp add: timeouts_inv_def not_after_def)
    have n: "tt_ti (ticker_tick ti ?t) = ti" "tt_armed (ticker_tick ti ?t)"
      "tt_tockChan (ticker_tick ti ?t) = tt_tockChan ?t"
      using False by (simp_all add: ticker_tick_def ticker_stopTimer_def)
    show ?thesis
      using inv q d n lt le by (auto simp: timeouts_inv_def not_after_def on_its_way_def ticker_carries_def)
  qed
qed

lemma timeouts_fire:
  assumes "timeouts_inv s"
  shows "timeouts_inv (s\<lparr>sys_ticker := ticker_fire (sys_ticker s)\<rparr>)"
  using assms
  by (auto simp: timeouts_inv_def not_after_def on_its_way_def ticker_carries_def ticker_fire_def)

text \<open>A timeout is received: if it is the awaited one, the node has moved on.\<close>

lemma timeouts_tock:
  assumes inv: "timeouts_inv s" and w: "waits (sys_cs s) cs"
    and q: "set (tt_tockChan (sys_ticker s)) = insert ti (set tis)"
    and m: "waiting (sys_cs s) \<Longrightarrow> ti_key ti = due (sys_cs s) \<Longrightarrow> moved (sys_cs s) cs"
  shows "timeouts_inv (s\<lparr>sys_cs := cs, sys_ticker := (sys_ticker s)\<lparr>tt_tockChan := tis\<rparr>\<rparr>)"
proof -
  let ?u = "s\<lparr>sys_cs := cs\<rparr>"
  let ?v = "s\<lparr>sys_cs := cs, sys_ticker := (sys_ticker s)\<lparr>tt_tockChan := tis\<rparr>\<rparr>"
  have u: "timeouts_inv ?u" by (rule timeouts_waits [OF inv w])
  have "on_its_way ?v" if c: "waiting cs"
  proof (cases "moved (sys_cs s) cs")
    case True
    then have "due (sys_cs s) < due cs" "due cs \<in> ti_key ` set (tickChan cs)" using c by (simp_all add: moved_def)
    moreover have "ti_key (tt_ti (sys_ticker s)) \<le> due (sys_cs s)"
      using inv by (simp add: timeouts_inv_def not_after_def)
    ultimately show ?thesis by (auto simp: on_its_way_def)
  next
    case False
    then have "ti_key ti \<noteq> due cs" using w m by (auto simp: waits_def)
    then show ?thesis using u c q by (auto simp: timeouts_inv_def on_its_way_def ticker_carries_def)
  qed
  then show ?thesis using u q by (simp add: timeouts_inv_def not_after_def)
qed

lemma take_nth_insert: "take_nth k xs = Some (x, ys) \<Longrightarrow> set xs = insert x (set ys)"
  by (metis Un_insert_right id_take_nth_drop list.simps(15) option.distinct(1) option.inject prod.inject
      set_append take_nth_def)

context consensus_node
begin

lemma receive_event_timeouts:
  assumes inv: "system_inv s" and tinv: "timeouts_inv s" and new: "new_proposal_ok N"
    and bound: "Height (sys_cs s) + 1 \<noteq> 0" and e: "receive_event N ev s = Inr t"
  shows "timeouts_inv t"
proof -
  have cs: "cs_inv (sys_cs s)" and fits: "round_fits (sys_cs s)"
    using inv tinv by (simp_all add: system_inv_def timeouts_inv_def)
  show ?thesis
  proof (cases ev)
    case (PeerMsg mi)
    then obtain u where "handleMsg N mi (sys_cs s) = Inr u" "t = s\<lparr>sys_cs := u\<rparr>"
      using e by (auto simp: andThen_eq_Inr)
    then show ?thesis using handleMsg_waits [OF cs new fits bound] timeouts_waits [OF tinv] by blast
  next
    case InternalMsg
    show ?thesis
    proof (cases "internalMsgQueue (sys_cs s)")
      case (Cons mi mis)
      let ?c = "(sys_cs s)\<lparr>internalMsgQueue := mis\<rparr>"
      have c: "core ?c = core (sys_cs s)" by (simp add: core_def pos_def)
      have v: "wait_view ?c = wait_view (sys_cs s)" by (simp add: wait_view_def pos_def)
      obtain u where u: "handleMsg N mi ?c = Inr u" "t = s\<lparr>sys_cs := u\<rparr>"
        using e InternalMsg Cons by (auto simp: andThen_eq_Inr)
      have "waits ?c u"
        using core_inv [OF c] cs fits bound by (intro handleMsg_waits [OF _ new _ _ u(1)]) (simp_all add: round_fits_def)
      then show ?thesis using wait_view_eq(1) [OF v] timeouts_waits [OF tinv] u(2) by blast
    qed (use e InternalMsg tinv in simp)
  next
    case (OverflowSend k)
    then show ?thesis
      using e tinv
      by (auto split: option.splits if_splits intro!: timeouts_frame) (simp add: wait_view_def pos_def)
  next
    case TickerTick
    show ?thesis
    proof (cases "tickChan (sys_cs s)")
      case (Cons ti tis)
      then have "0 < ti_Step ti" using cs by (auto simp: cs_inv_def ticks_ok_def tick_ok_def)
      from timeouts_tick [OF tinv Cons this] show ?thesis using e TickerTick Cons by simp
    qed (use e TickerTick tinv in simp)
  next
    case TickerFire
    then show ?thesis using e timeouts_fire [OF tinv] by simp
  next
    case (Tock k)
    show ?thesis
    proof (cases "take_nth k (tt_tockChan (sys_ticker s))")
      case (Some p)
      obtain ti tis where p: "p = (ti, tis)" by fastforce
      obtain u where u: "handleTimeout N ti (GetRoundState (sys_cs s)) (sys_cs s) = Inr u"
        and t: "t = s\<lparr>sys_cs := u, sys_ticker := (sys_ticker s)\<lparr>tt_tockChan := tis\<rparr>\<rparr>"
        using e Tock Some p by (auto simp: andThen_eq_Inr)
      note q = take_nth_insert [OF Some [unfolded p]]
      have ok: "tick_ok (pos (sys_cs s)) ti" using inv q by (auto simp: system_inv_def ticker_held_def)
      show ?thesis
        unfolding t
        by (rule timeouts_tock [OF tinv handleTimeout_waits [OF ok fits u] q])
          (rule handleTimeout_moved [OF ok _ _ fits cs u])
    qed (use e Tock tinv in simp)
  next
    case SyncTimer
    then show ?thesis using e tinv by (auto simp: andThen_eq_Inr intro!: timeouts_frame)
  next
    case (SyncRequest req)
    then obtain rs where "t = s\<lparr>sys_responses := rs\<rparr>" using e by (auto simp: andThen_eq_Inr)
    then show ?thesis using tinv by (simp add: timeouts_inv_def not_after_def on_its_way_def)
  next
    case (CommittedBlock block)
    then obtain u where "processCommitedBlock N block (sys_cs s) = Inr u" "t = s\<lparr>sys_cs := u\<rparr>"
      using e by (auto simp: andThen_eq_Inr)
    then show ?thesis using processCommitedBlock_waits [OF cs bound] timeouts_waits [OF tinv] by blast
  qed
qed

lemma start_node_timeouts:
  assumes "start_node N cfg state store pv = Inr (None, s)"
  shows "timeouts_inv s"
proof -
  obtain cs u where cs: "NewConsensusState N cfg state store = Inr cs"
    and u: "u = SetPrivValidator N pv cs" "sys_cs s = scheduleRound0 N (GetRoundState u) u"
    and t: "sys_ticker s = NewTimeoutTicker"
    using assms
    by (auto simp: start_node_def ConsensusState_OnStart_def andThen_eq_Inr split: option.splits)
  obtain lc where r: "cs = updateToState_reset N state ((zero_consensus_state cfg store)\<lparr>LastCommit := lc\<rparr>)"
    using NewConsensusState_reset [OF cs] by blast
  have "\<not> TriggeredTimeoutPrecommit u"
    unfolding u(1) r
    by (simp add: SetPrivValidator_def updatePrivValidatorPubKey_def updateToState_reset_def machine_defs Let_def
        split: option.split sum.split)
  moreover have "core u = core cs" by (simp add: u(1))
  ultimately have "wait_view u = ((next_height state, 0, RoundStepNewHeight), False, [])"
    by (simp add: core_def wait_view_def pos_def r updateToState_reset_fields zero_consensus_state_def)
  then show ?thesis
    unfolding timeouts_inv_def not_after_def on_its_way_def u(2) t
    by (auto simp: scheduleRound0_def CanonicalNow_def machine_defs GetRoundState_def round_state.defs
        wait_view_def pos_def round_fits_def due_def waiting_def ti_key_def NewTimeoutTicker_def
        ticker_stopTimer_def zero_timeout_def less_eq_prod_def less_prod_def)
qed

lemma reachable_timeouts:
  assumes "startable state" and "new_proposal_ok N" and "reachable N cfg state store pv s"
  shows "timeouts_inv s"
  using assms(3)
proof (induction rule: reachable.induct)
  case (reachable_start s)
  then show ?case by (rule start_node_timeouts)
next
  case (reachable_step s t)
  have "system_inv s" by (rule reachable_inv [OF assms(1,2) reachable_step(1)])
  then show ?case
    using receive_event_timeouts [OF _ _ assms(2)] reachable_step by (blast elim: system_stepE)
qed

end

section \<open>Property\<close>

text \<open>C19. No awaited timeout is lost. Whenever a node is in one of the steps NewHeight, Propose and
  PrevoteWait, or has seen two thirds of any precommits of its round, the timeout that takes it on
  from there is in \<open>tickChan\<close>, or carried by the armed timer, or fired and ready to be received:
  the one for its height, round and step, or for the end of the precommits.\<close>

theorem awaited_timeout_on_its_way:
  assumes "startable state" and "new_proposal_ok E"
    and "reachable (default_node E D) cfg state store pv s" and "waiting (sys_cs s)"
  shows "\<exists>ti. ti_key ti = due (sys_cs s)
    \<and> (ti \<in> set (tickChan (sys_cs s)) \<or> (tt_armed (sys_ticker s) \<and> tt_ti (sys_ticker s) = ti)
       \<or> ti \<in> set (tt_tockChan (sys_ticker s)))"
proof -
  have "timeouts_inv s"
    using assms(1-3) by (intro default_consensus.reachable_timeouts [of state E D cfg store pv s]) simp_all
  then show ?thesis
    using assms(4) by (auto simp: timeouts_inv_def on_its_way_def ticker_carries_def)
qed

theorem awaited_timeout_on_its_way_witness:
  "\<exists>s ti. reachable (default_node sample_ext sample_block_db) sample_config sample_genesis Map.empty
         (Some sample_key) s
     \<and> ti_key ti = (2, 0, RoundStepNewHeight)
     \<and> (ti \<in> set (tickChan (sys_cs s)) \<or> (tt_armed (sys_ticker s) \<and> tt_ti (sys_ticker s) = ti)
        \<or> ti \<in> set (tt_tockChan (sys_ticker s)))"
proof -
  obtain s where r: "sample_run [TickerTick, TickerFire, Tock 0, InternalMsg, InternalMsg, InternalMsg] = Some s"
    and p: "Height (sys_cs s) = 2" "Round (sys_cs s) = 0" "Step (sys_cs s) = RoundStepNewHeight"
    using sample_committed by (elim exE conjE)
  have reach: "reachable (default_node sample_ext sample_block_db) sample_config sample_genesis Map.empty
      (Some sample_key) s"
    using sample_run_reachable [OF r] by (simp only: sample_node_def)
  have "timeouts_inv s"
    using reach sample_hypotheses
    by (intro default_consensus.reachable_timeouts [of sample_genesis sample_ext sample_block_db]) simp_all
  then have "\<not> TriggeredTimeoutPrecommit (sys_cs s)" using p by (simp add: timeouts_inv_def round_fits_def)
  then have "due (sys_cs s) = (2, 0, RoundStepNewHeight)" "waiting (sys_cs s)"
    using p by (simp_all add: due_def waiting_def)
  then show ?thesis using awaited_timeout_on_its_way [OF sample_hypotheses reach] reach by auto
qed

text \<open>C20. The timeout a node waits for takes it on. When a reachable node in one of the waiting steps
  receives the timeout of its position, and the handler returns, the node is at the same height and
  strictly further on, in a later step or round: it never waits for the same timeout again.\<close>

theorem awaited_timeout_moves_on:
  assumes "startable state" and "new_proposal_ok E"
    and "reachable (default_node E D) cfg state store pv s" and "waiting (sys_cs s)"
    and "take_nth k (tt_tockChan (sys_ticker s)) = Some (ti, rest)" and "ti_key ti = due (sys_cs s)"
    and "receive_event (default_node E D) (Tock k) s = Inr t"
  shows "Height (sys_cs t) = Height (sys_cs s) \<and> pos (sys_cs s) < pos (sys_cs t)"
proof -
  have sys: "system_inv s" by (rule default_reachable_inv [OF assms(1-3)])
  have "timeouts_inv s"
    using assms(1-3) by (intro default_consensus.reachable_timeouts [of state E D cfg store pv s]) simp_all
  then have fits: "round_fits (sys_cs s)" by (simp add: timeouts_inv_def)
  have "ti \<in> ticker_held (sys_ticker s)" using take_nth_set [OF assms(5)] by (auto simp: ticker_held_def)
  then have ok: "tick_ok (pos (sys_cs s)) ti" and inv: "cs_inv (sys_cs s)" using sys by (simp_all add: system_inv_def)
  obtain u where u: "handleTimeout (default_node E D) ti (GetRoundState (sys_cs s)) (sys_cs s) = Inr u"
    and t: "sys_cs t = u"
    using assms(5,7) by (auto simp: andThen_eq_Inr)
  show ?thesis
    unfolding t by (rule default_consensus.handleTimeout_later [OF ok assms(4,6) fits inv u])
qed

text \<open>The sample node when the timeout that starts its first round has fired.\<close>

lemma sample_fired:
  "\<exists>s ti t. sample_run [TickerTick, TickerFire] = Some s
     \<and> take_nth 0 (tt_tockChan (sys_ticker s)) = Some (ti, []) \<and> ti_key ti = (1, 0, RoundStepNewHeight)
     \<and> Height (sys_cs s) = 1 \<and> Round (sys_cs s) = 0 \<and> Step (sys_cs s) = RoundStepNewHeight
     \<and> \<not> TriggeredTimeoutPrecommit (sys_cs s) \<and> receive_event sample_node (Tock 0) s = Inr t"
  by (simp add: sample_run_defs state_machine_defs library_defs ti_key_def cong: eval_cong)

theorem awaited_timeout_moves_on_witness:
  "\<exists>s t. reachable (default_node sample_ext sample_block_db) sample_config sample_genesis Map.empty
         (Some sample_key) s
     \<and> receive_event (default_node sample_ext sample_block_db) (Tock 0) s = Inr t
     \<and> pos (sys_cs s) = (1, 0, RoundStepNewHeight) \<and> pos (sys_cs s) < pos (sys_cs t)"
proof -
  obtain s ti t where r: "sample_run [TickerTick, TickerFire] = Some s"
    and k: "take_nth 0 (tt_tockChan (sys_ticker s)) = Some (ti, [])" "ti_key ti = (1, 0, RoundStepNewHeight)"
    and p: "Height (sys_cs s) = 1" "Round (sys_cs s) = 0" "Step (sys_cs s) = RoundStepNewHeight"
      "\<not> TriggeredTimeoutPrecommit (sys_cs s)"
    and e: "receive_event sample_node (Tock 0) s = Inr t"
    using sample_fired by (elim exE conjE)
  have reach: "reachable (default_node sample_ext sample_block_db) sample_config sample_genesis Map.empty
      (Some sample_key) s"
    using sample_run_reachable [OF r] by (simp only: sample_node_def)
  have w: "waiting (sys_cs s)" "ti_key ti = due (sys_cs s)" using p k(2) by (simp_all add: waiting_def due_def)
  have e': "receive_event (default_node sample_ext sample_block_db) (Tock 0) s = Inr t"
    using e by (simp only: sample_node_def)
  have "pos (sys_cs s) = (1, 0, RoundStepNewHeight)" using p by (simp add: pos_def)
  then show ?thesis
    using awaited_timeout_moves_on [OF sample_hypotheses reach w(1) k(1) w(2) e'] reach e' by blast
qed

end
