(* ===== verification/CS_Progress.thy ===== *)
theory CS_Progress
  imports CS_Panics CS_Timeouts
begin

text \<open>
  A node commits as soon as it can (\<open>consensus/consensus_state.go\<close>): the precommit that completes a
  majority for a valid block the node holds takes it to the next height, on the chain state after
  that block.
\<close>

section \<open>Committing succeeds\<close>

lemma updateToState_panics: "updateToState N st cs = Inl p \<Longrightarrow> p \<in> sanity"
  by (auto simp: updateToState_def updateToState_check_def updateToState_lastCommit_def andThen_eq_Inl
      Let_def sanity_def split: if_splits)

text \<open>The state a commit leaves for the next height: nothing proposed, locked or valid yet, and the queues
  as they were.\<close>

definition restarted ::
  "('val, 'vs, 'hvs, 'blk, 'bs, 'pv) consensus_state
     \<Rightarrow> ('val, 'vs, 'hvs, 'blk, 'bs, 'pv) consensus_state \<Rightarrow> bool" where
  "restarted cs t \<longleftrightarrow> cs_config t = cs_config cs \<and> internalMsgQueue t = internalMsgQueue cs
     \<and> internalOverflow t = internalOverflow cs \<and> Proposal t = None \<and> LockedBlock t = None \<and> ValidBlock t = None"

context consensus_node
begin

lemma applyBlock_moves:
  assumes inv: "cs_inv cs" and "initial_ok (chainState cs)" and "commit_known N cs"
    and bound: "Height cs + 1 \<noteq> 0" and valid: "be_ValidateBlock N (chainState cs) block = Inr None"
    and exec: "be_ApplyBlock N (ChainState_Copy N (chainState cs)) block = Inr (Inr st')"
  shows "\<exists>w. (\<forall>after. applyBlock N block after cs = after w)
    \<and> pos w = (Height cs + 1, 0, RoundStepNewHeight) \<and> chainState w = st' \<and> restarted cs w"
proof -
  have h: "st_LastBlockHeight st' = Height cs"
    using executor.exec_height [OF exec] validate_height [OF inv valid] by simp
  have "quiet (updateToState N st' cs)" by (rule updateToState_quiet [OF assms(1-3) h])
  then obtain u where u: "updateToState N st' cs = Inr u"
    using updateToState_panics by (cases "updateToState N st' cs") (auto simp: quiet_def)
  obtain l where r: "u = updateToState_reset N st' (cs\<lparr>LastCommit := l\<rparr>)"
    using updateToState_resets [OF inv h u] by blast
  let ?w = "snd (updatePrivValidatorPubKey N u)"
  have "core ?w = core u" by simp
  then have "pos ?w = (Height cs + 1, 0, RoundStepNewHeight)" "chainState ?w = st'"
    using height_next [OF inv bound h] by (simp_all add: core_def pos_def r updateToState_reset_fields)
  moreover have "restarted cs ?w"
    by (simp add: r restarted_def updateToState_reset_def updatePrivValidatorPubKey_def machine_defs CanonicalNow_def
        Let_def split: option.split sum.split)
  moreover have "applyBlock N block after cs = after ?w" for after
    using u exec by (simp add: applyBlock_def)
  ultimately show ?thesis by blast
qed

lemma scheduleRound0_fields:
  "pos (scheduleRound0 N rs cs) = pos cs" "chainState (scheduleRound0 N rs cs) = chainState cs"
  "restarted c (scheduleRound0 N rs cs) = restarted c cs"
  by (simp_all add: scheduleRound0_def CanonicalNow_def machine_defs pos_def restarted_def)

lemma enterCommit_succeeds:
  assumes lib: "library_ok N" and inv: "cs_inv cs" and init: "initial_ok (chainState cs)"
    and bound: "Height cs + 1 \<noteq> 0" and step: "Step cs < RoundStepCommit"
    and maj: "vs_TwoThirdsMajority N (hvs_Precommits N (Votes cs) round) = (h, True)" and "h \<noteq> 0"
    and held: "(if blk_HashTo N (LockedBlock cs) h then LockedBlock cs else ProposalBlock cs) = Some block"
      "blk_HashTo N (Some block) h"
    and valid: "be_ValidateBlock N (chainState cs) block = Inr None"
    and commit: "vs_MakeCommit N (hvs_Precommits N (Votes cs) round) = Inr c"
    and save: "store_SaveBlock N block c (blockStore cs) = Inr bs"
    and exec: "be_ApplyBlock N (ChainState_Copy N (chainState cs)) block = Inr (Inr st')"
  shows "\<exists>t. enterCommit N (Height cs) round cs = Inr t
    \<and> pos t = (Height cs + 1, 0, RoundStepNewHeight) \<and> chainState t = st' \<and> restarted cs t"
proof -
  let ?u = "cs\<lparr>ProposalBlock := Some block\<rparr>"
  have u: "enterCommit_body N round cs = Inr ?u"
    using maj held by (auto simp: enterCommit_body_def Let_def split: if_splits)
  let ?c = "(updateRoundStep (Round ?u) RoundStepCommit ?u)\<lparr>CommitRound := round\<rparr>"
  obtain now w where w: "CanonicalNow N ?c = (now, w)" by fastforce
  define v where "v = newStep (w\<lparr>CommitTime := now\<rparr>)"
  have sv: "stays cs v" unfolding v_def by (rule enterCommit_state [OF inv u w])
  have f: "Votes v = Votes cs" "CommitRound v = round" "ProposalBlock v = Some block" "Step v = RoundStepCommit"
      "blockStore v = blockStore cs" "Height v = Height cs" "chainState v = chainState cs"
      "cs_config v = cs_config cs" "internalMsgQueue v = internalMsgQueue cs" "internalOverflow v = internalOverflow cs"
    using w by (auto simp: v_def CanonicalNow_def machine_defs)
  obtain x where x: "saveBlock N block (vs_MakeCommit N (hvs_Precommits N (Votes v) (CommitRound v))) v = Inr x"
    using commit save f
    by (cases "store_Height N (blockStore cs) < blk_NumberU64 N block") (auto simp: saveBlock_def)
  have cx: "core x = core v" by (rule saveBlock_core [OF x])
  have "cs_inv x" using core_inv [OF cx] sv by (simp add: stays_def)
  moreover have "initial_ok (chainState x)" "Height x = Height cs" "chainState x = chainState cs"
    using cx f init by (simp_all add: core_def pos_def)
  moreover have "commit_known N x"
    using saveBlock_keeps [OF x] majorityD [OF lib maj] f by (simp add: commit_known_def)
  moreover have "restarted x = restarted cs"
    using x f(8-) by (auto simp: saveBlock_def andThen_eq_Inr restarted_def fun_eq_iff split: if_splits)
  ultimately obtain y where y: "\<forall>after. applyBlock N block after x = after y"
    "pos y = (Height cs + 1, 0, RoundStepNewHeight)" "chainState y = st'" "restarted cs y"
    using applyBlock_moves [of x block st'] bound valid exec by auto
  define t where "t = scheduleRound0 N (GetRoundState y) y"
  have t: "applyBlock N block (\<lambda>cs. Inr (scheduleRound0 N (GetRoundState cs) cs)) x = Inr t"
    "pos t = (Height cs + 1, 0, RoundStepNewHeight)" "chainState t = st'" "restarted cs t"
    using y by (simp_all add: t_def scheduleRound0_fields)
  have "finalizeCommit N (Height cs) v = Inr t"
    using f maj held valid x t(1) by (simp add: finalizeCommit_def)
  then have "enterCommit N (Height cs) round cs = Inr t"
    using f maj held step assms(7) u w
    by (simp add: enterCommit_def v_def [symmetric] tryFinalizeCommit_def not_le)
  with t show ?thesis by blast
qed

lemma precommit_commits:
  assumes lib: "library_ok N" and inv: "cs_inv cs" and init: "initial_ok (chainState cs)"
    and bound: "Height cs + 1 \<noteq> 0" and step: "RoundStepPrecommit \<le> Step cs" "Step cs < RoundStepCommit"
    and vote: "v_Height vote = Height cs" "v_Round vote = Round cs" "v_Type vote = PrecommitType"
    and added: "hvs_AddVote N vote peer (Votes cs) = Inr ((True, err), vs)"
    and maj: "vs_TwoThirdsMajority N (hvs_Precommits N vs (Round cs)) = (h, True)" and h: "h \<noteq> 0"
    and held: "(if blk_HashTo N (LockedBlock cs) h then LockedBlock cs else ProposalBlock cs) = Some block"
      "blk_HashTo N (Some block) h"
    and valid: "be_ValidateBlock N (chainState cs) block = Inr None"
    and commit: "vs_MakeCommit N (hvs_Precommits N vs (Round cs)) = Inr c"
    and save: "store_SaveBlock N block c (blockStore cs) = Inr bs"
    and exec: "be_ApplyBlock N (ChainState_Copy N (chainState cs)) block = Inr (Inr st')"
    and skip: "\<not> (SkipTimeoutCommit (cs_config cs) \<and> vs_HasAll N (hvs_Precommits N vs (Round cs)))"
  shows "\<exists>t. handleMsg N \<lparr>mi_Msg = VoteMessage vote, mi_PeerID = peer\<rparr> cs = Inr t
    \<and> pos t = (Height cs + 1, 0, RoundStepNewHeight) \<and> chainState t = st' \<and> restarted cs t"
proof -
  let ?u = "cs\<lparr>Votes := vs\<rparr>"
  have "core ?u = core cs" by (simp add: core_def pos_def)
  from core_inv [OF this] have iu: "cs_inv ?u" using inv by blast
  obtain t where t: "enterCommit N (Height cs) (Round cs) ?u = Inr t"
    "pos t = (Height cs + 1, 0, RoundStepNewHeight)" "chainState t = st'"
    and u: "restarted ?u t"
    using enterCommit_succeeds [OF lib iu, of "Round cs" h block c bs st'] init bound step(2) maj h held valid commit
      save exec by (auto cong: if_cong)
  from u have rest: "restarted cs t" by (simp add: restarted_def)
  have "Step cs \<noteq> RoundStepNewHeight" using step(1) by (auto simp: word_le_nat_alt)
  then have "enterNewRound N (Height cs) (Round cs) ?u = Inr ?u"
    "enterPrecommit N (Height cs) (Round cs) ?u = Inr ?u"
    using step(1) by (simp_all add: enterNewRound_def enterPrecommit_def)
  then have "addVote_precommit N (Height cs) vote ?u = Inr t"
    using vote maj h t(1) skip rest by (auto simp: addVote_precommit_def restarted_def)
  then have "addVote N vote peer cs = Inr ((True, err), t)"
    using vote added by (simp add: addVote_def)
  then obtain b where "handleMsg N \<lparr>mi_Msg = VoteMessage vote, mi_PeerID = peer\<rparr> cs
      = Inr (if b then broadcastMessageToPeers (VoteMessage vote) t else t)"
    by (auto simp: handleMsg_def tryAddVote_def case_prod_beta)
  then show ?thesis using t(2,3) rest by (auto simp: broadcastMessageToPeers_def pos_def restarted_def)
qed

text \<open>The fast path: a block for the height of the node that is valid and comes with its commit.\<close>

lemma processCommitedBlock_succeeds:
  assumes inv: "cs_inv cs" and init: "initial_ok (chainState cs)" and bound: "Height cs + 1 \<noteq> 0"
    and num: "blk_NumberU64 N block = Height cs" and valid: "be_ValidateBlock N (chainState cs) block = Inr None"
    and verified: "vals_VerifyCommit N (st_Validators (chainState cs)) (st_ChainID (chainState cs))
        (blk_Hash N block) (Height cs) (blk_HeaderCommit N block) = None"
    and commit: "CommitToVoteSet N (st_ChainID (chainState cs)) (blk_Commit N block)
        (st_Validators (chainState cs)) = Inr (Some lc)"
    and save: "store_SaveBlock N block (blk_Commit N block) (blockStore cs) = Inr bs"
    and exec: "be_ApplyBlock N (ChainState_Copy N (chainState cs)) block = Inr (Inr st')"
    and skip: "\<not> SkipTimeoutCommit (cs_config cs)"
  shows "\<exists>t. processCommitedBlock N block cs = Inr t
    \<and> pos t = (Height cs + 1, 0, RoundStepNewHeight) \<and> chainState t = st'"
proof -
  let ?v = "fast_path_state N (Some lc) cs"
  have f: "Height ?v = Height cs" "chainState ?v = chainState cs" "blockStore ?v = blockStore cs"
    "CommitRound ?v = -1" "LastCommit ?v = Some lc" "cs_config ?v = cs_config cs"
    by (simp_all add: CanonicalNow_def machine_defs)
  obtain x where x: "saveBlock N block (Inr (blk_Commit N block)) ?v = Inr x"
    using save f
    by (cases "store_Height N (blockStore cs) < blk_NumberU64 N block") (auto simp: saveBlock_def Let_def)
  have sx: "stays cs x" by (rule fast_path_saved [OF inv x])
  have "commit_known N x" using saveBlock_keeps [OF x] f by (simp add: commit_known_def)
  moreover have "cs_config x = cs_config cs"
    using x f(6) by (auto simp: saveBlock_def andThen_eq_Inr split: if_splits)
  ultimately obtain y where y: "\<forall>after. applyBlock N block after x = after y"
    "pos y = (Height cs + 1, 0, RoundStepNewHeight)" "chainState y = st'" "cs_config y = cs_config cs"
    using applyBlock_moves [of x block st'] sx init bound valid exec by (auto simp: stays_def restarted_def)
  define after where "after = fast_path_after N"
  have "chainState (updateRoundStep (Round cs) RoundStepCommit cs) = chainState cs" by (simp add: machine_defs)
  then have "processCommitedBlock N block cs = applyBlock N block after x"
    using num valid verified commit x unfolding processCommitedBlock_def after_def [symmetric]
    by (simp add: Let_def case_prod_beta)
  also have "\<dots> = Inr (scheduleRound0 N (GetRoundState y) y)"
    using y skip by (simp add: after_def)
  finally show ?thesis using y by (simp add: scheduleRound0_fields)
qed

end

section \<open>Property\<close>

text \<open>C24. A node commits as soon as it can. A reachable node that has precommitted and holds a
  block, as its locked or its proposal block, takes a vote that completes a majority of precommits
  of its round for that block to the next height, on the chain state after the block: when the
  block is valid and the package, the store and the executor return, nothing else is waited for.\<close>

theorem majority_of_precommits_commits:
  assumes "startable state" and "initial_ok state" and "new_proposal_ok E" and "library_ok E"
    and "reachable (default_node E D) cfg state store pv s"
    and "cs = sys_cs s" and "Height cs + 1 \<noteq> 0" and "RoundStepPrecommit \<le> Step cs" and "Step cs < RoundStepCommit"
    and "v_Height vote = Height cs" and "v_Round vote = Round cs" and "v_Type vote = PrecommitType"
    and "hvs_AddVote E vote peer (Votes cs) = Inr ((True, err), vs)"
    and "vs_TwoThirdsMajority E (hvs_Precommits E vs (Round cs)) = (h, True)" and "h \<noteq> 0"
    and "(if blk_HashTo E (LockedBlock cs) h then LockedBlock cs else ProposalBlock cs) = Some block"
    and "blk_HashTo E (Some block) h"
    and "validateBlock E (chainState cs) block = Inr None"
    and "vs_MakeCommit E (hvs_Precommits E vs (Round cs)) = Inr c"
    and "BlockStore_SaveBlock D (blk_NumberU64 E) block c (blockStore cs) = Inr db"
    and "DefaultBlockExecutor_ApplyBlock E (ChainState_Copy E (chainState cs)) block = Inr (Inr st')"
    and "\<not> (SkipTimeoutCommit (cs_config cs) \<and> vs_HasAll E (hvs_Precommits E vs (Round cs)))"
  shows "\<exists>t. receive_event (default_node E D) (PeerMsg \<lparr>mi_Msg = VoteMessage vote, mi_PeerID = peer\<rparr>) s = Inr t
    \<and> Height (sys_cs t) = Height cs + 1 \<and> Round (sys_cs t) = 0 \<and> Step (sys_cs t) = RoundStepNewHeight
    \<and> chainState (sys_cs t) = st'"
proof -
  have inv: "cs_inv cs" using default_reachable_inv [OF assms(1,3,5)] assms(6) by (simp add: system_inv_def)
  have init: "initial_ok (chainState cs)"
    using default_consensus.chain_links_initial [OF default_reachable_chain [OF assms(1,3,5)] assms(2)] assms(6) by simp
  have f: "hvs_AddVote (default_node E D) = hvs_AddVote E" "vs_HasAll (default_node E D) = vs_HasAll E"
    "ChainState_Copy (default_node E D) = ChainState_Copy E"
    by (simp_all add: default_node_def ext.defs ChainState_Copy_def fun_eq_iff)
  obtain t where t: "handleMsg (default_node E D) \<lparr>mi_Msg = VoteMessage vote, mi_PeerID = peer\<rparr> cs = Inr t"
    "pos t = (Height cs + 1, 0, RoundStepNewHeight)" "chainState t = st'"
    using default_consensus.precommit_commits [OF default_library_ok [OF assms(4)] inv init assms(7-12),
        where D = D and h = h and block = block and c = c and bs = db and vs = vs and err = err,
        unfolded f default_node_fields, OF assms(13-22)]
    by blast
  then show ?thesis using assms(6) by (auto simp: pos_def)
qed

lemma sample_precommitted:
  "\<exists>s vote mis err vs h block c db st'.
     sample_run [TickerTick, TickerFire, Tock 0, InternalMsg, InternalMsg] = Some s
     \<and> internalMsgQueue (sys_cs s) = \<lparr>mi_Msg = VoteMessage vote, mi_PeerID = []\<rparr> # mis
     \<and> Height (sys_cs s) = 1 \<and> Round (sys_cs s) = 0 \<and> Step (sys_cs s) = RoundStepPrecommit
     \<and> v_Height vote = 1 \<and> v_Round vote = 0 \<and> v_Type vote = PrecommitType
     \<and> hvs_AddVote sample_ext vote [] (Votes (sys_cs s)) = Inr ((True, err), vs)
     \<and> vs_TwoThirdsMajority sample_ext (hvs_Precommits sample_ext vs 0) = (h, True) \<and> h \<noteq> 0
     \<and> LockedBlock (sys_cs s) = Some block \<and> blk_HashTo sample_ext (Some block) h
     \<and> validateBlock sample_ext (chainState (sys_cs s)) block = Inr None
     \<and> vs_MakeCommit sample_ext (hvs_Precommits sample_ext vs 0) = Inr c
     \<and> BlockStore_SaveBlock sample_block_db (blk_NumberU64 sample_ext) block c (blockStore (sys_cs s)) = Inr db
     \<and> DefaultBlockExecutor_ApplyBlock sample_ext (ChainState_Copy sample_ext (chainState (sys_cs s))) block
         = Inr (Inr st')
     \<and> \<not> SkipTimeoutCommit (cs_config (sys_cs s))"
  by (simp add: sample_run_defs state_machine_defs library_defs cong: eval_cong)

theorem majority_of_precommits_commits_witness:
  "\<exists>s t vote. reachable (default_node sample_ext sample_block_db) sample_config sample_genesis Map.empty
         (Some sample_key) s
     \<and> Height (sys_cs s) = 1 \<and> v_Type vote = PrecommitType
     \<and> receive_event (default_node sample_ext sample_block_db)
         (PeerMsg \<lparr>mi_Msg = VoteMessage vote, mi_PeerID = []\<rparr>) s = Inr t
     \<and> Height (sys_cs t) = 2 \<and> Step (sys_cs t) = RoundStepNewHeight"
proof -
  obtain s vote err vs h block c db st' where r: "sample_run [TickerTick, TickerFire, Tock 0, InternalMsg, InternalMsg] = Some s"
    and p: "Height (sys_cs s) = 1" "Round (sys_cs s) = 0" "Step (sys_cs s) = RoundStepPrecommit"
    and v: "v_Height vote = 1" "v_Round vote = 0" "v_Type vote = PrecommitType"
    and a: "hvs_AddVote sample_ext vote [] (Votes (sys_cs s)) = Inr ((True, err), vs)"
    and m: "vs_TwoThirdsMajority sample_ext (hvs_Precommits sample_ext vs 0) = (h, True)" "h \<noteq> 0"
    and b: "LockedBlock (sys_cs s) = Some block" "blk_HashTo sample_ext (Some block) h"
    and w: "validateBlock sample_ext (chainState (sys_cs s)) block = Inr None"
    and c: "vs_MakeCommit sample_ext (hvs_Precommits sample_ext vs 0) = Inr c"
    and d: "BlockStore_SaveBlock sample_block_db (blk_NumberU64 sample_ext) block c (blockStore (sys_cs s)) = Inr db"
    and e: "DefaultBlockExecutor_ApplyBlock sample_ext (ChainState_Copy sample_ext (chainState (sys_cs s))) block
         = Inr (Inr st')"
    and k: "\<not> SkipTimeoutCommit (cs_config (sys_cs s))"
    using sample_precommitted by (elim exE conjE)
  have reach: "reachable (default_node sample_ext sample_block_db) sample_config sample_genesis Map.empty
      (Some sample_key) s"
    using sample_run_reachable [OF r] by (simp only: sample_node_def)
  have i: "initial_ok sample_genesis" by (simp add: initial_ok_def sample_genesis_def MakeGenesisChainState_def)
  obtain t where "receive_event (default_node sample_ext sample_block_db)
         (PeerMsg \<lparr>mi_Msg = VoteMessage vote, mi_PeerID = []\<rparr>) s = Inr t"
      "Height (sys_cs t) = Height (sys_cs s) + 1" "Step (sys_cs t) = RoundStepNewHeight"
    using majority_of_precommits_commits [OF sample_hypotheses(1) i sample_hypotheses(2) sample_library_ok reach refl,
        where vote = vote and peer = "[]" and err = err and vs = vs and h = h and block = block and c = c
          and db = db and st' = st'] p v a m b w c d e k
    by auto
  then show ?thesis using reach p v by auto
qed

end
