(* ===== verification/Catch_Up.thy ===== *)
theory Catch_Up
  imports Block_Sync_Progress CS_Progress
begin

text \<open>
  How a running node that fell behind catches up (\<open>p2p/consensus_sync.go\<close>, \<open>p2p/p2p.go\<close>,
  \<open>consensus/consensus_state.go\<close>): the request it makes when its sync timer fires, \<open>consensSyncRoutine\<close>,
  which sends it to one peer and feeds the answer back, the handler of the peer and the answer it
  takes from its consensus state and its store, and the fast path that commits the block.
\<close>

section \<open>Asking a peer\<close>

text \<open>\<open>consensSyncRoutine\<close> on one request of the consensus state machine: \<open>rand_Intn\<close> picks one of the
  connected peers, and what the peer answers becomes events.\<close>

definition consensSyncRoutine ::
  "'s host \<Rightarrow> 'blk wire \<Rightarrow> (nat \<Rightarrow> nat) \<Rightarrow> peer_id list \<Rightarrow> sync_request \<Rightarrow> 'blk event list" where
  "consensSyncRoutine H W rand_Intn ps localSyncReq =
     (if length ps = 0 then []
      else
        let p = ps ! rand_Intn (length ps) in
        case SendRPC H p TopicConsensusSync (enc_SyncRequest W localSyncReq) (dec_SyncResponse W) of
          Inl err \<Rightarrow> []
        | Inr resp \<Rightarrow> consume_sync_response W p resp)"

text \<open>All the stream handlers of a node: those of \<open>NewP2PServer\<close> on its block store, and the one that
  \<open>SetConsensusState\<close> adds; a panic of a handler is no answer.\<close>

definition serve_all ::
  "('val, 'vs, 'hvs, 'blk, 'bs, 'pv) node \<Rightarrow> 'blk wire \<Rightarrow> ('val, 'vs, 'hvs, 'blk, 'bs, 'pv) consensus_state
     \<Rightarrow> string \<Rightarrow> bytes \<Rightarrow> bytes option" where
  "serve_all E W cs topic s =
     (if topic = TopicConsensusSync
      then (case handleConsensusSync E W cs s of Inl p \<Rightarrow> None | Inr r \<Rightarrow> r)
      else serve E W (blockStore cs) topic s)"

section \<open>The answer of a peer\<close>

text \<open>Requests and answers can be encoded and fit the 4-byte size, and decode to what they were.\<close>

definition sync_wire_ok :: "'blk wire \<Rightarrow> sync_request \<Rightarrow> consensus_sync_response \<Rightarrow> bool" where
  "sync_wire_ok W req resp \<longleftrightarrow> wire_ok W
     \<and> (\<exists>bs. enc_SyncRequest W req = Inr bs \<and> length bs < 2 ^ 32 \<and> dec_SyncRequest W bs = Inr req)
     \<and> (\<exists>bs. enc_SyncResponse W resp = Inr bs \<and> length bs < 2 ^ 32)"

lemma consensSyncRoutine_answer:
  assumes "processSyncRequest E req cs = Inr msgs" and "sync_response_of W msgs = Inr resp"
    and "sync_wire_ok W req resp" and "ps \<noteq> []"
    and "(\<forall>r\<in>set msgs. plain_response W r) \<or> (\<exists>b. msgs = [RespBlock (Some b)])"
  shows "consensSyncRoutine (connected_host (serve_all E W cs)) W rand_Intn ps req
    = concat (map (response_event (ps ! rand_Intn (length ps))) msgs)"
proof -
  obtain rbs bs where r: "enc_SyncRequest W req = Inr rbs" "length rbs < 2 ^ 32" "dec_SyncRequest W rbs = Inr req"
    and b: "enc_SyncResponse W resp = Inr bs" "length bs < 2 ^ 32" and ok: "wire_ok W"
    using assms(3) unfolding sync_wire_ok_def by blast
  have "serve_all E W cs TopicConsensusSync (framed rbs) = Some bs"
    using read_framed [OF r(2)] r(3) assms(1,2) b(1) by (simp add: serve_all_def handleConsensusSync_def)
  moreover have "dec_SyncResponse W bs = Inr resp" using ok b(1) by (auto simp: wire_ok_def)
  ultimately have "SendRPC (connected_host (serve_all E W cs)) p TopicConsensusSync (Inr rbs) (dec_SyncResponse W)
      = Inr resp" for p
    by (simp only: SendRPC_connected [where answer = "serve_all E W cs", OF _ b(2)])
  then show ?thesis
    using r(1) assms(4) consume_sync_response_of [OF ok assms(2,5)] by (simp add: consensSyncRoutine_def Let_def)
qed

text \<open>A peer that is ahead answers a node without a proposal with its block and the commit for it.\<close>

lemma processSyncRequest_block:
  assumes "st_InitialHeight (chainState cs) \<le> sr_Height req" and "sr_Height req < Height cs"
    and "sr_HasProposal req = 0"
    and "store_LoadBlock E (blockStore cs) (sr_Height req) = Inr vb"
    and "store_LoadBlockCommit E (blockStore cs) (sr_Height req) = Inr c"
    and "blk_WithCommit E c vb = Inr b"
  shows "processSyncRequest E req cs = Inr [RespBlock b]"
  using assms by (simp add: processSyncRequest_def not_less)

lemma createSyncRequest_fields:
  assumes "createSyncRequest E cs = Inr req"
  shows "sr_Height req = Height cs" "sr_HasProposal req = (if Proposal cs = None then 0 else 1)"
  using assms by (auto simp: createSyncRequest_def Let_def andThen_eq_Inr)

section \<open>Votes of the same height\<close>

text \<open>A node waits for a polka when its proposal names an earlier round whose majority of prevotes it has
  not seen, or when it has lost the block of the proposal.\<close>

definition awaits_polka ::
  "('val, 'vs, 'hvs, 'blk, 'bs, 'pv) node \<Rightarrow> ('val, 'vs, 'hvs, 'blk, 'bs, 'pv) consensus_state \<Rightarrow> bool" where
  "awaits_polka E cs \<longleftrightarrow>
     (case Proposal cs of None \<Rightarrow> False | Some p \<Rightarrow> p_POLRound p \<noteq> -1 \<and> \<not> isProposalComplete E cs)"

text \<open>The round a request is for: the node's own, except that a node that waits for a polka names its
  \<open>LockedRound\<close>. The comment in \<open>createSyncRequest\<close> has the round of the polka in mind there.\<close>

definition sync_round ::
  "('val, 'vs, 'hvs, 'blk, 'bs, 'pv) node \<Rightarrow> ('val, 'vs, 'hvs, 'blk, 'bs, 'pv) consensus_state \<Rightarrow> int" where
  "sync_round E cs = (if awaits_polka E cs then LockedRound cs else Round cs)"

lemma createSyncRequest_round:
  assumes "createSyncRequest E cs = Inr req"
  shows "sr_Round req = to_u32 (sync_round E cs)
    \<and> (\<exists>own. ba_Copy E (vs_BitArray E (hvs_Prevotes E (Votes cs) (sync_round E cs))) = Some own
        \<and> sr_PrevotesBitmap req = ba_Elems own)
    \<and> (\<exists>own. ba_Copy E (vs_BitArray E (hvs_Precommits E (Votes cs) (sync_round E cs))) = Some own
        \<and> sr_PrecommitsBitmap req = ba_Elems own)"
proof -
  have "(case Proposal cs of
      Some proposal \<Rightarrow>
        if p_POLRound proposal \<noteq> -1 \<and> \<not> isProposalComplete E cs then LockedRound cs else Round cs
    | None \<Rightarrow> Round cs) = sync_round E cs"
    by (simp add: sync_round_def awaits_polka_def split: option.split)
  then show ?thesis
    using assms by (auto simp: createSyncRequest_def Let_def andThen_eq_Inr deref_eq_Inr)
qed

text \<open>What is relied on of bit arrays: the words of a copy of the bit array of \<open>vs\<close> give the bits of
  \<open>vs\<close> back, for a vote set \<open>vs'\<close> of the same validators.\<close>

definition bitmap_ok :: "('val, 'vs, 'hvs, 'blk, 'e) ext_scheme \<Rightarrow> 'vs option \<Rightarrow> 'vs option \<Rightarrow> bool" where
  "bitmap_ok E vs vs' \<longleftrightarrow> vs_Size E vs' \<le> 2 ^ 31
     \<and> (\<forall>own. ba_Copy E (vs_BitArray E vs) = Some own \<longrightarrow> ba_Elems own \<noteq> []
        \<and> (\<exists>ba. NewBitArrayFromUint64 E (vs_Size E vs') (ba_Elems own) = Inr ba
            \<and> ba_Size E (Some ba) = vs_Size E vs'
            \<and> (\<forall>i. ba_GetIndex E (Some ba) i = ba_GetIndex E (vs_BitArray E vs) i)))"

text \<open>The votes of \<open>vs'\<close> that \<open>vs\<close> does not have.\<close>

definition votes_missing :: "('val, 'vs, 'hvs, 'blk, 'e) ext_scheme \<Rightarrow> 'vs option \<Rightarrow> 'vs option \<Rightarrow> vote option list" where
  "votes_missing E vs vs' =
     map (vs_GetByIndex E vs')
       (filter (\<lambda>i. ba_GetIndex E (vs_BitArray E vs') i \<and> \<not> ba_GetIndex E (vs_BitArray E vs) i)
         [0..vs_Size E vs' - 1])"

lemma appendDiffVotes_missing:
  assumes "bitmap_ok E vs vs'" and "ba_Copy E (vs_BitArray E vs) = Some own"
  shows "appendDiffVotes E vs' (ba_Elems own) msgs = msgs @ map RespVote (votes_missing E vs vs')"
proof -
  obtain ba where ba: "NewBitArrayFromUint64 E (vs_Size E vs') (ba_Elems own) = Inr ba" "ba_Elems own \<noteq> []"
    "ba_Size E (Some ba) = vs_Size E vs'" "\<And>i. ba_GetIndex E (Some ba) i = ba_GetIndex E (vs_BitArray E vs) i"
    "vs_Size E vs' \<le> 2 ^ 31"
    using assms unfolding bitmap_ok_def by blast
  have up: "[0..int (nat n) - 1] = [0..n - 1]" for n by (cases "0 \<le> n") simp_all
  show ?thesis
    using ba
    by (auto simp: appendDiffVotes_def appendDiffVotes_loop_eq votes_missing_def up is_i32_def o_def
        intro!: map_cong filter_cong)
qed

text \<open>The precommits of the stored commit of a height.\<close>

definition commit_votes :: "('val, 'vs, 'hvs, 'blk, 'e) ext_scheme \<Rightarrow> commit option \<Rightarrow> vote option list" where
  "commit_votes E c =
     map (commit_GetVote E c) (filter (ba_GetIndex E (commit_BitArray E c)) [0..commit_Size E c - 1])"

lemma commitVotes_loop_votes:
  assumes "commit_Size E c \<le> 2 ^ 31"
  shows "commitVotes_loop E c 0 (nat (commit_Size E c)) [] = map RespVote (commit_votes E c)"
proof -
  have "[0..int (nat n) - 1] = [0..n - 1]" for n by (cases "0 \<le> n") simp_all
  then show ?thesis
    using assms by (auto simp: commitVotes_loop_eq commit_votes_def is_i32_def intro!: map_cong)
qed

text \<open>What a peer answers a node that does not wait for a polka: nothing when it is behind the node; the
  precommits of the commit \<open>c\<close> when it is at a later height and the node has a proposal; at the same
  height its proposal, when the node has none, and the votes of the node's round that the node lacks.\<close>

definition sync_answer ::
  "('val, 'vs, 'hvs, 'blk, 'bs, 'pv) node \<Rightarrow> ('val, 'vs, 'hvs, 'blk, 'bs, 'pv) consensus_state
     \<Rightarrow> commit option \<Rightarrow> ('val, 'vs, 'hvs, 'blk, 'bs, 'pv) consensus_state \<Rightarrow> 'blk sync_response list" where
  "sync_answer E cs c peer =
     (if Height peer < Height cs \<or> Height peer = Height cs \<and> Round peer < Round cs then []
      else if Height cs < Height peer then map RespVote (commit_votes E c)
      else
        (case (Proposal cs, Proposal peer) of (None, Some p) \<Rightarrow> [RespProposal p] | _ \<Rightarrow> [])
        @ map RespVote (votes_missing E (hvs_Prevotes E (Votes cs) (Round cs)) (hvs_Prevotes E (Votes peer) (Round cs)))
        @ map RespVote
            (votes_missing E (hvs_Precommits E (Votes cs) (Round cs)) (hvs_Precommits E (Votes peer) (Round cs))))"

lemma u32_round:
  assumes "0 \<le> r" and "is_i32 r" and "0 \<le> r'" and "is_i32 r'"
  shows "i32_of_u32 (to_u32 r) = r" "to_u32 r' < to_u32 r \<longleftrightarrow> r' < r"
proof -
  have n: "0 \<le> x \<Longrightarrow> is_i32 x \<Longrightarrow> uint (to_u32 x) = x" for x
    by (simp add: to_u32_def is_i32_def uint_word_of_int)
  show "i32_of_u32 (to_u32 r) = r"
    using n [of r] assms by (simp add: i32_of_u32_def sint_uint signed_take_bit_int_eq_self is_i32_def)
  show "to_u32 r' < to_u32 r \<longleftrightarrow> r' < r"
    using n [of r] n [of r'] assms by (simp add: word_less_def)
qed

text \<open>What a request and an answer are about: the vote sets of the two nodes for the round, when they are
  at the same height, and the commit of the peer, when it is ahead.\<close>

definition sync_peers_ok ::
  "('val, 'vs, 'hvs, 'blk, 'bs, 'pv) node \<Rightarrow> ('val, 'vs, 'hvs, 'blk, 'bs, 'pv) consensus_state
     \<Rightarrow> commit option \<Rightarrow> ('val, 'vs, 'hvs, 'blk, 'bs, 'pv) consensus_state \<Rightarrow> bool" where
  "sync_peers_ok E cs c peer \<longleftrightarrow>
     (if Height peer = Height cs
      then bitmap_ok E (hvs_Prevotes E (Votes cs) (Round cs)) (hvs_Prevotes E (Votes peer) (Round cs))
        \<and> bitmap_ok E (hvs_Precommits E (Votes cs) (Round cs)) (hvs_Precommits E (Votes peer) (Round cs))
      else Height cs < Height peer \<longrightarrow>
        store_LoadBlockCommit E (blockStore peer) (Height cs) = Inr c \<and> commit_Size E c \<le> 2 ^ 31)"

lemma processSyncRequest_answer:
  assumes req: "createSyncRequest E cs = Inr req" and "\<not> awaits_polka E cs"
    and initial: "st_InitialHeight (chainState peer) \<le> Height cs"
    and rounds: "0 \<le> Round cs" "is_i32 (Round cs)" "0 \<le> Round peer" "is_i32 (Round peer)"
    and proposal: "Height peer \<le> Height cs \<or> Proposal cs \<noteq> None" and ok: "sync_peers_ok E cs c peer"
  shows "processSyncRequest E req peer = Inr (sync_answer E cs c peer)"
proof -
  have r: "sync_round E cs = Round cs" using assms(2) by (simp add: sync_round_def)
  obtain pv pc where b: "sr_PrevotesBitmap req = ba_Elems pv" "sr_PrecommitsBitmap req = ba_Elems pc"
    and c: "ba_Copy E (vs_BitArray E (hvs_Prevotes E (Votes cs) (Round cs))) = Some pv"
      "ba_Copy E (vs_BitArray E (hvs_Precommits E (Votes cs) (Round cs))) = Some pc"
    and rr: "sr_Round req = to_u32 (Round cs)"
    using createSyncRequest_round [OF req] unfolding r by blast
  note h = createSyncRequest_fields [OF req]
  have m: "(case Proposal peer of Some proposal \<Rightarrow> if sr_HasProposal req = 0 then [RespProposal proposal] else []
        | None \<Rightarrow> []) = (case (Proposal cs, Proposal peer) of (None, Some p) \<Rightarrow> [RespProposal p] | _ \<Rightarrow> [])"
    using h(2) by (auto split: option.split)
  note rd = u32_round [OF rounds]
  consider (ahead) "Height cs < Height peer" | (behind) "Height peer < Height cs" | (same) "Height peer = Height cs"
    by force
  then show ?thesis
  proof cases
    case ahead
    then have "store_LoadBlockCommit E (blockStore peer) (Height cs) = Inr c" "commit_Size E c \<le> 2 ^ 31"
      using ok by (auto simp: sync_peers_ok_def split: if_splits)
    then show ?thesis
      using ahead h initial proposal commitVotes_loop_votes
      by (auto simp: processSyncRequest_def sync_answer_def not_less)
  next
    case behind
    then show ?thesis using h(1) initial by (auto simp: processSyncRequest_def sync_answer_def)
  next
    case same
    then have bits: "appendDiffVotes E (hvs_Prevotes E (Votes peer) (Round cs)) (ba_Elems pv) msgs
        = msgs @ map RespVote (votes_missing E (hvs_Prevotes E (Votes cs) (Round cs)) (hvs_Prevotes E (Votes peer) (Round cs)))"
      "appendDiffVotes E (hvs_Precommits E (Votes peer) (Round cs)) (ba_Elems pc) msgs
        = msgs @ map RespVote (votes_missing E (hvs_Precommits E (Votes cs) (Round cs)) (hvs_Precommits E (Votes peer) (Round cs)))"
      for msgs
      using ok appendDiffVotes_missing [OF _ c(1)] appendDiffVotes_missing [OF _ c(2)] by (simp_all add: sync_peers_ok_def)
    have "\<not> Height cs < st_InitialHeight (chainState peer)" using initial by simp
    then show ?thesis
      using h(1) same unfolding processSyncRequest_def sync_answer_def m b rr rd by (simp add: Let_def bits rd)
  qed
qed

text \<open>A node that waits for a polka and is not locked asks for round \<open>4294967295\<close>: no peer at its height
  has that round, so it is not sent the prevotes it waits for.\<close>

lemma unlocked_waiting_node_gets_nothing:
  assumes "createSyncRequest E cs = Inr req" and "awaits_polka E cs" and "LockedRound cs = -1"
    and "Height peer = Height cs" and "0 \<le> Round peer" and "is_i32 (Round peer)"
  shows "processSyncRequest E req peer = Inr []"
proof -
  have "sr_Round req = to_u32 (- 1)"
    using createSyncRequest_round [OF assms(1)] assms(2,3) by (simp add: sync_round_def)
  moreover have "to_u32 (Round peer) < to_u32 (- 1)"
    using assms(5,6) by (simp add: to_u32_def is_i32_def word_less_def uint_word_of_int unsigned_minus_1_eq_mask mask_eq_exp_minus_1)
  ultimately show ?thesis
    using createSyncRequest_fields(1) [OF assms(1)] assms(4) by (simp add: processSyncRequest_def)
qed

lemma response_events_votes:
  "concat (map (response_event p \<circ> RespVote) vs) = [PeerMsg \<lparr>mi_Msg = VoteMessage v, mi_PeerID = p\<rparr>. Some v \<leftarrow> vs]"
proof (induction vs)
  case (Cons v vs)
  then show ?case by (cases v) simp_all
qed simp

section \<open>Properties\<close>

text \<open>C26. A running node that has no proposal for its height catches up by whole blocks. The request it
  makes when its sync timer fires is answered by a peer that is at a later height with the block of
  the node's height, which becomes, through framing and codec, the node's next event; and this event
  takes a node that does not skip the commit timeout to the next height, in the step that waits for
  round 0, on the chain state after the block, when the block is valid, its commit verifies and it
  can be saved and applied. A node that has a proposal is sent precommits instead, as the next
  property says.\<close>

theorem lagging_node_catches_up:
  assumes "startable state" and "initial_ok state" and "new_proposal_ok E"
    and "reachable (default_node E D) cfg state store pv s" and "cs = sys_cs s"
    and "Height cs + 1 \<noteq> 0" and "Proposal cs = None" and "\<not> SkipTimeoutCommit (cs_config cs)"
    and "createSyncRequest (default_node E D) cs = Inr req"
    and "st_InitialHeight (chainState peer) \<le> Height cs" and "Height cs < Height peer"
    and "BlockStore_LoadBlock D' (blockStore peer) (Height cs) = Inr vb"
    and "BlockStore_LoadBlockCommit D' (blockStore peer) (Height cs) = Inr c"
    and "blk_WithCommit E c vb = Inr (Some block)"
    and "EncodeToRLPBytes W (Some block) = Inr bs"
    and "sync_wire_ok W req \<lparr>csr_IsCommited = 1, csr_MessageData = [bs]\<rparr>" and "ps \<noteq> []"
    and "blk_NumberU64 E block = Height cs" and "validateBlock E (chainState cs) block = Inr None"
    and "vals_VerifyCommit E (st_Validators (chainState cs)) (st_ChainID (chainState cs))
        (blk_Hash E block) (Height cs) (blk_HeaderCommit E block) = None"
    and "CommitToVoteSet E (st_ChainID (chainState cs)) (blk_Commit E block) (st_Validators (chainState cs))
        = Inr (Some lc)"
    and "BlockStore_SaveBlock D (blk_NumberU64 E) block (blk_Commit E block) (blockStore cs) = Inr db"
    and "DefaultBlockExecutor_ApplyBlock E (ChainState_Copy E (chainState cs)) block = Inr (Inr st')"
  shows "consensSyncRoutine (connected_host (serve_all (default_node E D') W peer)) W rand_Intn ps req
      = [CommittedBlock block]
    \<and> (\<exists>t. receive_event (default_node E D) (CommittedBlock block) s = Inr t
        \<and> Height (sys_cs t) = Height cs + 1 \<and> Step (sys_cs t) = RoundStepNewHeight
        \<and> chainState (sys_cs t) = st')"
proof -
  have f: "ChainState_Copy (default_node E D) = ChainState_Copy E"
    "CommitToVoteSet (default_node E D) = CommitToVoteSet E" "blk_Commit (default_node E D) = blk_Commit E"
    "blk_WithCommit (default_node E D') = blk_WithCommit E"
    by (simp_all add: default_node_def ext.defs ChainState_Copy_def fun_eq_iff)
  have msgs: "processSyncRequest (default_node E D') req peer = Inr [RespBlock (Some block)]"
    using createSyncRequest_fields [OF assms(9)] assms(7,10-14)
    by (intro processSyncRequest_block) (simp_all add: f)
  have resp: "sync_response_of W [RespBlock (Some block)] = Inr \<lparr>csr_IsCommited = 1, csr_MessageData = [bs]\<rparr>"
    using assms(15) by (simp add: sync_response_of_def)
  have "consensSyncRoutine (connected_host (serve_all (default_node E D') W peer)) W rand_Intn ps req
      = [CommittedBlock block]"
    using consensSyncRoutine_answer [OF msgs resp assms(16,17)] by simp
  moreover have inv: "cs_inv cs"
    using default_reachable_inv [OF assms(1,3,4)] assms(5) by (simp add: system_inv_def)
  have init: "initial_ok (chainState cs)"
    using default_consensus.chain_links_initial [OF default_reachable_chain [OF assms(1,3,4)] assms(2)] assms(5) by simp
  obtain t where "processCommitedBlock (default_node E D) block cs = Inr t"
    "pos t = (Height cs + 1, 0, RoundStepNewHeight)" "chainState t = st'"
    using default_consensus.processCommitedBlock_succeeds
        [OF inv init assms(6), where D = D and E = E and block = block and lc = lc and bs = db and st' = st',
          unfolded f default_node_fields, OF assms(18-21) assms(22,23,8)]
    by blast
  ultimately show ?thesis using assms(5) by (auto simp: pos_def)
qed

text \<open>For the witness: the sample node at its start, and a peer that is one height ahead, with block 1
  in its store.\<close>

definition sample_sync_request :: sync_request where
  "sample_sync_request = \<lparr>sr_Height = 1, sr_Round = 0, sr_HasProposal = 0, sr_PrevotesBitmap = [],
     sr_PrecommitsBitmap = []\<rparr>"

definition sample_sync_answer :: consensus_sync_response where
  "sample_sync_answer = \<lparr>csr_IsCommited = 1, csr_MessageData = [[1]]\<rparr>"

definition sample_asking_wire :: "sample_blk wire" where
  "sample_asking_wire = sample_block_wire
     \<lparr>enc_SyncRequest := (\<lambda>r. if r = sample_sync_request then Inr [2] else Inl IncorrectMsg),
      dec_SyncRequest := (\<lambda>bs. Inr sample_sync_request),
      enc_SyncResponse := (\<lambda>r. if r = sample_sync_answer then Inr [3] else Inl IncorrectMsg),
      dec_SyncResponse := (\<lambda>bs. Inr sample_sync_answer)\<rparr>"

lemma sample_started:
  "\<exists>s. sample_run [] = Some s \<and> Height (sys_cs s) = 1 \<and> Proposal (sys_cs s) = None
     \<and> \<not> SkipTimeoutCommit (cs_config (sys_cs s)) \<and> chainState (sys_cs s) = sample_genesis
     \<and> blockStore (sys_cs s) = Map.empty
     \<and> createSyncRequest sample_node (sys_cs s) = Inr sample_sync_request"
  by (simp add: sample_run_defs state_machine_defs library_defs createSyncRequest_def sample_sync_request_def to_u32_def
      cong: eval_cong)

lemma sample_block_1_steps:
  "st_InitialHeight sample_genesis = 1"
  "\<exists>lc. CommitToVoteSet sample_ext (st_ChainID sample_genesis) (blk_Commit sample_ext sample_committed_block)
     (st_Validators sample_genesis) = Inr (Some lc)"
  "\<exists>db. BlockStore_SaveBlock sample_block_db (blk_NumberU64 sample_ext) sample_committed_block
     (blk_Commit sample_ext sample_committed_block) Map.empty = Inr db"
  "\<exists>st. DefaultBlockExecutor_ApplyBlock sample_ext (ChainState_Copy sample_ext sample_genesis)
     sample_committed_block = Inr (Inr st)"
  by (simp_all add: sample_committed_block_def sample_state_defs cong: eval_cong)

theorem lagging_node_catches_up_witness:
  "\<exists>s t peer. reachable (default_node sample_ext sample_block_db) sample_config sample_genesis Map.empty
         (Some sample_key) s
     \<and> Height (sys_cs s) = 1 \<and> Height peer = 2
     \<and> consensSyncRoutine (connected_host (serve_all (default_node sample_ext sample_sync_db) sample_asking_wire peer))
         sample_asking_wire (\<lambda>n. 0) [''peer''] sample_sync_request = [CommittedBlock sample_committed_block]
     \<and> receive_event (default_node sample_ext sample_block_db) (CommittedBlock sample_committed_block) s = Inr t
     \<and> Height (sys_cs t) = 2"
proof -
  obtain s where r: "sample_run [] = Some s" and s: "Height (sys_cs s) = 1" "Proposal (sys_cs s) = None"
    "\<not> SkipTimeoutCommit (cs_config (sys_cs s))" "chainState (sys_cs s) = sample_genesis"
    "blockStore (sys_cs s) = Map.empty" "createSyncRequest sample_node (sys_cs s) = Inr sample_sync_request"
    using sample_started by (elim exE conjE)
  have reach: "reachable (default_node sample_ext sample_block_db) sample_config sample_genesis Map.empty
      (Some sample_key) s"
    using sample_run_reachable [OF r] by (simp only: sample_node_def)
  have i: "initial_ok sample_genesis" by (simp add: initial_ok_def sample_genesis_def MakeGenesisChainState_def)
  let ?peer = "(sys_cs s)\<lparr>Height := 2, blockStore := sample_peer_db\<rparr>"
  obtain c where c: "sb_Commit sample_committed_block = Some c" by (simp add: sample_committed_block_def)
  have same: "sample_committed_block\<lparr>sb_Commit := Some c\<rparr> = sample_committed_block"
    using c by (cases sample_committed_block) simp
  have load: "BlockStore_LoadBlock sample_sync_db (blockStore ?peer) 1 = Inr (Some sample_committed_block)"
    "BlockStore_LoadBlockCommit sample_sync_db (blockStore ?peer) 1 = Inr (Some c)"
    "blk_WithCommit sample_ext (Some c) (Some sample_committed_block) = Inr (Some sample_committed_block)"
    using c same
    by (simp_all add: BlockStore_LoadBlock_def BlockStore_LoadBlockCommit_def sample_sync_db_def sample_peer_db_def
        sample_ext_def)
  have wire: "sync_wire_ok sample_asking_wire sample_sync_request \<lparr>csr_IsCommited = 1, csr_MessageData = [[1]]\<rparr>"
    by (auto simp: sync_wire_ok_def wire_ok_def sample_asking_wire_def sample_block_wire_def sample_sync_answer_def
        split: if_splits)
  have enc: "EncodeToRLPBytes sample_asking_wire (Some sample_committed_block) = Inr [1]"
    by (simp add: sample_asking_wire_def sample_block_wire_def)
  have h: "Height (sys_cs s) < Height ?peer" using s(1) by (simp add: word_less_nat_alt)
  obtain lc db st where steps: "CommitToVoteSet sample_ext (st_ChainID sample_genesis)
        (blk_Commit sample_ext sample_committed_block) (st_Validators sample_genesis) = Inr (Some lc)"
    "BlockStore_SaveBlock sample_block_db (blk_NumberU64 sample_ext) sample_committed_block
       (blk_Commit sample_ext sample_committed_block) Map.empty = Inr db"
    "DefaultBlockExecutor_ApplyBlock sample_ext (ChainState_Copy sample_ext sample_genesis)
       sample_committed_block = Inr (Inr st)"
    using sample_block_1_steps(2-4) by blast
  have up: "consensSyncRoutine (connected_host (serve_all (default_node sample_ext sample_sync_db) sample_asking_wire
        ?peer)) sample_asking_wire (\<lambda>n. 0) [''peer''] sample_sync_request = [CommittedBlock sample_committed_block]
    \<and> (\<exists>t. receive_event (default_node sample_ext sample_block_db) (CommittedBlock sample_committed_block) s = Inr t
        \<and> Height (sys_cs t) = Height (sys_cs s) + 1 \<and> Step (sys_cs t) = RoundStepNewHeight
        \<and> chainState (sys_cs t) = st)"
    by (rule lagging_node_catches_up [OF sample_hypotheses(1) i sample_hypotheses(2) reach refl])
      (use s h load wire enc steps sample_block_1(1-3) sample_block_1_steps(1) in \<open>simp_all add: sample_node_def\<close>)
  then obtain t where t: "receive_event (default_node sample_ext sample_block_db)
      (CommittedBlock sample_committed_block) s = Inr t" "Height (sys_cs t) = Height (sys_cs s) + 1"
    by blast
  have "Height ?peer = 2" "Height (sys_cs t) = 2" using t(2) s(1) by simp_all
  then show ?thesis using reach s(1) up t(1) by blast
qed


text \<open>For the witness: one validator, vote sets whose bit array says whether it has voted, and a peer
  that has the prevote the node has not.\<close>

definition sample_bits_ext :: sample_ext where
  "sample_bits_ext = sample_ext
     \<lparr>vs_GetByIndex := (\<lambda>vs i. case vs of None \<Rightarrow> None | Some s \<Rightarrow> case svs_votes s of [] \<Rightarrow> None | v # _ \<Rightarrow> Some v),
      vs_BitArray := map_option (\<lambda>s. \<lparr>ba_Bits = int (length (svs_vals s)),
         ba_Elems = [if svs_votes s = [] then 0 else 1]\<rparr>),
      ba_GetIndex := (\<lambda>b i. case b of None \<Rightarrow> False | Some b \<Rightarrow> i = 0 \<and> ba_Elems b = [1])\<rparr>"

definition sample_prevote :: vote where
  "sample_prevote = \<lparr>v_ValidatorAddress = 5, v_ValidatorIndex = 0, v_Height = 1, v_Round = 0,
     v_TimestampMs = 0, v_Type = PrevoteType, v_BlockID = 7, v_Signature = []\<rparr>"

definition sample_vote_set :: "vote list \<Rightarrow> sample_vs" where
  "sample_vote_set vs = \<lparr>svs_vals = [\<lparr>val_Address = 5, val_PubKey = [], val_VotingPower = 10\<rparr>], svs_votes = vs\<rparr>"

definition sample_at ::
  "vote list \<Rightarrow> (validator list, sample_vs, sample_vs, sample_blk, bytes \<Rightarrow> bytes option, priv_validator_local) consensus_state" where
  "sample_at vs = (zero_consensus_state sample_config Map.empty)
     \<lparr>Height := 1, Votes := Some (sample_vote_set vs)\<rparr>"

definition sample_votes_request :: sync_request where
  "sample_votes_request = \<lparr>sr_Height = 1, sr_Round = 0, sr_HasProposal = 0, sr_PrevotesBitmap = [0],
     sr_PrecommitsBitmap = [0]\<rparr>"

definition sample_votes_answer :: consensus_sync_response where
  "sample_votes_answer = \<lparr>csr_IsCommited = 0, csr_MessageData = [[2, 9]]\<rparr>"

definition sample_votes_wire :: "sample_blk wire" where
  "sample_votes_wire = sample_block_wire
     \<lparr>enc_Vote := (\<lambda>v. if v = Some sample_prevote then Inr [9] else Inl IncorrectMsg),
      dec_Vote := (\<lambda>bs. Inr sample_prevote),
      enc_SyncRequest := (\<lambda>r. if r = sample_votes_request then Inr [2] else Inl IncorrectMsg),
      dec_SyncRequest := (\<lambda>bs. Inr sample_votes_request),
      enc_SyncResponse := (\<lambda>r. if r = sample_votes_answer then Inr [3] else Inl IncorrectMsg),
      dec_SyncResponse := (\<lambda>bs. Inr sample_votes_answer)\<rparr>"


end
