(* ===== verification/Gossip.thy ===== *)
theory Gossip
  imports P2P_Codec
begin

text \<open>
  \<open>Server.Run\<close> of \<open>p2p/p2p.go\<close>: the gossip between nodes. A node joins the broadcast topic of its
  network, publishes the proposals and votes its consensus state machine puts out, hands its sync
  requests to \<open>consensSyncRoutine\<close>, and turns what it receives on the topic into events. The pubsub
  library is the record \<open>pubsub\<close>.
\<close>

section \<open>Sending\<close>

text \<open>
  The goroutine that empties \<open>sendC\<close>, on the messages put into it: the calls of \<open>th.Publish\<close> with what
  they returned, the requests passed on to \<open>consensusSyncChan\<close>, and the messages it has not dealt with.
  A message that cannot be encoded, and an error of \<open>th.Publish\<close>, are logged and no more.
  \<open>Publish n data\<close> is what the \<open>n\<close>-th call returns. The channel has no buffer: \<open>ready\<close> is how often
  \<open>consensSyncRoutine\<close> receives from it, and the loop waits forever at a request that comes after
  that, with all later messages behind it.
\<close>

fun send_loop ::
  "'blk wire \<Rightarrow> (nat \<Rightarrow> bytes \<Rightarrow> go_error option) \<Rightarrow> nat \<Rightarrow> nat \<Rightarrow> 'blk message list
     \<Rightarrow> (bytes \<times> go_error option) list \<times> sync_request list \<times> 'blk message list" where
  "send_loop W Publish n ready [] = ([], [], [])"
| "send_loop W Publish n ready (msg # msgs) =
     (case msg of
        SyncRequestMessage req \<Rightarrow>
          (case ready of
             0 \<Rightarrow> ([], [], msg # msgs)
           | Suc ready \<Rightarrow>
               let (calls, reqs, rest) = send_loop W Publish n ready msgs in (calls, req # reqs, rest))
      | _ \<Rightarrow>
          (case publish W msg of
             None \<Rightarrow> send_loop W Publish n ready msgs
           | Some data \<Rightarrow>
               let (calls, reqs, rest) = send_loop W Publish (Suc n) ready msgs
               in ((data, Publish n data) # calls, reqs, rest)))"

section \<open>Receiving\<close>

text \<open>\<open>sub_Next\<close> is what the calls of \<open>Next\<close> have returned so far: an envelope (its sender and its data)
  or an error, which ends the loop.\<close>

record ('ps, 'th, 'sub) pubsub =
  NewGossipSub :: "go_error + 'ps"
  Join_topic :: "'ps \<Rightarrow> string \<Rightarrow> go_error + 'th"
  Subscribe :: "'th \<Rightarrow> go_error + 'sub"
  sub_Next :: "'sub \<Rightarrow> (go_error + string \<times> bytes) list"

fun receive_loop ::
  "'blk wire \<Rightarrow> string \<Rightarrow> (go_error + string \<times> bytes) list \<Rightarrow> go_error option \<times> 'blk event list" where
  "receive_loop W self [] = (None, [])"
| "receive_loop W self (Inl err # envelopes) = (Some (OtherError ''failed to receive pubsub message''), [])"
| "receive_loop W self (Inr (sender, data) # envelopes) =
     (let (err, events) = receive_loop W self envelopes in (err, receive_gossip W self sender data @ events))"

text \<open>\<open>Server.Run\<close>: its error, if it has returned one, and the events it has passed on. Whenever it
  returns, or panics because the pubsub service cannot be made, the root context is cancelled.\<close>

definition Server_Run ::
  "('ps, 'th, 'sub) pubsub \<Rightarrow> 'blk wire \<Rightarrow> string \<Rightarrow> string \<Rightarrow> (go_error option \<times> 'blk event list) res" where
  "Server_Run P W networkID self =
     (let topic = networkID @ ''/'' @ ''broadcast'' in
      case NewGossipSub P of
        Inl err \<Rightarrow> Inl GossipSubFailed
      | Inr ps \<Rightarrow>
          (case Join_topic P ps topic of
             Inl err \<Rightarrow> Inr (Some (OtherError ''failed to join topic''), [])
           | Inr th \<Rightarrow>
               (case Subscribe P th of
                  Inl err \<Rightarrow> Inr (Some (OtherError ''failed to subscribe topic''), [])
                | Inr sub \<Rightarrow> Inr (receive_loop W self (sub_Next P sub)))))"

section \<open>From node to node\<close>

text \<open>The messages that a correct node gossips: proposals and votes that pass \<open>ValidateBasic\<close>.\<close>

fun gossiped :: "'blk wire \<Rightarrow> 'blk message \<Rightarrow> bool" where
  "gossiped W (ProposalMessage p) = (proposal_ValidateBasic W p = None)"
| "gossiped W (VoteMessage v) = (vote_ValidateBasic W v = None)"
| "gossiped W (SyncRequestMessage req) = True"

lemma receive_published:
  assumes "wire_ok W" and "gossiped W msg" and "publish W msg = Some data" and "sender \<noteq> self"
  shows "receive_gossip W self sender data = [PeerMsg \<lparr>mi_Msg = msg, mi_PeerID = sender\<rparr>]"
proof (cases msg)
  case (ProposalMessage p)
  then have "encode W (PtrProposal (Some p)) = Inr data"
    using assms(3) by (auto simp: publish_def split: sum.splits)
  then show ?thesis
    using deliver_data_encode [OF assms(1), of "PtrProposal (Some p)" data sender] assms(2,4) ProposalMessage
    by (simp add: receive_gossip_def)
next
  case (VoteMessage v)
  then have "encode W (PtrVote (Some v)) = Inr data"
    using assms(3) by (auto simp: publish_def split: sum.splits)
  then show ?thesis
    using deliver_data_encode [OF assms(1), of "PtrVote (Some v)" data sender] assms(2,4) VoteMessage
    by (simp add: receive_gossip_def)
qed (use assms(3) in \<open>simp add: publish_def\<close>)

text \<open>What the send loop makes of the messages it has dealt with: the data of those that can be encoded,
  and the requests.\<close>

definition publications :: "'blk wire \<Rightarrow> 'blk message list \<Rightarrow> bytes list" where
  "publications W msgs = concat (map (\<lambda>m. case publish W m of None \<Rightarrow> [] | Some data \<Rightarrow> [data]) msgs)"

definition requests :: "'blk message list \<Rightarrow> sync_request list" where
  "requests msgs = concat (map (\<lambda>m. case m of SyncRequestMessage req \<Rightarrow> [req] | _ \<Rightarrow> []) msgs)"

lemma publications_simps [simp]:
  "publications W [] = []"
  "publications W (m # ms) = (case publish W m of None \<Rightarrow> [] | Some data \<Rightarrow> [data]) @ publications W ms"
  "requests [] = []"
  "requests (m # ms) = (case m of SyncRequestMessage req \<Rightarrow> [req] | _ \<Rightarrow> []) @ requests ms"
  by (simp_all add: publications_def requests_def)

lemma publications_in: "data \<in> set (publications W msgs) \<longleftrightarrow> (\<exists>m\<in>set msgs. publish W m = Some data)"
  by (induction msgs) (auto split: option.splits)

lemma publish_request [simp]: "publish W (SyncRequestMessage req) = None"
  by (simp add: publish_def)

text \<open>The messages dealt with are a beginning of those put in; it ends early at a request that nobody
  receives. What \<open>th.Publish\<close> returns changes nothing.\<close>

lemma send_loop_sent:
  assumes "send_loop W Publish n ready msgs = (calls, reqs, rest)"
  shows "\<exists>dealt. msgs = dealt @ rest \<and> map fst calls = publications W dealt \<and> reqs = requests dealt
    \<and> (rest = [] \<or> (\<exists>req later. rest = SyncRequestMessage req # later \<and> length (requests dealt) = ready))"
  using assms
proof (induction msgs arbitrary: n ready calls reqs rest)
  case (Cons m msgs)
  show ?case
  proof (cases "\<exists>req. m = SyncRequestMessage req \<and> ready = 0")
    case True
    then show ?thesis using Cons.prems by (intro exI [of _ "[]"]) auto
  next
    case False
    obtain n' ready' cs rs where r: "send_loop W Publish n' ready' msgs = (cs, rs, rest)"
      and c: "map fst calls = publications W [m] @ map fst cs" "reqs = requests [m] @ rs"
      and k: "ready = length (requests [m]) + ready'"
      using Cons.prems False
      by (cases m; cases ready; cases "publish W m") (auto split: prod.splits option.splits)
    obtain dealt where "msgs = dealt @ rest" "map fst cs = publications W dealt" "rs = requests dealt"
      "rest = [] \<or> (\<exists>req later. rest = SyncRequestMessage req # later \<and> length (requests dealt) = ready')"
      using Cons.IH [OF r] by blast
    then show ?thesis using c k by (intro exI [of _ "m # dealt"]) auto
  qed
qed simp

lemma receive_loop_all:
  "receive_loop W self (map Inr envelopes)
     = (None, concat (map (\<lambda>(q, data). receive_gossip W self q data) envelopes))"
  by (induction envelopes) (auto simp: case_prod_beta)

lemma correct_envelopes:
  assumes "wire_ok W" and "\<forall>q\<in>correct. \<forall>m\<in>set (outbox q). gossiped W m" and "self \<notin> correct"
    and "\<And>q data. (q, data) \<in> set envelopes \<Longrightarrow> q \<in> correct \<Longrightarrow> \<exists>m\<in>set (outbox q). publish W m = Some data"
  shows "\<exists>ms. list_all2 (\<lambda>(q, data) m. q \<in> correct \<longrightarrow> m \<in> set (outbox q) \<and> publish W m = Some data) envelopes ms
      \<and> concat (map (\<lambda>(q, data). receive_gossip W self q data) envelopes)
        = concat (map2 (\<lambda>(q, data) m. if q \<in> correct then [PeerMsg \<lparr>mi_Msg = m, mi_PeerID = q\<rparr>]
            else receive_gossip W self q data) envelopes ms)"
  using assms(4)
proof (induction envelopes)
  case (Cons e envelopes)
  obtain q data where e: "e = (q, data)" by (cases e)
  obtain m where m: "q \<in> correct \<longrightarrow> m \<in> set (outbox q) \<and> publish W m = Some data"
    using Cons.prems [of q data] e by auto
  have one: "receive_gossip W self q data = [PeerMsg \<lparr>mi_Msg = m, mi_PeerID = q\<rparr>]" if "q \<in> correct"
    using m that assms(2,3) by (intro receive_published [OF assms(1)]) auto
  obtain ms where "list_all2 (\<lambda>(q, data) m. q \<in> correct \<longrightarrow> m \<in> set (outbox q) \<and> publish W m = Some data) envelopes ms"
    "concat (map (\<lambda>(q, data). receive_gossip W self q data) envelopes)
      = concat (map2 (\<lambda>(q, data) m. if q \<in> correct then [PeerMsg \<lparr>mi_Msg = m, mi_PeerID = q\<rparr>]
          else receive_gossip W self q data) envelopes ms)"
    using Cons.IH Cons.prems by auto
  then show ?case using e m one by (intro exI [of _ "m # ms"]) auto
qed simp

section \<open>Property\<close>

text \<open>C31. What gossip brings is what was sent. Each node hands the proposals and votes its consensus
  state machine puts out, those that can be encoded and in their order, to \<open>th.Publish\<close>, and its sync
  requests to \<open>consensSyncRoutine\<close> alone; errors of \<open>th.Publish\<close> do not matter, but a request that is
  never received holds up all that comes after it. Of the pubsub library only this is relied on: an
  envelope in the name of one of the \<open>correct\<close> nodes carries something that node has handed to
  \<open>th.Publish\<close>. Envelopes may be lost, repeated, reordered or mixed with any data of other senders;
  still every envelope of a correct node, none of which is the receiver itself, becomes exactly one
  event, in its place among the others: a proposal or vote that this node's consensus state machine
  has put out, under the node's name, when what it puts out passes \<open>ValidateBasic\<close>.\<close>

theorem gossip_brings_what_was_sent:
  assumes "wire_ok W" and "\<forall>q\<in>correct. \<forall>m\<in>set (outbox q). gossiped W m" and "self \<notin> correct"
    and "\<forall>q\<in>correct. send_loop W (Publish q) 0 (ready q) (outbox q) = (calls q, reqs q, rest q)"
    and "NewGossipSub P = Inr ps" and "Join_topic P ps (networkID @ ''/broadcast'') = Inr th"
    and "Subscribe P th = Inr sub" and "sub_Next P sub = map Inr envelopes"
    and "\<forall>(q, data)\<in>set envelopes. q \<in> correct \<longrightarrow> data \<in> fst ` set (calls q)"
  shows "(\<forall>q\<in>correct. \<exists>dealt. outbox q = dealt @ rest q
        \<and> map fst (calls q) = publications W dealt \<and> reqs q = requests dealt
        \<and> (rest q = [] \<or> (\<exists>req later. rest q = SyncRequestMessage req # later \<and> length (reqs q) = ready q)))
    \<and> (\<exists>ms. list_all2 (\<lambda>(q, data) m. q \<in> correct \<longrightarrow> m \<in> set (outbox q) \<and> publish W m = Some data) envelopes ms
        \<and> Server_Run P W networkID self = Inr (None,
            concat (map2 (\<lambda>(q, data) m. if q \<in> correct then [PeerMsg \<lparr>mi_Msg = m, mi_PeerID = q\<rparr>]
              else receive_gossip W self q data) envelopes ms)))"
proof
  have "\<exists>dealt. outbox q = dealt @ rest q \<and> map fst (calls q) = publications W dealt \<and> reqs q = requests dealt
      \<and> (rest q = [] \<or> (\<exists>req later. rest q = SyncRequestMessage req # later \<and> length (requests dealt) = ready q))"
    if "q \<in> correct" for q
    using assms(4) that by (intro send_loop_sent [where Publish = "Publish q" and n = 0]) simp
  then show sent: "\<forall>q\<in>correct. \<exists>dealt. outbox q = dealt @ rest q
      \<and> map fst (calls q) = publications W dealt \<and> reqs q = requests dealt
      \<and> (rest q = [] \<or> (\<exists>req later. rest q = SyncRequestMessage req # later \<and> length (reqs q) = ready q))"
    by fastforce
  have "\<exists>m\<in>set (outbox q). publish W m = Some data" if e: "(q, data) \<in> set envelopes" and q: "q \<in> correct" for q data
  proof -
    obtain dealt where "outbox q = dealt @ rest q" "map fst (calls q) = publications W dealt"
      using sent q by blast
    moreover have "data \<in> set (map fst (calls q))" using assms(9) e q by auto
    ultimately show ?thesis by (auto simp: publications_in)
  qed
  note correct_envelopes [OF assms(1-3) this, of envelopes]
  then show "\<exists>ms. list_all2 (\<lambda>(q, data) m. q \<in> correct \<longrightarrow> m \<in> set (outbox q) \<and> publish W m = Some data) envelopes ms
        \<and> Server_Run P W networkID self = Inr (None,
            concat (map2 (\<lambda>(q, data) m. if q \<in> correct then [PeerMsg \<lparr>mi_Msg = m, mi_PeerID = q\<rparr>]
              else receive_gossip W self q data) envelopes ms))"
    using assms(5-8) by (simp add: Server_Run_def receive_loop_all)
qed

text \<open>The witness: a node puts out a vote, a request that is never received, and a proposal; another gets
  the vote twice, with data it cannot decode in between.\<close>

definition sample_pubsub :: "(unit, string, string) pubsub" where
  "sample_pubsub =
     \<lparr>NewGossipSub = Inr (), Join_topic = (\<lambda>ps topic. Inr topic), Subscribe = Inr,
      sub_Next = (\<lambda>sub. if sub = ''net/broadcast''
        then map Inr [(''p'', 2 # PutUint64 7), (''x'', []), (''p'', 2 # PutUint64 7)] else [])\<rparr>"

definition sample_outbox :: "u64 message list" where
  "sample_outbox = [VoteMessage (sample_wire_vote 7),
     SyncRequestMessage \<lparr>sr_Height = 1, sr_Round = 0, sr_HasProposal = 0, sr_PrevotesBitmap = [], sr_PrecommitsBitmap = []\<rparr>,
     ProposalMessage (sample_wire_proposal 3)]"

theorem gossip_brings_what_was_sent_witness:
  "Server_Run sample_pubsub sample_wire ''net'' ''q'' = Inr (None,
     [PeerMsg \<lparr>mi_Msg = VoteMessage (sample_wire_vote 7), mi_PeerID = ''p''\<rparr>,
      PeerMsg \<lparr>mi_Msg = VoteMessage (sample_wire_vote 7), mi_PeerID = ''p''\<rparr>])"
proof -
  let ?es = "[(''p'', 2 # PutUint64 7), (''x'', []), (''p'', 2 # PutUint64 7)]"
  have p: "publish sample_wire (VoteMessage (sample_wire_vote 7)) = Some (2 # PutUint64 7)"
    "publish sample_wire (ProposalMessage (sample_wire_proposal 3)) = Some (1 # PutUint64 3)"
    by (simp_all add: publish_def encode_def encodeVote_def encodeProposal_def sample_wire_def sample_wire_vote_def
        sample_wire_proposal_def)
  have loop: "send_loop sample_wire (\<lambda>n data. Some (OtherError ''publish'')) 0 0 sample_outbox
      = ([(2 # PutUint64 7, Some (OtherError ''publish''))], [], tl sample_outbox)"
    by (simp add: sample_outbox_def p)
  have ok: "\<forall>q\<in>{''p''}. \<forall>m\<in>set sample_outbox. gossiped sample_wire m"
    by (simp add: sample_outbox_def sample_wire_def)
  have join: "NewGossipSub sample_pubsub = Inr ()" "Join_topic sample_pubsub () (''net'' @ ''/broadcast'') = Inr ''net/broadcast''"
    "Subscribe sample_pubsub ''net/broadcast'' = Inr ''net/broadcast''"
    by (simp_all add: sample_pubsub_def)
  have envs: "sub_Next sample_pubsub ''net/broadcast'' = map Inr ?es" by (simp add: sample_pubsub_def)
  obtain ms where ms: "list_all2 (\<lambda>(q, data) m. q \<in> {''p''} \<longrightarrow> m \<in> set sample_outbox
        \<and> publish sample_wire m = Some data) ?es ms"
    and run: "Server_Run sample_pubsub sample_wire ''net'' ''q'' = Inr (None,
        concat (map2 (\<lambda>(q, data) m. if q \<in> {''p''} then [PeerMsg \<lparr>mi_Msg = m, mi_PeerID = q\<rparr>]
          else receive_gossip sample_wire ''q'' q data) ?es ms))"
    using conjunct2 [OF gossip_brings_what_was_sent [where outbox = "\<lambda>q. sample_outbox" and ready = "\<lambda>q. 0"
          and Publish = "\<lambda>q n data. Some (OtherError ''publish'')" and self = "''q''"
          and calls = "\<lambda>q. [(2 # PutUint64 7, Some (OtherError ''publish''))]" and reqs = "\<lambda>q. []"
          and rest = "\<lambda>q. tl sample_outbox", OF sample_wire_ok ok _ _ join envs]] loop
    by auto
  have "receive_gossip sample_wire ''q'' ''x'' [] = []"
    by (simp add: receive_gossip_def deliver_data_def decode_def)
  then show ?thesis
    using run ms by (auto simp: list_all2_Cons1 sample_outbox_def p)
qed

end
