(* ===== verification/CS_Evidence.thy ===== *)
theory CS_Evidence
  imports CS_Commit_Rules
begin

text \<open>
  The locking discipline of a validator, which agreement rests on: a node that precommits a block
  stays locked on it, and prevotes for nothing else in later rounds, until it has seen more than two
  thirds of the prevotes of a later round for something else.

  What the node has seen is held in vote sets of a package outside the repository, so the discipline
  is stated over evidence: the record \<open>evidence\<close> names what a majority of prevotes and of precommits
  in a vote set stands for, which vote sets, votes and committed blocks may be trusted for it, and the
  votes the node had signed before; \<open>evidence_ok\<close> is what the package is relied on for. \<open>Agreement\<close>
  instantiates it with the votes that the validators of a network have signed. This theory holds the invariant and what signing a vote
  and changing the lock do to it; \<open>CS_Locks\<close> shows that every handler keeps it.
\<close>

section \<open>Evidence\<close>

record ('val, 'hvs, 'blk) evidence =
  ev_polka :: "u64 \<Rightarrow> int \<Rightarrow> hash \<Rightarrow> bool"
  ev_majority :: "u64 \<Rightarrow> int \<Rightarrow> hash \<Rightarrow> bool"
  ev_backed :: "u64 \<Rightarrow> 'hvs option \<Rightarrow> bool"
  ev_known :: "'val chain_state \<Rightarrow> bool"
  ev_genuine :: "vote \<Rightarrow> bool"
  ev_certified :: "'blk \<Rightarrow> bool"
  ev_signed :: "vote list"

text \<open>What the code relies on of \<open>FullBlock.HashTo\<close>: it compares the hash of a block that is not
  \<open>nil\<close>.\<close>

definition hash_to_ok :: "('val, 'vs, 'hvs, 'blk, 'e) ext_scheme \<Rightarrow> bool" where
  "hash_to_ok E \<longleftrightarrow> (\<forall>b h. blk_HashTo E b h \<longrightarrow> (\<exists>x. b = Some x \<and> blk_Hash E x = h))"

text \<open>What it relies on of the vote sets, for the evidence \<open>A\<close>: majorities of a backed set are
  evidence, a new set of a known chain state is backed, and adding a genuine vote or tracking a
  new round keeps it backed; and of \<open>VerifyCommit\<close> and \<open>ApplyBlock\<close>.\<close>

definition vote_sets_ok ::
  "('val, 'vs, 'hvs, 'blk, 'e) ext_scheme \<Rightarrow> ('val, 'hvs, 'blk) evidence \<Rightarrow> bool" where
  "vote_sets_ok E A \<longleftrightarrow>
     (\<forall>h vs r b. ev_backed A h vs \<longrightarrow> vs_TwoThirdsMajority E (hvs_Prevotes E vs r) = (b, True)
        \<longrightarrow> ev_polka A h r b)
     \<and> (\<forall>h vs r b. ev_backed A h vs \<longrightarrow> vs_TwoThirdsMajority E (hvs_Precommits E vs r) = (b, True)
        \<longrightarrow> ev_majority A h r b)
     \<and> (\<forall>h vs n vs'. ev_backed A h vs \<longrightarrow> hvs_SetRound E n vs = Inr vs' \<longrightarrow> ev_backed A h vs')
     \<and> (\<forall>h vs v p r vs'. ev_backed A h vs \<longrightarrow> v_Height v = h \<longrightarrow> ev_genuine A v
        \<longrightarrow> hvs_AddVote E v p vs = Inr (r, vs') \<longrightarrow> ev_backed A h vs')
     \<and> (\<forall>st. ev_known A st \<longrightarrow> ev_backed A (next_height st)
        (Some (NewHeightVoteSet E (st_ChainID st) (next_height st) (st_Validators st))))"

definition commits_ok ::
  "('val, 'vs, 'hvs, 'blk, 'bs, 'pv) node \<Rightarrow> ('val, 'hvs, 'blk) evidence \<Rightarrow> bool" where
  "commits_ok E A \<longleftrightarrow>
     (\<forall>st b h. ev_known A st \<longrightarrow> ev_certified A b
        \<longrightarrow> vals_VerifyCommit E (st_Validators st) (st_ChainID st) (blk_Hash E b) h (blk_HeaderCommit E b) = None
        \<longrightarrow> (\<exists>r. ev_majority A h r (blk_Hash E b)))
     \<and> (\<forall>st b st'. ev_known A st \<longrightarrow> be_ApplyBlock E (ChainState_Copy E st) b = Inr (Inr st')
        \<longrightarrow> ev_known A st')"

definition evidence_ok ::
  "('val, 'vs, 'hvs, 'blk, 'bs, 'pv) node \<Rightarrow> ('val, 'hvs, 'blk) evidence \<Rightarrow> bool" where
  "evidence_ok E A \<longleftrightarrow> hash_to_ok E \<and> vote_sets_ok E A \<and> commits_ok E A"

lemma hash_to: "evidence_ok E A \<Longrightarrow> blk_HashTo E b h \<Longrightarrow> \<exists>x. b = Some x \<and> blk_Hash E x = h"
  by (simp add: evidence_ok_def hash_to_ok_def)

lemma polka:
  "evidence_ok E A \<Longrightarrow> ev_backed A h vs
     \<Longrightarrow> vs_TwoThirdsMajority E (hvs_Prevotes E vs r) = (b, True) \<Longrightarrow> ev_polka A h r b"
  unfolding evidence_ok_def vote_sets_ok_def by blast

lemma majority:
  "evidence_ok E A \<Longrightarrow> ev_backed A h vs
     \<Longrightarrow> vs_TwoThirdsMajority E (hvs_Precommits E vs r) = (b, True) \<Longrightarrow> ev_majority A h r b"
  unfolding evidence_ok_def vote_sets_ok_def by blast

lemma backed_SetRound:
  "evidence_ok E A \<Longrightarrow> ev_backed A h vs \<Longrightarrow> hvs_SetRound E n vs = Inr vs' \<Longrightarrow> ev_backed A h vs'"
  unfolding evidence_ok_def vote_sets_ok_def by blast

lemma backed_AddVote:
  "evidence_ok E A \<Longrightarrow> ev_backed A (v_Height v) vs \<Longrightarrow> ev_genuine A v
     \<Longrightarrow> hvs_AddVote E v p vs = Inr (r, vs') \<Longrightarrow> ev_backed A (v_Height v) vs'"
  unfolding evidence_ok_def vote_sets_ok_def by (cases r) blast

lemma backed_new:
  "evidence_ok E A \<Longrightarrow> ev_known A st \<Longrightarrow> ev_backed A (next_height st)
     (Some (NewHeightVoteSet E (st_ChainID st) (next_height st) (st_Validators st)))"
  unfolding evidence_ok_def vote_sets_ok_def by blast

lemma certified:
  "evidence_ok E A \<Longrightarrow> ev_known A st \<Longrightarrow> ev_certified A b
     \<Longrightarrow> vals_VerifyCommit E (st_Validators st) (st_ChainID st) (blk_Hash E b) h (blk_HeaderCommit E b) = None
     \<Longrightarrow> \<exists>r. ev_majority A h r (blk_Hash E b)"
  unfolding evidence_ok_def commits_ok_def by blast

lemma known_apply:
  "evidence_ok E A \<Longrightarrow> ev_known A st \<Longrightarrow> be_ApplyBlock E (ChainState_Copy E st) b = Inr (Inr st')
     \<Longrightarrow> ev_known A st'"
  unfolding evidence_ok_def commits_ok_def by blast

section \<open>The invariant\<close>

text \<open>Between the rounds \<open>r\<close> and \<open>r2\<close> there was a polka for something other than \<open>b\<close>.\<close>

definition moved_on :: "('val, 'hvs, 'blk) evidence \<Rightarrow> u64 \<Rightarrow> int \<Rightarrow> hash \<Rightarrow> int \<Rightarrow> bool" where
  "moved_on A h r b r2 \<longleftrightarrow> (\<exists>r' b'. r < r' \<and> r' \<le> r2 \<and> ev_polka A h r' b' \<and> b' \<noteq> b)"

lemma moved_onI: "r < r' \<Longrightarrow> r' \<le> r2 \<Longrightarrow> ev_polka A h r' b' \<Longrightarrow> b' \<noteq> b \<Longrightarrow> moved_on A h r b r2"
  unfolding moved_on_def by blast

lemma moved_on_mono: "moved_on A h r b r2 \<Longrightarrow> r2 \<le> r3 \<Longrightarrow> moved_on A h r b r3"
  by (auto simp: moved_on_def intro: order_trans)

definition block_precommit :: "vote \<Rightarrow> bool" where
  "block_precommit v \<longleftrightarrow> v_Type v = PrecommitType \<and> v_BlockID v \<noteq> 0"

text \<open>The votes that wait in the queue for our own messages.\<close>

definition queued_votes :: "('val, 'vs, 'hvs, 'blk, 'bs, 'pv) consensus_state \<Rightarrow> vote set" where
  "queued_votes cs =
     {v. \<exists>mi \<in> set (internalMsgQueue cs) \<union> set (internalOverflow cs). mi_Msg mi = VoteMessage v}"

text \<open>The node \<open>a\<close> signs with its own key, in the order of positions, and queues what it signed.\<close>

definition own_votes ::
  "('val, 'vs, 'hvs, 'blk, 'bs, 'pv) node \<Rightarrow> address
     \<Rightarrow> ('val, 'vs, 'hvs, 'blk, 'bs, 'pv) consensus_state \<Rightarrow> bool" where
  "own_votes E a cs \<longleftrightarrow>
     (\<forall>k. privValidatorPubKey cs = Some k \<longrightarrow> pubkey_Address k = a)
     \<and> (\<forall>pv k. privValidator cs = Some pv \<longrightarrow> pv_GetPubKey E pv = Inr k \<longrightarrow> pubkey_Address k = a)
     \<and> (\<forall>v\<in>set (signedVotes cs). v_ValidatorAddress v = a)
     \<and> queued_votes cs \<subseteq> set (signedVotes cs)
     \<and> sorted_wrt (\<lambda>v w. vote_pos v \<le> vote_pos w) (signedVotes cs)"

text \<open>Every precommit for a block had a polka, and the node is still locked on the block or has seen
  a later polka for something else.\<close>

definition precommits_hold ::
  "('val, 'vs, 'hvs, 'blk, 'bs, 'pv) node \<Rightarrow> ('val, 'hvs, 'blk) evidence
     \<Rightarrow> ('val, 'vs, 'hvs, 'blk, 'bs, 'pv) consensus_state \<Rightarrow> bool" where
  "precommits_hold E A cs \<longleftrightarrow>
     (\<forall>v\<in>set (signedVotes cs). block_precommit v \<longrightarrow>
        ev_polka A (v_Height v) (v_Round v) (v_BlockID v)
        \<and> (v_Height v = Height cs \<longrightarrow>
             (v_Round v \<le> LockedRound cs \<and> blk_HashTo E (LockedBlock cs) (v_BlockID v))
             \<or> moved_on A (Height cs) (v_Round v) (v_BlockID v) (Round cs)))"

text \<open>A prevote in a later round is for the block that was precommitted, unless there was a polka for
  something else in between.\<close>

definition prevotes_follow ::
  "('val, 'hvs, 'blk) evidence \<Rightarrow> vote list \<Rightarrow> bool" where
  "prevotes_follow A vs \<longleftrightarrow>
     (\<forall>v\<in>set vs. \<forall>w\<in>set vs. block_precommit v \<longrightarrow> v_Type w = PrevoteType
        \<longrightarrow> v_Height w = v_Height v \<longrightarrow> v_Round v < v_Round w
        \<longrightarrow> v_BlockID w = v_BlockID v \<or> moved_on A (v_Height v) (v_Round v) (v_BlockID v) (v_Round w))"

definition lock_shape :: "('val, 'vs, 'hvs, 'blk, 'bs, 'pv) consensus_state \<Rightarrow> bool" where
  "lock_shape cs \<longleftrightarrow> (LockedBlock cs = None \<longleftrightarrow> LockedRound cs = -1) \<and> LockedRound cs \<le> Round cs"

text \<open>The last block of the chain had a majority of precommits.\<close>

definition decided :: "('val, 'hvs, 'blk) evidence \<Rightarrow> 'val chain_state \<Rightarrow> bool" where
  "decided A st \<longleftrightarrow> st_LastBlockHeight st = 0
     \<or> (\<exists>r. ev_majority A (st_LastBlockHeight st) r (st_LastBlockID st))"

text \<open>Votes are never taken back.\<close>

definition votes_extend ::
  "('val, 'hvs, 'blk) evidence \<Rightarrow> ('val, 'vs, 'hvs, 'blk, 'bs, 'pv) consensus_state \<Rightarrow> bool" where
  "votes_extend A cs \<longleftrightarrow> (\<exists>vs. signedVotes cs = ev_signed A @ vs)"

definition lock_inv ::
  "('val, 'vs, 'hvs, 'blk, 'bs, 'pv) node \<Rightarrow> ('val, 'hvs, 'blk) evidence \<Rightarrow> address
     \<Rightarrow> ('val, 'vs, 'hvs, 'blk, 'bs, 'pv) consensus_state \<Rightarrow> bool" where
  "lock_inv E A a cs \<longleftrightarrow> own_votes E a cs \<and> precommits_hold E A cs \<and> prevotes_follow A (signedVotes cs)
     \<and> lock_shape cs \<and> ev_backed A (Height cs) (Votes cs) \<and> ev_known A (chainState cs)
     \<and> decided A (chainState cs) \<and> votes_extend A cs"

text \<open>Both invariants.\<close>

definition safe ::
  "('val, 'vs, 'hvs, 'blk, 'bs, 'pv) node \<Rightarrow> ('val, 'hvs, 'blk) evidence \<Rightarrow> address
     \<Rightarrow> ('val, 'vs, 'hvs, 'blk, 'bs, 'pv) consensus_state \<Rightarrow> bool" where
  "safe E A a cs \<longleftrightarrow> cs_inv cs \<and> lock_inv E A a cs"

lemma safe_parts: "safe E A a cs \<Longrightarrow> cs_inv cs" "safe E A a cs \<Longrightarrow> lock_inv E A a cs"
  by (simp_all add: safe_def)

section \<open>Fields that the helpers leave alone\<close>

definition lock_view where
  "lock_view (cs :: ('val, 'vs, 'hvs, 'blk, 'bs, 'pv) consensus_state) = (LockedRound cs, LockedBlock cs, Votes cs, signedVotes cs, queued_votes cs, Height cs,
     chainState cs, privValidator cs, privValidatorPubKey cs)"

lemma lock_inv_frame:
  assumes "lock_view t = lock_view cs" and "Round cs \<le> Round t" and "lock_inv E A a cs"
  shows "lock_inv E A a t"
  using assms
  by (auto simp: lock_inv_def lock_view_def own_votes_def precommits_hold_def lock_shape_def votes_extend_def
      intro: moved_on_mono)

lemma safe_frame:
  assumes "lock_view t = lock_view cs" and "stays cs t" and "safe E A a cs"
  shows "safe E A a t"
proof -
  have "Round cs \<le> Round t" using assms(2) by (auto simp: stays_def pos_def less_eq_prod_def less_prod_def)
  then show ?thesis using assms lock_inv_frame by (auto simp: safe_def stays_def)
qed

lemma safe_core_frame:
  assumes "lock_view t = lock_view cs" and "core t = core cs" and "safe E A a cs"
  shows "safe E A a t"
  using safe_frame [OF assms(1) core_stays [OF assms(2)] assms(3)] assms(3) by (simp add: safe_def)

lemma queued_sendInternal:
  "queued_votes (sendInternalMessage mi cs) = queued_votes cs \<union> {v. mi_Msg mi = VoteMessage v}"
  by (auto simp: queued_votes_def sendInternalMessage_def)

lemma lock_view_basic [simp]:
  "lock_view (newStep cs) = lock_view cs"
  "lock_view (scheduleTimeout d h r s cs) = lock_view cs"
  "lock_view (broadcastMessageToPeers m cs) = lock_view cs"
  "lock_view (updateRoundStep r s cs) = lock_view cs"
  "lock_view (scheduleRound0 E rs cs) = lock_view cs"
  "lock_view (snd (CanonicalNow E cs)) = lock_view cs"
  "lock_view (setProposal_valid E hsh b cs) = lock_view cs"
  by (simp_all add: lock_view_def machine_defs scheduleRound0_def CanonicalNow_def queued_votes_def
      setProposal_valid_def)

lemma lock_view_proposal [simp]:
  "lock_view (sendInternalMessage \<lparr>mi_Msg = ProposalMessage p, mi_PeerID = []\<rparr> cs) = lock_view cs"
  by (simp add: lock_view_def queued_sendInternal) (simp add: sendInternalMessage_def)

lemma lock_view_updates [simp]:
  "lock_view (cs\<lparr>Proposal := x1\<rparr>) = lock_view cs"
  "lock_view (cs\<lparr>ProposalBlock := x2\<rparr>) = lock_view cs"
  "lock_view (cs\<lparr>LastCommit := x3\<rparr>) = lock_view cs"
  "lock_view (cs\<lparr>CommitTime := x4\<rparr>) = lock_view cs"
  "lock_view (cs\<lparr>CommitRound := x5\<rparr>) = lock_view cs"
  "lock_view (cs\<lparr>TriggeredTimeoutPrecommit := x6\<rparr>) = lock_view cs"
  "lock_view (cs\<lparr>blockStore := x7\<rparr>) = lock_view cs"
  "lock_view (cs\<lparr>Validators := x8\<rparr>) = lock_view cs"
  "lock_view (cs\<lparr>signedProposals := x9\<rparr>) = lock_view cs"
  "lock_view (cs\<lparr>ValidRound := x10\<rparr>) = lock_view cs"
  "lock_view (cs\<lparr>ValidBlock := x11\<rparr>) = lock_view cs"
  "lock_view (cs\<lparr>tickChan := x12\<rparr>) = lock_view cs"
  by (simp_all add: lock_view_def queued_votes_def)

section \<open>Signing\<close>

text \<open>\<open>signAddVote\<close> adds at most one vote: of the type and for the block it is given, at the current
  height and round, with the node's own address; what it queues it has signed.\<close>

definition signed_own ::
  "address \<Rightarrow> SignedMsgType \<Rightarrow> hash \<Rightarrow> ('val, 'vs, 'hvs, 'blk, 'bs, 'pv) consensus_state
     \<Rightarrow> ('val, 'vs, 'hvs, 'blk, 'bs, 'pv) consensus_state \<Rightarrow> bool" where
  "signed_own a T h cs t \<longleftrightarrow>
     (\<exists>vs. signedVotes t = signedVotes cs @ vs
       \<and> (vs = [] \<or> (\<exists>v. vs = [v] \<and> vote_key v = (Height cs, Round cs, T) \<and> v_BlockID v = h
            \<and> v_ValidatorAddress v = a))
       \<and> queued_votes t \<subseteq> queued_votes cs \<union> set vs
       \<and> lock_view t = lock_view (cs\<lparr>signedVotes := signedVotes t, internalMsgQueue := internalMsgQueue t,
            internalOverflow := internalOverflow t\<rparr>)
       \<and> Round t = Round cs)"

lemma signed_own_refl: "signed_own a T h cs cs"
  by (auto simp: signed_own_def)

lemma voteTime_view:
  "voteTime E cs = (tm, t) \<Longrightarrow> t = cs\<lparr>cs_clock := Suc (cs_clock cs)\<rparr>"
  by (simp add: voteTime_def CanonicalNowMs_def Let_def)

context consensus_node
begin

lemma signVote_own:
  assumes "signVote N pv T h cs = (r, t)" and "\<forall>k. privValidatorPubKey cs = Some k \<longrightarrow> pubkey_Address k = a"
  shows "t = cs \<and> (\<exists>e. r = Inl e) \<or>
    (\<exists>v k. t = cs\<lparr>cs_clock := k, signedVotes := signedVotes cs @ [v]\<rparr> \<and> vote_key v = (Height cs, Round cs, T)
       \<and> v_BlockID v = h \<and> v_ValidatorAddress v = a \<and> (\<forall>w. r = Inr w \<longrightarrow> w = v))"
proof (cases "privValidatorPubKey cs")
  case None
  then have "t = cs" "r = Inl ErrPubKeyIsNotSet" using assms(1) by (simp_all add: signVote_def)
  then show ?thesis by simp
next
  case (Some k)
  obtain tm cs1 where vt: "voteTime N cs = (tm, cs1)" by fastforce
  have cs1: "cs1 = cs\<lparr>cs_clock := Suc (cs_clock cs)\<rparr>" by (rule voteTime_view [OF vt])
  obtain now cs2 where cn: "CanonicalNow N cs1 = (now, cs2)" by fastforce
  then have cs2: "cs2 = cs\<lparr>cs_clock := Suc (Suc (cs_clock cs))\<rparr>" using cs1 by (simp add: CanonicalNow_def)
  let ?v = "\<lparr>v_ValidatorAddress = pubkey_Address k,
    v_ValidatorIndex = fst (vals_GetByAddress N (Validators cs) (pubkey_Address k)),
    v_Height = Height cs1, v_Round = Round cs1, v_TimestampMs = tm, v_Type = T,
    v_BlockID = h, v_Signature = []\<rparr>"
  obtain err v' where sv: "pv_SignVote N pv now (st_ChainID (chainState cs2)) ?v = (err, v')"
    by fastforce
  have "t = cs2\<lparr>signedVotes := signedVotes cs2 @ [v']\<rparr>" "\<forall>w. r = Inr w \<longrightarrow> w = v'"
    using assms(1) Some vt cn sv
    by (auto simp: signVote_def Let_def case_prod_beta split: option.splits prod.splits)
  moreover have "vote_key v' = (Height cs, Round cs, T) \<and> v_BlockID v' = h \<and> v_ValidatorAddress v' = a"
    using signer.vote_fields [OF sv] assms(2) Some by (simp add: vote_key_def cs1)
  ultimately show ?thesis
    unfolding cs2 by (intro disjI2 exI [of _ v'] exI [of _ "Suc (Suc (cs_clock cs))"]) simp
qed

lemma signAddVote_own:
  assumes "\<forall>k. privValidatorPubKey cs = Some k \<longrightarrow> pubkey_Address k = a"
  shows "signed_own a T h cs (signAddVote N T h cs)"
proof -
  have one: "signed_own a T h cs (case r of Inr v \<Rightarrow>
        sendInternalMessage \<lparr>mi_Msg = VoteMessage v, mi_PeerID = []\<rparr> t | Inl e \<Rightarrow> t)"
    if sv: "signVote N pv T h cs = (r, t)" for pv r t
    using signVote_own [OF sv assms]
  proof (elim disjE exE conjE)
    fix e assume "t = cs" "r = Inl e"
    then show ?thesis by (simp add: signed_own_refl)
  next
    fix v k
    assume t: "t = cs\<lparr>cs_clock := k, signedVotes := signedVotes cs @ [v]\<rparr>"
      and v: "vote_key v = (Height cs, Round cs, T)" "v_BlockID v = h" "v_ValidatorAddress v = a"
      and r: "\<forall>w. r = Inr w \<longrightarrow> w = v"
    have q: "queued_votes t = queued_votes cs" by (simp add: t queued_votes_def)
    let ?u = "case r of Inr v \<Rightarrow> sendInternalMessage \<lparr>mi_Msg = VoteMessage v, mi_PeerID = []\<rparr> t | Inl e \<Rightarrow> t"
    have "queued_votes ?u \<subseteq> queued_votes cs \<union> {v}"
      using r q by (cases r) (auto simp: queued_sendInternal)
    moreover have "signedVotes ?u = signedVotes cs @ [v]" "Round ?u = Round cs"
      by (simp_all add: t sendInternalMessage_def split: sum.split)
    moreover have "lock_view ?u = lock_view (cs\<lparr>signedVotes := signedVotes ?u,
        internalMsgQueue := internalMsgQueue ?u, internalOverflow := internalOverflow ?u\<rparr>)"
      by (simp add: t lock_view_def queued_votes_def sendInternalMessage_def split: sum.split)
    ultimately show ?thesis
      unfolding signed_own_def using v by (intro exI [of _ "[v]"]) simp
  qed
  show ?thesis
    by (auto simp: signAddVote_def signed_own_refl split: option.split sum.split prod.split
        dest: one)
qed

end

text \<open>Signing keeps the invariant: a prevote if it is for the locked block when there is one, a
  precommit for a block if there was a polka for it in this round and the node is locked on it.\<close>

lemma votes_before:
  assumes "cs_inv cs" and "v \<in> set (signedVotes cs)" and "Step cs < vote_step T"
  shows "vote_pos v \<le> (Height cs, Round cs, vote_step T)"
    "v_Height v = Height cs \<Longrightarrow> v_Round v \<le> Round cs"
    "v_Type v = T \<Longrightarrow> v_Height v = Height cs \<Longrightarrow> v_Round v < Round cs"
proof -
  have "vote_pos v \<le> pos cs" using assms by (simp add: cs_inv_def votes_ok_def)
  then show "vote_pos v \<le> (Height cs, Round cs, vote_step T)"
    "v_Height v = Height cs \<Longrightarrow> v_Round v \<le> Round cs"
    "v_Type v = T \<Longrightarrow> v_Height v = Height cs \<Longrightarrow> v_Round v < Round cs"
    using assms(3) by (auto simp: pos_def vote_pos_def less_eq_prod_def less_prod_def)
qed

lemma prevotes_follow_snoc:
  assumes old: "prevotes_follow A vs"
    and before: "\<forall>x\<in>set vs. v_Height x = v_Height v \<longrightarrow> v_Round x \<le> v_Round v"
    and new: "v_Type v = PrevoteType \<Longrightarrow> \<forall>x\<in>set vs. block_precommit x \<longrightarrow> v_Height x = v_Height v
        \<longrightarrow> v_Round x < v_Round v
        \<longrightarrow> v_BlockID v = v_BlockID x \<or> moved_on A (v_Height x) (v_Round x) (v_BlockID x) (v_Round v)"
  shows "prevotes_follow A (vs @ [v])"
  unfolding prevotes_follow_def
proof (intro ballI impI)
  fix x y
  assume xy: "x \<in> set (vs @ [v])" "y \<in> set (vs @ [v])" and h: "block_precommit x" "v_Type y = PrevoteType"
    "v_Height y = v_Height x" "v_Round x < v_Round y"
  show "v_BlockID y = v_BlockID x \<or> moved_on A (v_Height x) (v_Round x) (v_BlockID x) (v_Round y)"
  proof (cases "x \<in> set vs")
    case True
    then show ?thesis using xy(2) h old new by (auto simp: prevotes_follow_def)
  next
    case False
    then have "x = v" using xy(1) by simp
    then show ?thesis using xy(2) h before by (auto simp: block_precommit_def)
  qed
qed

lemma signed_lock_inv:
  assumes ev: "evidence_ok E A" and safe: "safe E A a cs" and sg: "signed_own a T h cs t"
    and before: "Step cs < vote_step T"
    and prevote: "T = PrevoteType \<Longrightarrow> \<forall>b. LockedBlock cs = Some b \<longrightarrow> h = blk_Hash E b"
    and precommit: "T = PrecommitType \<Longrightarrow> h \<noteq> 0 \<Longrightarrow>
      ev_polka A (Height cs) (Round cs) h \<and> LockedRound cs = Round cs \<and> blk_HashTo E (LockedBlock cs) h"
  shows "lock_inv E A a t"
proof -
  have inv: "cs_inv cs" and li: "lock_inv E A a cs" using safe by (simp_all add: safe_def)
  obtain vs where vs: "signedVotes t = signedVotes cs @ vs"
    "vs = [] \<or> (\<exists>v. vs = [v] \<and> vote_key v = (Height cs, Round cs, T) \<and> v_BlockID v = h
            \<and> v_ValidatorAddress v = a)"
    "queued_votes t \<subseteq> queued_votes cs \<union> set vs"
    and view: "lock_view t = lock_view (cs\<lparr>signedVotes := signedVotes t, internalMsgQueue := internalMsgQueue t,
            internalOverflow := internalOverflow t\<rparr>)" and rd: "Round t = Round cs"
    using sg unfolding signed_own_def by blast
  have f: "LockedRound t = LockedRound cs" "LockedBlock t = LockedBlock cs" "Votes t = Votes cs"
    "Height t = Height cs" "chainState t = chainState cs" "privValidator t = privValidator cs"
    "privValidatorPubKey t = privValidatorPubKey cs"
    using view by (simp_all add: lock_view_def)
  show ?thesis
  proof (cases "vs = []")
    case True
    then show ?thesis
      using li vs f rd unfolding lock_inv_def own_votes_def precommits_hold_def lock_shape_def votes_extend_def
      by auto
  next
    case False
    then obtain v where v: "vs = [v]" "v_Height v = Height cs" "v_Round v = Round cs" "v_Type v = T"
      "v_BlockID v = h" "v_ValidatorAddress v = a"
      using vs(2) by (auto simp: vote_key_def)
    note old = votes_before [OF inv _ before]
    have "own_votes E a t"
      using li vs(1,3) v f old(1)
      by (auto simp: lock_inv_def own_votes_def sorted_wrt_append vote_pos_def [of v])
    moreover have "precommits_hold E A t"
      using li vs(1) v f rd precommit
      by (auto simp: lock_inv_def precommits_hold_def block_precommit_def)
    moreover have "prevotes_follow A (signedVotes t)"
      unfolding vs(1) v(1)
    proof (rule prevotes_follow_snoc)
      show "\<forall>x\<in>set (signedVotes cs). v_Height x = v_Height v \<longrightarrow> v_Round x \<le> v_Round v"
        using old(2) v by simp
    next
      assume T: "v_Type v = PrevoteType"
      show "\<forall>x\<in>set (signedVotes cs). block_precommit x \<longrightarrow> v_Height x = v_Height v
          \<longrightarrow> v_Round x < v_Round v
          \<longrightarrow> v_BlockID v = v_BlockID x \<or> moved_on A (v_Height x) (v_Round x) (v_BlockID x) (v_Round v)"
      proof (intro ballI impI)
        fix x assume x: "x \<in> set (signedVotes cs)" "block_precommit x" "v_Height x = v_Height v"
        then have "blk_HashTo E (LockedBlock cs) (v_BlockID x)
            \<or> moved_on A (Height cs) (v_Round x) (v_BlockID x) (Round cs)"
          using li v by (auto simp: lock_inv_def precommits_hold_def)
        then show "v_BlockID v = v_BlockID x \<or> moved_on A (v_Height x) (v_Round x) (v_BlockID x) (v_Round v)"
          using hash_to [OF ev] prevote T v x(3) by fastforce
      qed
    qed (use li in \<open>simp add: lock_inv_def\<close>)
    moreover have "votes_extend A t" using li vs(1) by (auto simp: lock_inv_def votes_extend_def)
    ultimately show ?thesis
      using li f rd by (simp add: lock_inv_def lock_shape_def)
  qed
qed

text \<open>Changing the lock keeps it when every precommit the old lock held is held by the new one or
  has been overtaken by a later polka.\<close>

lemma relock_inv:
  assumes li: "lock_inv E A a cs" and shape: "b = None \<longleftrightarrow> r = -1" "r \<le> Round cs"
    and held: "\<And>v. v \<in> set (signedVotes cs) \<Longrightarrow> block_precommit v \<Longrightarrow> v_Height v = Height cs \<Longrightarrow>
        v_Round v \<le> LockedRound cs \<Longrightarrow> blk_HashTo E (LockedBlock cs) (v_BlockID v) \<Longrightarrow>
        (v_Round v \<le> r \<and> blk_HashTo E b (v_BlockID v)) \<or> moved_on A (Height cs) (v_Round v) (v_BlockID v) (Round cs)"
  shows "lock_inv E A a (cs\<lparr>LockedRound := r, LockedBlock := b\<rparr>)"
proof -
  let ?u = "cs\<lparr>LockedRound := r, LockedBlock := b\<rparr>"
  have "precommits_hold E A ?u"
    unfolding precommits_hold_def
  proof (intro ballI impI conjI)
    fix v assume v: "v \<in> set (signedVotes ?u)" "block_precommit v"
    show "ev_polka A (v_Height v) (v_Round v) (v_BlockID v)"
      using li v by (simp add: lock_inv_def precommits_hold_def)
    assume h: "v_Height v = Height ?u"
    have "(v_Round v \<le> LockedRound cs \<and> blk_HashTo E (LockedBlock cs) (v_BlockID v))
        \<or> moved_on A (Height cs) (v_Round v) (v_BlockID v) (Round cs)"
      using li v h by (simp add: lock_inv_def precommits_hold_def)
    then show "(v_Round v \<le> LockedRound ?u \<and> blk_HashTo E (LockedBlock ?u) (v_BlockID v))
        \<or> moved_on A (Height ?u) (v_Round v) (v_BlockID v) (Round ?u)"
      using held [of v] v h by auto
  qed
  moreover have "own_votes E a ?u" using li by (simp add: lock_inv_def own_votes_def queued_votes_def)
  ultimately show ?thesis using li shape by (simp add: lock_inv_def lock_shape_def votes_extend_def)
qed

lemma unlock_inv:
  assumes li: "lock_inv E A a cs" and shape: "b = None \<longleftrightarrow> r = -1" "r \<le> Round cs"
    and polka: "ev_polka A (Height cs) r' h" "r' \<le> Round cs" "\<not> blk_HashTo E (LockedBlock cs) h"
    and before: "\<And>v. v \<in> set (signedVotes cs) \<Longrightarrow> block_precommit v \<Longrightarrow> v_Height v = Height cs
        \<Longrightarrow> v_Round v \<le> LockedRound cs \<Longrightarrow> v_Round v < r'"
  shows "lock_inv E A a (cs\<lparr>LockedRound := r, LockedBlock := b\<rparr>)"
  using polka before by (intro relock_inv [OF li shape] disjI2) (auto simp: moved_on_def)

end
