(* ===== verification/CS_Types.thy ===== *)
theory CS_Types
  imports CS_Timeouts CS_Evidence
begin

text \<open>
  The values the fields of the consensus state can take (\<open>consensus/round_state.go\<close>,
  \<open>consensus/consensus_state.go\<close>). The source keeps rounds as \<open>int32\<close> with -1 for none and steps as
  \<open>uint8\<close>; the state machine keeps them in range, never ahead of the current round, and a locked or
  valid round is set exactly when the block of it is.
\<close>

section \<open>The locked and the valid round\<close>

text \<open>A round that is -1, with no block, or one the node has reached, with a block.\<close>

definition mark_ok :: "int \<Rightarrow> int \<Rightarrow> 'blk option \<Rightarrow> bool" where
  "mark_ok now r b \<longleftrightarrow> -1 \<le> r \<and> r \<le> now \<and> (b = None \<longleftrightarrow> r = -1)"

definition marks_ok :: "('val, 'vs, 'hvs, 'blk, 'bs, 'pv) consensus_state \<Rightarrow> bool" where
  "marks_ok cs \<longleftrightarrow> mark_ok (Round cs) (LockedRound cs) (LockedBlock cs)
     \<and> mark_ok (Round cs) (ValidRound cs) (ValidBlock cs)"

definition typed :: "('val, 'vs, 'hvs, 'blk, 'bs, 'pv) consensus_state \<Rightarrow> bool" where
  "typed cs \<longleftrightarrow> cs_inv cs \<and> marks_ok cs"

definition marks ::
  "('val, 'vs, 'hvs, 'blk, 'bs, 'pv) consensus_state \<Rightarrow> (int \<times> 'blk option) \<times> (int \<times> 'blk option)" where
  "marks cs = ((LockedRound cs, LockedBlock cs), (ValidRound cs, ValidBlock cs))"

lemma mark_ok_mono: "mark_ok r l b \<Longrightarrow> r \<le> r' \<Longrightarrow> mark_ok r' l b"
  by (simp add: mark_ok_def)

lemma mark_ok_simps [simp]: "mark_ok r (-1) None \<longleftrightarrow> -1 \<le> r" "mark_ok r r (Some b) \<longleftrightarrow> 0 \<le> r"
  by (auto simp: mark_ok_def)

lemma stays_round: "stays cs t \<Longrightarrow> Round cs \<le> Round t"
  by (auto simp: stays_def pos_def less_eq_prod_def less_prod_def)

lemma typed_frame:
  assumes "typed cs" and "stays cs t" and "marks t = marks cs"
  shows "typed t"
proof -
  have "Round cs \<le> Round t" by (rule stays_round [OF assms(2)])
  then show ?thesis
    using assms mark_ok_mono by (auto simp: typed_def marks_ok_def marks_def stays_def)
qed

lemma typed_core:
  assumes "typed cs" and "core t = core cs" and "marks_ok t"
  shows "typed t"
  using assms core_inv [OF assms(2)] by (simp add: typed_def)

lemma typed_inv: "typed cs \<Longrightarrow> cs_inv cs"
  by (simp add: typed_def)

lemma typed_round: "typed cs \<Longrightarrow> 0 \<le> Round cs"
  by (simp add: typed_def cs_inv_def step_ok_def)

lemma marks_basic [simp]:
  "marks (newStep cs) = marks cs" "marks (sendInternalMessage mi cs) = marks cs"
  "marks (broadcastMessageToPeers m cs) = marks cs" "marks (updateRoundStep r s cs) = marks cs"
  "marks (scheduleTimeout d h r s cs) = marks cs" "marks (scheduleRound0 E rs cs) = marks cs"
  "marks (snd (CanonicalNow E cs)) = marks cs" "marks (snd (updatePrivValidatorPubKey E cs)) = marks cs"
  by (simp_all add: marks_def machine_defs CanonicalNow_def updatePrivValidatorPubKey_def scheduleRound0_def
      split: option.split sum.split)

lemma marks_updates [simp]:
  "marks (cs\<lparr>Votes := vs\<rparr>) = marks cs" "marks (cs\<lparr>LastCommit := lc\<rparr>) = marks cs"
  "marks (cs\<lparr>Validators := v\<rparr>) = marks cs" "marks (cs\<lparr>Proposal := p\<rparr>) = marks cs"
  "marks (cs\<lparr>ProposalBlock := b\<rparr>) = marks cs" "marks (cs\<lparr>CommitRound := r\<rparr>) = marks cs"
  "marks (cs\<lparr>CommitTime := now\<rparr>) = marks cs" "marks (cs\<lparr>blockStore := bs\<rparr>) = marks cs"
  "marks (cs\<lparr>TriggeredTimeoutPrecommit := x\<rparr>) = marks cs" "marks (cs\<lparr>signedProposals := ps\<rparr>) = marks cs"
  "marks (cs\<lparr>internalMsgQueue := q\<rparr>) = marks cs" "marks (cs\<lparr>internalOverflow := q\<rparr>) = marks cs"
  "marks (cs\<lparr>tickChan := ts\<rparr>) = marks cs"
  by (simp_all add: marks_def)

lemma signAddVote_marks [simp]: "marks (signAddVote E T h cs) = marks cs"
proof -
  have "marks t = marks cs" if "signVote E pv T h cs = (r, t)" for pv r t
    using that
    by (auto simp: signVote_def voteTime_def CanonicalNow_def CanonicalNowMs_def Let_def marks_def
        split: option.splits prod.splits)
  then show ?thesis by (auto simp: signAddVote_def split: option.split sum.split prod.split)
qed

lemma updateToState_reset_marks: "marks (updateToState_reset E st cs) = ((-1, None), (-1, None))"
  by (simp add: updateToState_reset_def machine_defs CanonicalNow_def Let_def marks_def)

section \<open>The rounds\<close>

context consensus_node
begin

lemma enterPrevote_typed:
  assumes "typed cs" and "round \<le> Round cs" and e: "enterPrevote N height round cs = Inr t"
  shows "typed t"
proof -
  have "marks t = marks cs"
    using e by (auto simp: enterPrevote_def defaultDoPrevote_def andThen_eq_Inr split: if_splits option.splits)
  then show ?thesis
    using enterPrevote_stays [OF typed_inv [OF assms(1)] assms(2) e] assms(1) typed_frame by blast
qed

lemma enterPrecommit_body_marks:
  assumes "hash_to_ok N" and "typed cs" and e: "enterPrecommit_body N h (Round cs) cs = Inr t"
  shows "marks_ok t"
proof -
  have some: "\<exists>x. b = Some x" if "blk_HashTo N b h" for b h using assms(1) that by (auto simp: hash_to_ok_def)
  have r: "0 \<le> Round cs" by (rule typed_round [OF assms(2)])
  have m: "marks_ok cs" using assms(2) by (simp add: typed_def)
  have rd: "Round (signAddVote N T h u) = Round u" for T h u
    using signAddVote_wait_view [of N T h u] by (simp add: wait_view_def pos_def)
  have ok: "marks_ok (signAddVote N T h u) = marks_ok u" for T h u
    using signAddVote_marks [of N T h u] by (simp add: marks_ok_def marks_def rd)
  have valid: "mark_ok (Round cs) (ValidRound cs) (ValidBlock cs)" using m by (simp add: marks_ok_def)
  have locked: "marks_ok (cs\<lparr>LockedRound := l\<rparr>) \<longleftrightarrow> mark_ok (Round cs) l (LockedBlock cs)"
    "marks_ok (cs\<lparr>LockedRound := l, LockedBlock := b\<rparr>) \<longleftrightarrow> mark_ok (Round cs) l b" for l b
    using valid by (simp_all add: marks_ok_def)
  show ?thesis
    using e m r
    by (auto simp: enterPrecommit_body_def andThen_eq_Inr deref_eq_Inr Let_def ok locked
        dest!: some split: prod.splits if_splits option.splits)
qed

lemma enterPrecommit_typed:
  assumes hash: "hash_to_ok N" and "typed cs" and "round \<le> Round cs"
    and e: "enterPrecommit N height round cs = Inr t"
  shows "typed t"
proof (cases "t = cs")
  case False
  then obtain u where r: "round = Round cs" and u: "enterPrecommit_body N height round cs = Inr u"
    "t = newStep (updateRoundStep round RoundStepPrecommit u)"
    using e assms(3) by (auto simp: enterPrecommit_def andThen_eq_Inr split: if_splits)
  have "marks_ok u" using enterPrecommit_body_marks [OF hash assms(2)] u(1) r by simp
  moreover have "Round u = Round cs"
    using enterPrecommit_body_wait_view [OF u(1)] by (simp add: wait_view_def pos_def)
  ultimately have "marks_ok t" using u(2) r by (simp add: marks_ok_def machine_defs)
  then show ?thesis
    using enterPrecommit_stays [OF typed_inv [OF assms(2)] assms(3) e] by (simp add: typed_def stays_def)
qed (use assms in simp)

lemma enterPrevoteWait_typed:
  assumes "typed cs" and "round \<le> Round cs" and e: "enterPrevoteWait N height round cs = Inr t"
  shows "typed t"
proof -
  have "marks t = marks cs" using e by (auto simp: enterPrevoteWait_def Let_def split: if_splits)
  then show ?thesis
    using enterPrevoteWait_stays [OF typed_inv [OF assms(1)] assms(2) e] assms(1) typed_frame by blast
qed

lemma enterPrecommitWait_typed:
  assumes "typed cs" and "round \<le> Round cs" and e: "enterPrecommitWait N height round cs = Inr t"
  shows "typed t"
proof -
  have "marks t = marks cs" using e by (auto simp: enterPrecommitWait_def Let_def split: if_splits)
  then show ?thesis
    using enterPrecommitWait_stays [OF typed_inv [OF assms(1)] assms(2) e] assms(1) typed_frame by blast
qed

lemma defaultDecideProposal_marks: "defaultDecideProposal N h r cs = Inr t \<Longrightarrow> marks t = marks cs"
  by (auto simp: defaultDecideProposal_def Let_def andThen_eq_Inr case_prod_beta split: option.splits)

lemma enterPropose_body_marks: "enterPropose_body N h r cs = Inr t \<Longrightarrow> marks t = marks cs"
  using defaultDecideProposal_marks
  by (fastforce simp: enterPropose_body_def Let_def andThen_eq_Inr split: option.splits if_splits)

lemma enterNewRound_marks:
  assumes "enterNewRound N height round cs = Inr t"
  shows "marks t = marks cs"
proof -
  have prevote: "marks t = marks c" if "enterPrevote N h r c = Inr t" for h r c
    using that by (auto simp: enterPrevote_def defaultDoPrevote_def andThen_eq_Inr split: if_splits option.splits)
  have propose: "marks t = marks c" if p: "enterPropose N h r c = Inr t" for h r c
  proof (cases "t = c")
    case False
    then obtain x where x: "enterPropose_body N h r c = Inr x"
      and t: "(let v = newStep (updateRoundStep r RoundStepPropose x) in
        if isProposalComplete N v then enterPrevote N h (Round v) v else Inr v) = Inr t"
      using p by (auto simp: enterPropose_def andThen_eq_Inr split: if_splits)
    let ?v = "newStep (updateRoundStep r RoundStepPropose x)"
    have "t = ?v \<or> enterPrevote N h (Round ?v) ?v = Inr t" using t by (auto simp: Let_def split: if_splits)
    then have "marks t = marks ?v" using prevote by blast
    then show ?thesis using enterPropose_body_marks [OF x] by simp
  qed simp
  show ?thesis
  proof (cases "t = cs")
    case False
    then obtain w where "enterPropose N height round w = Inr t" "marks w = marks cs"
      using assms
      by (auto simp: enterNewRound_def Let_def andThen_eq_Inr CanonicalNow_def machine_defs marks_def
          split: if_splits)
    then show ?thesis using propose by simp
  qed simp
qed

lemma enterNewRound_typed:
  assumes "typed cs" and "new_proposal_ok N" and e: "enterNewRound N height round cs = Inr t"
  shows "typed t"
  using enterNewRound_stays [OF typed_inv [OF assms(1)] assms(2) e] enterNewRound_marks [OF e] assms(1)
    typed_frame by blast

section \<open>Committing\<close>

lemma applyBlock_typed:
  assumes typed: "typed cs" and bound: "Height cs + 1 \<noteq> 0"
    and valid: "be_ValidateBlock N (chainState cs) block = Inr None"
    and e: "applyBlock N block after cs = Inr t"
    and after: "\<And>c. typed c \<Longrightarrow> after c = Inr t \<Longrightarrow> typed t"
  shows "typed t"
proof -
  have inv: "cs_inv cs" by (rule typed_inv [OF typed])
  obtain res where r: "be_ApplyBlock N (ChainState_Copy N (chainState cs)) block = Inr res"
    using e by (auto simp: applyBlock_def andThen_eq_Inr)
  show ?thesis
  proof (cases res)
    case (Inl err)
    then show ?thesis using e r typed by (auto simp: applyBlock_def)
  next
    case (Inr st')
    then obtain u where u: "updateToState N st' cs = Inr u"
      "after (snd (updatePrivValidatorPubKey N u)) = Inr t"
      using e r by (auto simp: applyBlock_def andThen_eq_Inr)
    have st: "st_LastBlockHeight st' = Height cs" "st_InitialHeight st' \<noteq> 0"
      using executor.exec_height [OF r [unfolded Inr]] executor.exec_initial [OF r [unfolded Inr]]
        inv validate_height [OF inv valid]
      by (simp_all add: cs_inv_def chain_ok_def)
    have link: "chain_link N (chainState cs) st'" using valid r unfolding Inr by (rule chain_link)
    obtain l where l: "u = updateToState_reset N st' (cs\<lparr>LastCommit := l\<rparr>)"
      using updateToState_resets [OF inv st(1) u(1)] by blast
    have "cs_inv u" using updateToState_advances [OF inv bound st link u(1)] by (simp add: advances_def)
    moreover have "marks u = ((-1, None), (-1, None))" "Round u = 0"
      unfolding l by (simp_all add: updateToState_reset_marks updateToState_reset_fields)
    ultimately have "typed u" by (simp add: typed_def marks_ok_def marks_def)
    then have "typed (snd (updatePrivValidatorPubKey N u))"
      by (rule typed_frame [OF _ core_stays]) (use \<open>cs_inv u\<close> in simp_all)
    then show ?thesis using u(2) by (rule after)
  qed
qed

lemma saveBlock_marks: "saveBlock N block seen cs = Inr t \<Longrightarrow> marks t = marks cs"
  by (auto simp: saveBlock_def andThen_eq_Inr split: if_splits)

lemma scheduleRound0_typed: "typed cs \<Longrightarrow> typed (scheduleRound0 N (GetRoundState cs) cs)"
  by (rule typed_frame [OF _ scheduleRound0_stays]) (simp_all add: typed_inv)

lemma finalizeCommit_typed:
  assumes typed: "typed cs" and bound: "Height cs + 1 \<noteq> 0" and e: "finalizeCommit N height cs = Inr t"
  shows "typed t"
  using finalizeCommit_cases [OF e]
proof (elim disjE exE conjE)
  fix block u
  assume v: "be_ValidateBlock N (chainState cs) block = Inr None"
    and u: "saveBlock N block (vs_MakeCommit N (hvs_Precommits N (Votes cs) (CommitRound cs))) cs = Inr u"
    and a: "applyBlock N block (\<lambda>cs. Inr (scheduleRound0 N (GetRoundState cs) cs)) u = Inr t"
  have c: "core u = core cs" by (rule saveBlock_core [OF u])
  have "typed u" by (rule typed_frame [OF typed core_stays [OF c typed_inv [OF typed]] saveBlock_marks [OF u]])
  then show ?thesis
    by (rule applyBlock_typed [OF _ _ _ a]) (use v bound c scheduleRound0_typed in \<open>auto simp: core_def pos_def\<close>)
qed (use typed in simp)

lemma tryFinalizeCommit_typed:
  "typed cs \<Longrightarrow> Height cs + 1 \<noteq> 0 \<Longrightarrow> tryFinalizeCommit N height cs = Inr t \<Longrightarrow> typed t"
  by (auto simp: tryFinalizeCommit_def Let_def finalizeCommit_typed split: prod.splits if_splits)

lemma enterCommit_typed:
  assumes typed: "typed cs" and bound: "Height cs + 1 \<noteq> 0" and e: "enterCommit N height commitRound cs = Inr t"
  shows "typed t"
  using enterCommit_cases [OF e]
proof (elim disjE exE conjE)
  fix u now w
  assume u: "enterCommit_body N commitRound cs = Inr u"
    and w: "CanonicalNow N ((updateRoundStep (Round u) RoundStepCommit u)\<lparr>CommitRound := commitRound\<rparr>) = (now, w)"
    and t: "tryFinalizeCommit N height (newStep (w\<lparr>CommitTime := now\<rparr>)) = Inr t"
  let ?c = "(updateRoundStep (Round u) RoundStepCommit u)\<lparr>CommitRound := commitRound\<rparr>"
  let ?v = "newStep (w\<lparr>CommitTime := now\<rparr>)"
  have "marks u = marks cs" using u by (auto simp: enterCommit_body_def Let_def split: prod.splits if_splits)
  moreover have "marks w = marks u" using marks_basic(7) [of N ?c] w by simp
  moreover have sv: "stays cs ?v" by (rule enterCommit_state [OF typed_inv [OF typed] u w])
  ultimately have "typed ?v" using typed_frame [OF typed sv] by simp
  then show ?thesis using tryFinalizeCommit_typed [OF _ _ t] bound sv by (simp add: stays_def)
qed (use typed in simp)

lemma processCommitedBlock_typed:
  assumes typed: "typed cs" and new: "new_proposal_ok N" and bound: "Height cs + 1 \<noteq> 0"
    and e: "processCommitedBlock N block cs = Inr t"
  shows "typed t"
  using processCommitedBlock_cases [OF e]
proof (elim disjE exE conjE)
  fix lc u
  assume h: "be_ValidateBlock N (chainState cs) block = Inr None"
    and u: "saveBlock N block (Inr (blk_Commit N block)) (fast_path_state N lc cs) = Inr u"
    and a: "applyBlock N block (fast_path_after N) u = Inr t"
  have su: "stays cs u" by (rule fast_path_saved [OF typed_inv [OF typed] u])
  have "marks u = marks cs" using saveBlock_marks [OF u] by (simp add: case_prod_beta)
  with su have "typed u" using typed_frame [OF typed] by blast
  then show ?thesis
  proof (rule applyBlock_typed [OF _ _ _ a])
    show "typed t" if "typed c" "fast_path_after N c = Inr t" for c
      using that enterNewRound_typed [OF that(1) new] scheduleRound0_typed [OF that(1)] by (auto split: if_splits)
  qed (use su h bound in \<open>auto simp: stays_def\<close>)
qed (use typed in simp)

section \<open>Proposals, votes and timeouts\<close>

lemma defaultSetProposal_typed:
  assumes hash: "hash_to_ok N" and typed: "typed cs" and bound: "Height cs + 1 \<noteq> 0"
    and e: "defaultSetProposal N proposal cs = Inr (r, t)"
  shows "typed t"
  using defaultSetProposal_cases [OF e]
proof (elim disjE exE)
  fix b h
  let ?c = "cs\<lparr>Proposal := Some proposal, ProposalBlock := p_Block proposal\<rparr>"
  let ?u = "setProposal_valid N h b ?c"
  assume st: "setProposal_step N b ?u = Inr t"
  have c: "core ?u = core cs"
    using setProposal_valid_core [of N h b ?c] by (simp add: core_def pos_def)
  have some: "\<exists>x. b = Some x" if "blk_HashTo N b h" for b h using hash that by (auto simp: hash_to_ok_def)
  have "marks_ok cs" "0 \<le> Round cs" using typed typed_round by (simp_all add: typed_def)
  then have "marks_ok ?u" by (auto simp: setProposal_valid_def marks_ok_def dest: some)
  then have u: "typed ?u" by (rule typed_core [OF typed c])
  have b: "Height ?u + 1 \<noteq> 0" using c bound by (simp add: core_def pos_def)
  show ?thesis
    using setProposal_step_cases [OF st] u tryFinalizeCommit_typed [OF u b] enterPrevote_typed [OF u order_refl]
      enterPrecommit_typed [OF hash _ order_refl] by blast
qed (use typed in simp)

lemma addVote_polka_typed:
  assumes hash: "hash_to_ok N" and typed: "typed cs"
  shows "typed (addVote_polka N vote h cs)"
proof -
  have some: "\<exists>x. b = Some x" if "blk_HashTo N b h" for b h using hash that by (auto simp: hash_to_ok_def)
  have "marks_ok cs" "0 \<le> Round cs" using typed typed_round by (simp_all add: typed_def)
  then have "marks_ok (addVote_polka N vote h cs)"
    by (auto simp: addVote_polka_def Let_def marks_ok_def dest: some)
  then show ?thesis by (rule typed_core [OF typed addVote_polka_core])
qed

lemma addVote_prevote_typed:
  assumes hash: "hash_to_ok N" and typed: "typed cs" and new: "new_proposal_ok N"
    and e: "addVote_prevote N height vote cs = Inr t"
  shows "typed t"
proof -
  obtain h ok where maj: "vs_TwoThirdsMajority N (hvs_Prevotes N (Votes cs) (v_Round vote)) = (h, ok)" by fastforce
  define u where "u = (if ok then addVote_polka N vote h cs else cs)"
  have u: "typed u" using addVote_polka_typed [OF hash typed] typed by (simp add: u_def)
  show ?thesis
    using addVote_prevote_cases [OF e maj u_def] u enterNewRound_typed [OF u new]
      enterPrecommit_typed [OF hash u] enterPrevoteWait_typed [OF u] enterPrevote_typed [OF u order_refl]
    by (metis order_refl)
qed

lemma addVote_precommit_typed:
  assumes hash: "hash_to_ok N" and typed: "typed cs" and new: "new_proposal_ok N" and bound: "Height cs + 1 \<noteq> 0"
    and e: "addVote_precommit N (Height cs) vote cs = Inr t"
  shows "typed t"
proof -
  note inv = typed_inv [OF typed]
  have entered: "stays cs w \<and> v_Round vote \<le> Round w \<and> typed w"
    if "enterNewRound N (Height cs) (v_Round vote) cs = Inr u"
      "enterPrecommit N (Height cs) (v_Round vote) u = Inr w" for u w
    using precommit_entered [OF inv new that] precommit_round [OF inv new that(1)]
      enterPrecommit_typed [OF hash enterNewRound_typed [OF typed new that(1)] _ that(2)] by blast
  show ?thesis
    using e
  proof (cases rule: addVote_precommit_cases)
    case (commit u w x)
    then have w: "stays cs w" "typed w" using entered by blast+
    then have "typed x"
      using bound by (intro enterCommit_typed [OF w(2) _ commit(3)]) (simp add: stays_def)
    then show ?thesis using commit(4) enterNewRound_typed [OF _ new] by blast
  next
    case (nil u w)
    then show ?thesis using entered enterPrecommitWait_typed by blast
  next
    case (wait u)
    then show ?thesis
      using precommit_round [OF inv new] enterNewRound_typed [OF typed new] enterPrecommitWait_typed by blast
  qed (use typed in simp)
qed

lemma addVote_typed:
  assumes hash: "hash_to_ok N" and typed: "typed cs" and new: "new_proposal_ok N" and bound: "Height cs + 1 \<noteq> 0"
    and e: "addVote N vote peer cs = Inr (r, t)"
  shows "typed t"
  using e
proof (cases rule: addVote_cases)
  case late
  have "typed (cs\<lparr>LastCommit := l\<rparr>)" for l
    by (rule typed_frame [OF typed core_stays]) (use typed_inv [OF typed] in \<open>simp_all add: core_def pos_def\<close>)
  then show ?thesis using addVote_late_cases [OF late] typed enterNewRound_typed [OF _ new] by blast
next
  case (added x vs)
  let ?u = "cs\<lparr>Votes := vs\<rparr>"
  have u: "typed ?u"
    by (rule typed_frame [OF typed core_stays]) (use typed_inv [OF typed] in \<open>simp_all add: core_def pos_def\<close>)
  have "Height ?u + 1 \<noteq> 0" using bound by simp
  then show ?thesis
    using added(3) u addVote_prevote_typed [OF hash u new] addVote_precommit_typed [OF hash u new] by auto
qed (use typed in simp)

lemma broadcast_typed: "typed cs \<Longrightarrow> typed (broadcastMessageToPeers m cs)"
  by (rule typed_frame [OF _ core_stays]) (simp_all add: typed_inv)

lemma handleMsg_typed:
  assumes hash: "hash_to_ok N" and typed: "typed cs" and new: "new_proposal_ok N" and bound: "Height cs + 1 \<noteq> 0"
    and e: "handleMsg N mi cs = Inr t"
  shows "typed t"
  using e by (cases rule: handleMsg_cases)
    (use typed defaultSetProposal_typed [OF hash typed bound] addVote_typed [OF hash typed new bound]
      broadcast_typed in blast)+

lemma handleTimeout_typed:
  assumes hash: "hash_to_ok N" and typed: "typed cs" and new: "new_proposal_ok N"
    and ok: "tick_ok (pos cs) ti" and e: "handleTimeout N ti (GetRoundState cs) cs = Inr t"
  shows "typed t"
proof -
  have st: "ti_Step ti \<in> {RoundStepNewHeight, RoundStepPropose, RoundStepPrevoteWait, RoundStepPrecommitWait}"
    using ok by (simp add: tick_ok_def)
  have r: "ti_Round ti \<le> Round cs" if "ti_Height ti = Height cs" using ok that by (auto simp: tick_ok_def pos_def)
  show ?thesis
    using e st
    by (cases rule: handleTimeout_cases)
      (use typed r enterNewRound_typed [OF _ new] enterPrevote_typed [OF typed]
        enterPrecommit_typed [OF hash typed] in blast)+
qed

section \<open>Events and runs\<close>

lemma receive_event_typed:
  assumes hash: "hash_to_ok N" and typed: "typed (sys_cs s)" and sys: "system_inv s"
    and new: "new_proposal_ok N" and bound: "Height (sys_cs s) + 1 \<noteq> 0"
    and e: "receive_event N event s = Inr t"
  shows "typed (sys_cs t)"
proof (cases event)
  case (PeerMsg mi)
  then show ?thesis using e handleMsg_typed [OF hash typed new bound] by (auto simp: andThen_eq_Inr)
next
  case InternalMsg
  have "typed cs" if "internalMsgQueue (sys_cs s) = mi # mis"
      "handleMsg N mi ((sys_cs s)\<lparr>internalMsgQueue := mis\<rparr>) = Inr cs" for mi mis cs
  proof (rule handleMsg_typed [OF hash _ new _ that(2)])
    show "typed ((sys_cs s)\<lparr>internalMsgQueue := mis\<rparr>)"
      by (rule typed_frame [OF typed core_stays]) (use typed_inv [OF typed] in \<open>simp_all add: core_def pos_def\<close>)
  qed (use bound in simp)
  then show ?thesis using e InternalMsg typed by (auto simp: andThen_eq_Inr split: list.splits)
next
  case (OverflowSend k)
  have "typed ((sys_cs s)\<lparr>internalOverflow := ov, internalMsgQueue := q\<rparr>)" for ov q
    by (rule typed_frame [OF typed core_stays]) (use typed_inv [OF typed] in \<open>simp_all add: core_def pos_def\<close>)
  then show ?thesis using e OverflowSend typed by (auto split: option.splits if_splits)
next
  case TickerTick
  have "typed ((sys_cs s)\<lparr>tickChan := tis\<rparr>)" if "tickChan (sys_cs s) = ti # tis" for ti tis
  proof -
    let ?u = "(sys_cs s)\<lparr>tickChan := tis\<rparr>"
    have "cs_inv ?u" using typed_inv [OF typed] that by (auto simp: inv_defs)
    then have "stays (sys_cs s) ?u" by (simp add: stays_def pos_def)
    then show ?thesis using typed_frame [OF typed] by simp
  qed
  then show ?thesis using e TickerTick typed by (auto split: list.splits)
next
  case TickerFire
  then show ?thesis using e typed by auto
next
  case (Tock k)
  show ?thesis
  proof (cases "take_nth k (tt_tockChan (sys_ticker s))")
    case (Some p)
    obtain ti tis where p: "p = (ti, tis)" by fastforce
    have "ti \<in> ticker_held (sys_ticker s)"
      using take_nth_set [OF Some [unfolded p]] by (auto simp: ticker_held_def)
    then have "tick_ok (pos (sys_cs s)) ti" using sys by (simp add: system_inv_def)
    then show ?thesis
      using e Tock Some p handleTimeout_typed [OF hash typed new] by (auto simp: andThen_eq_Inr)
  qed (use e Tock typed in simp)
next
  case SyncTimer
  then show ?thesis using e broadcast_typed [OF typed] by (auto simp: andThen_eq_Inr)
next
  case (SyncRequest req)
  then show ?thesis using e typed by (auto simp: andThen_eq_Inr)
next
  case (CommittedBlock block)
  then show ?thesis using e processCommitedBlock_typed [OF typed new bound] by (auto simp: andThen_eq_Inr)
qed

lemma start_node_typed:
  assumes "startable state" and "start_node N cfg state store pv = Inr (None, s)"
  shows "typed (sys_cs s)"
proof -
  obtain cs u where cs: "NewConsensusState N cfg state store = Inr cs"
    and u: "u = SetPrivValidator N pv cs" and s: "sys_cs s = scheduleRound0 N (GetRoundState u) u"
    using assms(2)
    by (auto simp: start_node_def ConsensusState_OnStart_def andThen_eq_Inr split: option.splits)
  obtain z where z: "cs = updateToState_reset N state z" using NewConsensusState_reset [OF cs] by blast
  have "cs_inv cs" by (rule NewConsensusState_inv [OF assms(1) cs])
  moreover have "marks cs = ((-1, None), (-1, None))" "Round cs = 0"
    unfolding z by (simp_all add: updateToState_reset_marks updateToState_reset_fields)
  ultimately have t: "typed cs" by (simp add: typed_def marks_ok_def marks_def)
  have "marks u = marks cs" unfolding u by (simp add: SetPrivValidator_def) (simp add: marks_def)
  then have "typed u"
    by (intro typed_frame [OF t core_stays]) (use u \<open>cs_inv cs\<close> in simp_all)
  then show ?thesis unfolding s by (rule scheduleRound0_typed)
qed

lemma reachable_typed:
  assumes "hash_to_ok N" and "startable state" and "new_proposal_ok N" and "reachable N cfg state store pv s"
  shows "typed (sys_cs s)"
  using assms(4)
proof (induction rule: reachable.induct)
  case (reachable_start s)
  then show ?case by (rule start_node_typed [OF assms(2)])
next
  case (reachable_step s t)
  have "system_inv s" by (rule reachable_inv [OF assms(2,3) reachable_step(1)])
  then show ?case
    using receive_event_typed [OF assms(1) reachable_step(3) _ assms(3)] reachable_step(2)
    by (blast elim: system_stepE)
qed

end

section \<open>Property\<close>

text \<open>C25. The fields of the round state stay in their types. In every reachable state the step is one of
  the eight the source names, the height is the one after the last block, the round is a
  non-negative \<open>int32\<close> that can still be raised by one, and the locked and the valid round are -1
  when there is no locked or valid block, and otherwise a round the node has reached.\<close>

theorem round_state_well_typed:
  assumes "startable state" and "new_proposal_ok E" and "hash_to_ok E"
    and "reachable (default_node E D) cfg state store pv s" and "cs = sys_cs s"
  shows "RoundStepType_IsValid (Step cs) \<and> Height cs = next_height (chainState cs)
    \<and> 0 \<le> Round cs \<and> is_i32 (Round cs + 1)
    \<and> (if LockedBlock cs = None then LockedRound cs = -1 else 0 \<le> LockedRound cs \<and> LockedRound cs \<le> Round cs)
    \<and> (if ValidBlock cs = None then ValidRound cs = -1 else 0 \<le> ValidRound cs \<and> ValidRound cs \<le> Round cs)"
proof -
  have "hash_to_ok (default_node E D)" using assms(3) by (simp add: hash_to_ok_def default_node_def ext.defs)
  then have t: "typed (sys_cs s)"
    using assms(1-4) by (intro default_consensus.reachable_typed [of E D state cfg store pv]) simp_all
  have "timeouts_inv s"
    using assms(1,2,4) by (intro default_consensus.reachable_timeouts [of state E D cfg store pv s]) simp_all
  then have "Round (sys_cs s) \<le> 2147483646" by (simp add: timeouts_inv_def round_fits_def)
  then show ?thesis
    using t assms(5)
    by (auto simp: typed_def cs_inv_def step_ok_def chain_ok_def marks_ok_def mark_ok_def is_i32_def
        RoundStepType_IsValid_def)
qed

text \<open>The sample node after its first commit.\<close>

theorem round_state_well_typed_witness:
  "\<exists>s. reachable (default_node sample_ext sample_block_db) sample_config sample_genesis Map.empty
         (Some sample_key) s
     \<and> Height (sys_cs s) = 2 \<and> RoundStepType_IsValid (Step (sys_cs s)) \<and> is_i32 (Round (sys_cs s) + 1)"
proof -
  obtain s where r: "sample_run [TickerTick, TickerFire, Tock 0, InternalMsg, InternalMsg, InternalMsg] = Some s"
    and p: "Height (sys_cs s) = 2"
    using sample_committed by (elim exE conjE)
  have reach: "reachable (default_node sample_ext sample_block_db) sample_config sample_genesis Map.empty
      (Some sample_key) s"
    using sample_run_reachable [OF r] by (simp only: sample_node_def)
  have "hash_to_ok sample_ext" by (auto simp: hash_to_ok_def sample_ext_def split: option.splits)
  then show ?thesis using round_state_well_typed [OF sample_hypotheses _ reach refl] reach p by blast
qed

end
