(* ===== verification/CS_Lone.thy ===== *)
theory CS_Lone
  imports CS_Progress CS_Votes CS_Types CS_Evidence
begin

text \<open>
  A lone validator makes a block on its own. The phases of a round, which \<open>CS_Votes\<close> and \<open>CS_Progress\<close>
  treat one by one, joined with the ticker and the internal queue: from the start of a height, events
  of the node's own goroutines alone (\<open>receiveRoutine\<close> of \<open>consensus/consensus_state.go\<close> and the
  ticker of \<open>consensus/timeout_ticker.go\<close>) lead to the next height.
\<close>

section \<open>The ticker delivers\<close>

lemma bounded_run_append:
  "bounded_run E (xs @ ys) s = (case bounded_run E xs s of None \<Rightarrow> None | Some t \<Rightarrow> bounded_run E ys t)"
  by (induction E xs s rule: bounded_run.induct) (auto split: sum.split)

text \<open>The ticker takes everything that is in \<open>tickChan\<close>.\<close>

lemma ticker_takes_all:
  assumes "Height (sys_cs s) + 1 \<noteq> 0"
  shows "\<exists>t. bounded_run N (replicate (length (tickChan (sys_cs s))) TickerTick) s = Some t
    \<and> sys_cs t = (sys_cs s)\<lparr>tickChan := []\<rparr>"
  using assms
proof (induction "tickChan (sys_cs s)" arbitrary: s)
  case Nil
  then show ?case by (cases "sys_cs s") simp
next
  case (Cons ti tis)
  let ?s = "s\<lparr>sys_cs := (sys_cs s)\<lparr>tickChan := tis\<rparr>, sys_ticker := ticker_tick ti (sys_ticker s)\<rparr>"
  obtain t where "bounded_run N (replicate (length tis) TickerTick) ?s = Some t"
    "sys_cs t = (sys_cs s)\<lparr>tickChan := []\<rparr>"
    using Cons.hyps(1) [of ?s] Cons.prems by auto
  then show ?case using Cons.hyps(2) [symmetric] Cons.prems by auto
qed

lemma take_nth_in: "x \<in> set xs \<Longrightarrow> \<exists>k ys. take_nth k xs = Some (x, ys)"
  by (auto simp: take_nth_def in_set_conv_nth)

text \<open>So the timeout a node waits for can be received after some steps of the ticker.\<close>

lemma awaited_timeout_delivered:
  assumes reach: "\<And>evs t. bounded_run N evs s = Some t \<Longrightarrow> timeouts_inv t" and w: "waiting (sys_cs s)"
    and h: "Height (sys_cs s) + 1 \<noteq> 0"
  shows "\<exists>evs t k ti rest. bounded_run N evs s = Some t \<and> set evs \<subseteq> {TickerTick, TickerFire}
    \<and> sys_cs t = (sys_cs s)\<lparr>tickChan := []\<rparr>
    \<and> take_nth k (tt_tockChan (sys_ticker t)) = Some (ti, rest) \<and> ti_key ti = due (sys_cs s)"
proof -
  obtain u where u: "bounded_run N (replicate (length (tickChan (sys_cs s))) TickerTick) s = Some u"
    "sys_cs u = (sys_cs s)\<lparr>tickChan := []\<rparr>"
    using ticker_takes_all [OF h] by blast
  have d: "waiting (sys_cs u)" "due (sys_cs u) = due (sys_cs s)"
    using w u(2) by (simp_all add: waiting_def due_def)
  then have c: "ticker_carries (sys_ticker u) (due (sys_cs s))"
    using reach [OF u(1)] u(2) by (auto simp: timeouts_inv_def on_its_way_def)
  define t where "t = u\<lparr>sys_ticker := ticker_fire (sys_ticker u)\<rparr>"
  have "bounded_run N (replicate (length (tickChan (sys_cs s))) TickerTick @ [TickerFire]) s = Some t"
    using u h by (simp add: bounded_run_append t_def)
  moreover have "due (sys_cs s) \<in> ti_key ` set (tt_tockChan (sys_ticker t))"
    using c by (auto simp: t_def ticker_carries_def ticker_fire_def)
  then obtain ti where "ti \<in> set (tt_tockChan (sys_ticker t))" "ti_key ti = due (sys_cs s)" by auto
  moreover have "sys_cs t = (sys_cs s)\<lparr>tickChan := []\<rparr>" by (simp add: t_def u)
  moreover have "set (replicate (length (tickChan (sys_cs s))) TickerTick @ [TickerFire]) \<subseteq> {TickerTick, TickerFire}"
    by auto
  ultimately show ?thesis using take_nth_in by metis
qed

section \<open>What the node needs\<close>

text \<open>The start of a height, as \<open>updateToState\<close> leaves it.\<close>

definition fresh :: "('val, 'vs, 'hvs, 'blk, 'bs, 'pv) consensus_state \<Rightarrow> bool" where
  "fresh cs \<longleftrightarrow> Step cs = RoundStepNewHeight \<and> Proposal cs = None \<and> LockedBlock cs = None
     \<and> ValidBlock cs = None \<and> internalMsgQueue cs = []"

text \<open>The node is the validator whose single vote decides: in the vote sets \<open>vs\<close> of round 0, its own
  prevote for \<open>h\<close> is a majority of the prevotes, and its own precommit then one of the precommits,
  from which a commit can be made.\<close>

definition decides ::
  "('val, 'vs, 'hvs, 'blk, 'bs, 'pv) node \<Rightarrow> ('val, 'vs, 'hvs, 'blk, 'bs, 'pv) consensus_state
     \<Rightarrow> hash \<Rightarrow> 'hvs option \<Rightarrow> bool" where
  "decides N cs h vs \<longleftrightarrow> \<not> snd (vs_TwoThirdsMajority N (hvs_Prevotes N vs 0))
     \<and> (\<forall>v. own_vote N cs PrevoteType h v \<longrightarrow> (\<exists>vs1. hvs_AddVote N v [] vs = Inr ((True, None), vs1)
         \<and> vs_TwoThirdsMajority N (hvs_Prevotes N vs1 0) = (h, True) \<and> 0 \<le> fst (hvs_POLInfo N vs1)
         \<and> (\<forall>w. own_vote N cs PrecommitType h w \<longrightarrow> (\<exists>vs2 c. hvs_AddVote N w [] vs1 = Inr ((True, None), vs2)
             \<and> vs_TwoThirdsMajority N (hvs_Precommits N vs2 0) = (h, True)
             \<and> vs_MakeCommit N (hvs_Precommits N vs2 0) = Inr c))))"

text \<open>The proposer of the round has the key of the node.\<close>

definition proposer_key ::
  "('val, 'vs, 'hvs, 'blk, 'bs, 'pv) node \<Rightarrow> ('val, 'vs, 'hvs, 'blk, 'bs, 'pv) consensus_state \<Rightarrow> bool" where
  "proposer_key N cs \<longleftrightarrow> (\<exists>v. vals_GetProposer N (Validators cs) = Some v
     \<and> (\<forall>pv q p. privValidator cs = Some pv \<and> pv_SignProposal N pv (st_ChainID (chainState cs)) q = (None, p)
         \<longrightarrow> PubKey_VerifySignature N (val_PubKey v) (ProposalSignBytes N p (st_ChainID (chainState cs)))
               (p_Signature p)))"

text \<open>A lone validator with the block \<open>b\<close> to propose, whose next chain state is \<open>st\<close>: it can sign,
  its vote decides, and the block is valid and can be saved and applied.\<close>

definition lone ::
  "('val, 'vs, 'hvs, 'blk, 'bs, 'pv) node \<Rightarrow> ('val, 'vs, 'hvs, 'blk, 'bs, 'pv) consensus_state
     \<Rightarrow> 'blk \<Rightarrow> 'val chain_state \<Rightarrow> bool" where
  "lone N cs b st \<longleftrightarrow> can_sign N cs \<and> can_propose N cs b \<and> proposer_key N cs
     \<and> (\<exists>vs. hvs_SetRound N 1 (Votes cs) = Inr vs \<and> decides N cs (blk_Hash N b) vs)
     \<and> blk_Hash N b \<noteq> 0 \<and> blk_HashTo N (Some b) (blk_Hash N b)
     \<and> be_ValidateBlock N (chainState cs) b = Inr None
     \<and> (\<forall>c. \<exists>bs. store_SaveBlock N b c (blockStore cs) = Inr bs)
     \<and> be_ApplyBlock N (ChainState_Copy N (chainState cs)) b = Inr (Inr st)
     \<and> \<not> SkipTimeoutCommit (cs_config cs)"

section \<open>The phases of the round\<close>

text \<open>The proposal is on the queue; the prevote is on the queue; the precommit is on the queue.\<close>

definition proposed ::
  "('val, 'vs, 'hvs, 'blk, 'bs, 'pv) node \<Rightarrow> ('val, 'vs, 'hvs, 'blk, 'bs, 'pv) consensus_state
     \<Rightarrow> 'blk \<Rightarrow> 'hvs option \<Rightarrow> ('val, 'vs, 'hvs, 'blk, 'bs, 'pv) consensus_state \<Rightarrow> bool" where
  "proposed N cs b vs t \<longleftrightarrow> pos t = (Height cs, 0, RoundStepPropose) \<and> kept cs t \<and> locks t = locks cs \<and> Votes t = vs
     \<and> (\<exists>p pv q. internalMsgQueue t = [\<lparr>mi_Msg = ProposalMessage p, mi_PeerID = []\<rparr>]
          \<and> p_Height p = Height cs \<and> p_Round p = 0 \<and> p_POLRound p = - 1 \<and> p_Block p = Some b
          \<and> privValidator cs = Some pv \<and> pv_SignProposal N pv (st_ChainID (chainState cs)) q = (None, p))"

definition prevoted ::
  "('val, 'vs, 'hvs, 'blk, 'bs, 'pv) node \<Rightarrow> ('val, 'vs, 'hvs, 'blk, 'bs, 'pv) consensus_state
     \<Rightarrow> 'blk \<Rightarrow> 'hvs option \<Rightarrow> ('val, 'vs, 'hvs, 'blk, 'bs, 'pv) consensus_state \<Rightarrow> bool" where
  "prevoted N cs b vs t \<longleftrightarrow> pos t = (Height cs, 0, RoundStepPrevote) \<and> kept cs t \<and> Votes t = vs
     \<and> LockedBlock t = None \<and> ProposalBlock t = Some b \<and> (\<exists>p. Proposal t = Some p \<and> p_POLRound p = - 1)
     \<and> (\<exists>v. internalMsgQueue t = [\<lparr>mi_Msg = VoteMessage v, mi_PeerID = []\<rparr>]
          \<and> own_vote N cs PrevoteType (blk_Hash N b) v \<and> vote_key v = (Height cs, 0, PrevoteType))"

definition precommitted ::
  "('val, 'vs, 'hvs, 'blk, 'bs, 'pv) node \<Rightarrow> ('val, 'vs, 'hvs, 'blk, 'bs, 'pv) consensus_state
     \<Rightarrow> 'blk \<Rightarrow> 'hvs option \<Rightarrow> ('val, 'vs, 'hvs, 'blk, 'bs, 'pv) consensus_state \<Rightarrow> bool" where
  "precommitted N cs b vs t \<longleftrightarrow> pos t = (Height cs, 0, RoundStepPrecommit) \<and> kept cs t \<and> Votes t = vs
     \<and> LockedBlock t = Some b
     \<and> (\<exists>v. internalMsgQueue t = [\<lparr>mi_Msg = VoteMessage v, mi_PeerID = []\<rparr>]
          \<and> own_vote N cs PrecommitType (blk_Hash N b) v \<and> vote_key v = (Height cs, 0, PrecommitType))"

lemma own_vote_kept:
  assumes "kept cs t" and "Height t = Height cs" and "Round t = Round cs"
  shows "own_vote N t T h v = own_vote N cs T h v"
  using assms by (simp add: own_vote_def kept_def)

lemma sent_alone:
  assumes "sent m cs t" and "internalMsgQueue cs = []"
  shows "internalMsgQueue t = [\<lparr>mi_Msg = m, mi_PeerID = []\<rparr>]"
  using assms by (simp add: sent_def msgQueueSize_def)

context consensus_node
begin

lemma lone_proposes:
  assumes new: "new_proposal_ok N" and f: "fresh cs" and r: "Round cs = 0" "ValidRound cs = - 1"
    and can: "can_propose N cs b" and vs: "hvs_SetRound N 1 (Votes cs) = Inr vs"
    and ti: "ti_key ti = (Height cs, 0, RoundStepNewHeight)"
  shows "\<exists>t. handleTimeout N ti (GetRoundState cs) cs = Inr t \<and> proposed N cs b vs t"
proof -
  let ?u = "(updateRoundStep 0 RoundStepNewRound (cs\<lparr>cs_clock := Suc (cs_clock cs)\<rparr>))
    \<lparr>Validators := Validators cs, Votes := vs, TriggeredTimeoutPrecommit := False\<rparr>"
  have f': "Step cs = RoundStepNewHeight" "Proposal cs = None" "internalMsgQueue cs = []"
    using f by (simp_all add: fresh_def)
  have u: "Height ?u = Height cs" "Round ?u = 0" "Step ?u = RoundStepNewRound" "Proposal ?u = None"
    "ValidRound ?u = - 1" "Votes ?u = vs" "internalMsgQueue ?u = []" "kept cs ?u" "locks ?u = locks cs"
    "chainState ?u = chainState cs" "privValidator ?u = privValidator cs"
    using f' r by (simp_all add: machine_defs kept_def locks_def)
  have c: "createProposalBlock N ?u = createProposalBlock N cs" "isProposer N a ?u = isProposer N a cs" for a
    by (simp_all add: createProposalBlock_def isProposer_def machine_defs cong: option.case_cong if_cong)
  have "can_propose N ?u b"
    using can unfolding can_propose_def c by (simp add: machine_defs)
  then obtain t p pv q where t: "enterPropose N (Height ?u) 0 ?u = Inr t" "sent (ProposalMessage p) ?u t"
    "p_Height p = Height ?u" "p_Round p = 0" "p_POLRound p = ValidRound ?u" "p_Block p = Some b"
    "pos t = (Height ?u, 0, RoundStepPropose)" "kept ?u t" "locks t = locks ?u" "Votes t = Votes ?u"
    "privValidator ?u = Some pv" "pv_SignProposal N pv (st_ChainID (chainState ?u)) q = (None, p)"
    using enterPropose_proposes [OF new, of ?u b 0] u(2-4) by auto
  have "kept cs t" using u(8) t(8) by (simp add: kept_def)
  then have "proposed N cs b vs t"
    unfolding proposed_def using t u sent_alone [OF t(2) u(7)] by auto
  moreover have "enterNewRound N (Height cs) 0 cs = enterPropose N (Height cs) 0 ?u"
    using f' r vs by (simp add: enterNewRound_def CanonicalNow_def SafeAddInt32_def MaxInt32_def i32_def machine_defs)
  moreover have "handleTimeout N ti (GetRoundState cs) cs = enterNewRound N (Height cs) 0 cs"
    using ti f' r by (simp add: handleTimeout_def ti_key_def GetRoundState_def round_state.defs)
  ultimately show ?thesis using t(1) u(1) by auto
qed

lemma lone_prevotes:
  assumes p: "proposed N cs b vs t" and f: "fresh cs" and r: "Round cs = 0" and l: "lone N cs b st"
    and d: "decides N cs (blk_Hash N b) vs" and q: "internalMsgQueue t = mi # mis"
  shows "\<exists>u. handleMsg N mi (t\<lparr>internalMsgQueue := mis\<rparr>) = Inr u \<and> prevoted N cs b vs u"
proof -
  let ?t = "t\<lparr>internalMsgQueue := mis\<rparr>"
  obtain p pv q where p': "mi = \<lparr>mi_Msg = ProposalMessage p, mi_PeerID = []\<rparr>" "mis = []"
    "p_Height p = Height cs" "p_Round p = 0" "p_POLRound p = - 1" "p_Block p = Some b"
    "privValidator cs = Some pv" "pv_SignProposal N pv (st_ChainID (chainState cs)) q = (None, p)"
    using p q by (auto simp: proposed_def)
  obtain v where v: "vals_GetProposer N (Validators cs) = Some v"
    "PubKey_VerifySignature N (val_PubKey v) (ProposalSignBytes N p (st_ChainID (chainState cs))) (p_Signature p)"
    using l p'(7,8) by (auto simp: lone_def proposer_key_def)
  have k: "kept cs ?t" "pos ?t = (Height cs, 0, RoundStepPropose)" "Votes ?t = vs" "locks ?t = locks cs"
    using p by (simp_all add: proposed_def kept_def pos_def locks_def)
  have s: "can_sign N ?t" by (rule can_sign_cong [of N cs]) (use l k in \<open>auto simp: lone_def kept_def\<close>)
  have t: "Proposal ?t = None" "Height ?t = Height cs" "Round ?t = 0" "Step ?t = RoundStepPropose"
    "LockedBlock ?t = None" "chainState ?t = chainState cs" "Validators ?t = Validators cs"
    using k f by (simp_all add: pos_def locks_def fresh_def kept_def)
  obtain u where u: "handleMsg N mi ?t = Inr u" "casts N PrevoteType (blk_Hash N b) ?t u"
    "pos u = (Height cs, 0, RoundStepPrevote)" "kept ?t u"
    "locks u = locks (?t\<lparr>Proposal := Some p, ProposalBlock := Some b\<rparr>)" "Votes u = vs"
    using proposal_casts [OF s t(1), of p b v None "blk_Hash N b" "[]"] t p' v l d k(3)
    by (auto simp: lone_def decides_def)
  obtain w where w: "own_vote N ?t PrevoteType (blk_Hash N b) w" "vote_key w = (Height ?t, Round ?t, PrevoteType)"
    "sent (VoteMessage w) ?t u"
    using u(2) by (auto simp: casts_def)
  have "internalMsgQueue u = [\<lparr>mi_Msg = VoteMessage w, mi_PeerID = []\<rparr>]"
    by (rule sent_alone [OF w(3)]) (simp add: p'(2))
  moreover have "own_vote N cs PrevoteType (blk_Hash N b) w"
    using w(1) own_vote_kept [OF k(1)] t(2,3) r by simp
  moreover have "kept cs u" using k(1) u(4) by (simp add: kept_def)
  ultimately have "prevoted N cs b vs u"
    unfolding prevoted_def using u(3,5,6) w(2) t p'(5) by (auto simp: locks_def)
  with u(1) show ?thesis by blast
qed

lemma lone_precommits:
  assumes p: "prevoted N cs b vs t" and r: "Round cs = 0" and l: "lone N cs b st" and hash: "hash_to_ok N"
    and d: "decides N cs (blk_Hash N b) vs" and q: "internalMsgQueue t = mi # mis"
  shows "\<exists>u vs'. handleMsg N mi (t\<lparr>internalMsgQueue := mis\<rparr>) = Inr u \<and> precommitted N cs b vs' u
    \<and> (\<forall>w. own_vote N cs PrecommitType (blk_Hash N b) w \<longrightarrow>
         (\<exists>vs2 c. hvs_AddVote N w [] vs' = Inr ((True, None), vs2)
            \<and> vs_TwoThirdsMajority N (hvs_Precommits N vs2 0) = (blk_Hash N b, True)
            \<and> vs_MakeCommit N (hvs_Precommits N vs2 0) = Inr c))"
proof -
  let ?t = "t\<lparr>internalMsgQueue := mis\<rparr>"
  obtain v where v: "mi = \<lparr>mi_Msg = VoteMessage v, mi_PeerID = []\<rparr>" "mis = []"
    "own_vote N cs PrevoteType (blk_Hash N b) v" "vote_key v = (Height cs, 0, PrevoteType)"
    using p q by (auto simp: prevoted_def)
  obtain vs1 where vs1: "hvs_AddVote N v [] vs = Inr ((True, None), vs1)"
    "vs_TwoThirdsMajority N (hvs_Prevotes N vs1 0) = (blk_Hash N b, True)" "0 \<le> fst (hvs_POLInfo N vs1)"
    and next_votes: "\<forall>w. own_vote N cs PrecommitType (blk_Hash N b) w \<longrightarrow>
         (\<exists>vs2 c. hvs_AddVote N w [] vs1 = Inr ((True, None), vs2)
            \<and> vs_TwoThirdsMajority N (hvs_Precommits N vs2 0) = (blk_Hash N b, True)
            \<and> vs_MakeCommit N (hvs_Precommits N vs2 0) = Inr c)"
    using d v(3) unfolding decides_def by blast
  have k: "kept cs ?t" "Votes ?t = vs" using p by (simp_all add: prevoted_def kept_def)
  have s: "can_sign N ?t" by (rule can_sign_cong [of N cs]) (use l k in \<open>auto simp: lone_def kept_def\<close>)
  have t: "Height ?t = Height cs" "Round ?t = 0" "Step ?t = RoundStepPrevote" "LockedBlock ?t = None"
    "ProposalBlock ?t = Some b" "isProposalComplete N (?t\<lparr>Votes := vs1\<rparr>)" "chainState ?t = chainState cs"
    using p k by (auto simp: prevoted_def pos_def kept_def isProposalComplete_def)
  have b: "blk_Hash N b \<noteq> 0" "blk_HashTo N (Some b) (blk_Hash N b)" "be_ValidateBlock N (chainState cs) b = Inr None"
    using l by (simp_all add: lone_def)
  have e: "v_Height v = Height ?t" "v_Round v = Round ?t" "v_Type v = PrevoteType"
    using v(4) t by (simp_all add: vote_key_def)
  obtain u where u: "handleMsg N mi ?t = Inr u" "casts N PrecommitType (blk_Hash N b) ?t u"
    "pos u = (Height cs, 0, RoundStepPrecommit)" "kept ?t u" "Votes u = vs1"
    "blk_HashTo N (LockedBlock u) (blk_Hash N b)" "LockedBlock u = None \<or> LockedBlock u = Some b"
    using polka_casts [OF s _ _ e, of "[]" None vs1 "blk_Hash N b" b] t v(1) vs1 b k(2) by auto
  have lb: "LockedBlock u = Some b" using u(6,7) hash unfolding hash_to_ok_def by (metis option.distinct(1))
  obtain w where w: "own_vote N ?t PrecommitType (blk_Hash N b) w"
    "vote_key w = (Height ?t, Round ?t, PrecommitType)" "sent (VoteMessage w) ?t u"
    using u(2) by (auto simp: casts_def)
  have "internalMsgQueue u = [\<lparr>mi_Msg = VoteMessage w, mi_PeerID = []\<rparr>]"
    by (rule sent_alone [OF w(3)]) (simp add: v(2))
  moreover have "own_vote N cs PrecommitType (blk_Hash N b) w"
    using w(1) own_vote_kept [OF k(1)] t(1,2) r by simp
  moreover have "kept cs u" using k(1) u(4) by (simp add: kept_def)
  ultimately have "precommitted N cs b vs1 u"
    unfolding precommitted_def using u(3,5) lb w(2) t by auto
  with u(1) next_votes show ?thesis by blast
qed

lemma lone_commits:
  assumes p: "precommitted N cs b vs t" and l: "lone N cs b st" and lib: "library_ok N"
    and inv: "cs_inv t" and init: "initial_ok (chainState t)" and bound: "Height cs + 1 \<noteq> 0"
    and d: "\<forall>w. own_vote N cs PrecommitType (blk_Hash N b) w \<longrightarrow>
         (\<exists>vs2 c. hvs_AddVote N w [] vs = Inr ((True, None), vs2)
            \<and> vs_TwoThirdsMajority N (hvs_Precommits N vs2 0) = (blk_Hash N b, True)
            \<and> vs_MakeCommit N (hvs_Precommits N vs2 0) = Inr c)"
    and q: "internalMsgQueue t = mi # mis"
  shows "\<exists>u. handleMsg N mi (t\<lparr>internalMsgQueue := mis\<rparr>) = Inr u \<and> Height u = Height cs + 1 \<and> Round u = 0
    \<and> chainState u = st \<and> fresh u"
proof -
  let ?t = "t\<lparr>internalMsgQueue := mis\<rparr>"
  obtain w where w: "mi = \<lparr>mi_Msg = VoteMessage w, mi_PeerID = []\<rparr>" "mis = []"
    "own_vote N cs PrecommitType (blk_Hash N b) w" "vote_key w = (Height cs, 0, PrecommitType)"
    using p q by (auto simp: precommitted_def)
  obtain vs2 c where vs2: "hvs_AddVote N w [] vs = Inr ((True, None), vs2)"
    "vs_TwoThirdsMajority N (hvs_Precommits N vs2 0) = (blk_Hash N b, True)"
    "vs_MakeCommit N (hvs_Precommits N vs2 0) = Inr c"
    using d w(3) by blast
  have k: "kept cs ?t" "Votes ?t = vs" "LockedBlock ?t = Some b" "Height ?t = Height cs" "Round ?t = 0"
    "Step ?t = RoundStepPrecommit"
    using p by (simp_all add: precommitted_def kept_def pos_def)
  then have c: "chainState ?t = chainState cs" "blockStore ?t = blockStore cs" "cs_config ?t = cs_config cs"
    by (simp_all add: kept_def)
  obtain bs where bs: "store_SaveBlock N b c (blockStore cs) = Inr bs" using l by (auto simp: lone_def)
  have "core ?t = core t" by (simp add: core_def pos_def)
  from core_inv [OF this] have i: "cs_inv ?t" using inv by blast
  have e: "v_Height w = Height ?t" "v_Round w = Round ?t" "v_Type w = PrecommitType"
    using w(4) k by (simp_all add: vote_key_def)
  obtain u where u: "handleMsg N mi ?t = Inr u" "pos u = (Height ?t + 1, 0, RoundStepNewHeight)"
    "chainState u = st" "restarted ?t u"
    using precommit_commits [OF lib i _ _ _ _ e, of "[]" None vs2 "blk_Hash N b" b c bs st] init bound k c w(1) vs2 bs l
    by (auto simp: lone_def)
  then show ?thesis using k w(2) by (auto simp: pos_def fresh_def restarted_def)
qed

lemma lone_tick:
  assumes "lone N cs b st" and "fresh cs"
  shows "lone N (cs\<lparr>tickChan := l\<rparr>) b st" and "fresh (cs\<lparr>tickChan := l\<rparr>)"
proof -
  let ?u = "cs\<lparr>tickChan := l\<rparr>"
  have c: "createProposalBlock N ?u = createProposalBlock N cs" "isProposer N a ?u = isProposer N a cs" for a
    by (simp_all add: createProposalBlock_def isProposer_def cong: option.case_cong if_cong)
  have "can_propose N ?u b = can_propose N cs b" unfolding can_propose_def c by simp
  moreover have "can_sign N ?u = can_sign N cs" "proposer_key N ?u = proposer_key N cs"
    by (simp_all add: can_sign_def proposer_key_def)
  moreover have "decides N ?u h vs = decides N cs h vs" for h vs
    using own_vote_kept [of cs ?u] by (simp add: decides_def kept_def)
  ultimately show "lone N ?u b st" using assms(1) by (simp add: lone_def)
  show "fresh ?u" using assms(2) by (simp add: fresh_def)
qed

lemma lone_messages:
  assumes inv: "\<And>evs t. bounded_run N evs s = Some t
      \<Longrightarrow> cs_inv (sys_cs t) \<and> initial_ok (chainState (sys_cs t)) \<and> timeouts_inv t"
    and hash: "hash_to_ok N" and lib: "library_ok N" and f: "fresh c" and r: "Round c = 0" and l: "lone N c b st"
    and p: "proposed N c b vs (sys_cs s)" and d: "decides N c (blk_Hash N b) vs" and h: "Height c + 1 \<noteq> 0"
  shows "\<exists>u. bounded_run N [InternalMsg, InternalMsg, InternalMsg] s = Some (s\<lparr>sys_cs := u\<rparr>)
    \<and> Height u = Height c + 1 \<and> Round u = 0 \<and> chainState u = st \<and> fresh u"
proof -
  obtain m1 q1 where q1: "internalMsgQueue (sys_cs s) = m1 # q1" using p by (auto simp: proposed_def)
  obtain c2 where c2: "handleMsg N m1 ((sys_cs s)\<lparr>internalMsgQueue := q1\<rparr>) = Inr c2" "prevoted N c b vs c2"
    using lone_prevotes [OF p f r l d q1] by blast
  obtain m2 q2 where q2: "internalMsgQueue c2 = m2 # q2" using c2(2) by (auto simp: prevoted_def)
  obtain c3 vs' where c3: "handleMsg N m2 (c2\<lparr>internalMsgQueue := q2\<rparr>) = Inr c3" "precommitted N c b vs' c3"
    "\<forall>w. own_vote N c PrecommitType (blk_Hash N b) w \<longrightarrow>
         (\<exists>vs2 c. hvs_AddVote N w [] vs' = Inr ((True, None), vs2)
            \<and> vs_TwoThirdsMajority N (hvs_Precommits N vs2 0) = (blk_Hash N b, True)
            \<and> vs_MakeCommit N (hvs_Precommits N vs2 0) = Inr c)"
    using lone_precommits [OF c2(2) r l hash d q2] by blast
  obtain m3 q3 where q3: "internalMsgQueue c3 = m3 # q3" using c3(2) by (auto simp: precommitted_def)
  have hs: "Height (sys_cs s) + 1 \<noteq> 0" "Height c2 + 1 \<noteq> 0" "Height c3 + 1 \<noteq> 0"
    using p c2(2) c3(2) h by (simp_all add: proposed_def prevoted_def precommitted_def pos_def)
  have two: "bounded_run N [InternalMsg, InternalMsg] s = Some (s\<lparr>sys_cs := c3\<rparr>)"
    using q1 c2(1) q2 c3(1) hs by simp
  obtain c4 where c4: "handleMsg N m3 (c3\<lparr>internalMsgQueue := q3\<rparr>) = Inr c4" "Height c4 = Height c + 1" "Round c4 = 0"
    "chainState c4 = st" "fresh c4"
    using lone_commits [OF c3(2) l lib _ _ h c3(3) q3] inv [OF two] by auto
  have "bounded_run N [InternalMsg, InternalMsg, InternalMsg] s = Some (s\<lparr>sys_cs := c4\<rparr>)"
    using q1 c2(1) q2 c3(1) q3 c4(1) hs by simp
  with c4 show ?thesis by blast
qed

lemma lone_run:
  assumes inv: "\<And>evs t. bounded_run N evs s = Some t
      \<Longrightarrow> cs_inv (sys_cs t) \<and> initial_ok (chainState (sys_cs t)) \<and> timeouts_inv t"
    and new: "new_proposal_ok N" and hash: "hash_to_ok N" and lib: "library_ok N"
    and f: "fresh (sys_cs s)" and v: "ValidRound (sys_cs s) = - 1" and l: "lone N (sys_cs s) b st"
    and h: "Height (sys_cs s) + 1 \<noteq> 0"
  shows "\<exists>evs t. bounded_run N evs s = Some t \<and> set evs \<subseteq> {TickerTick, TickerFire, InternalMsg} \<union> range Tock
    \<and> Height (sys_cs t) = Height (sys_cs s) + 1 \<and> Round (sys_cs t) = 0 \<and> chainState (sys_cs t) = st
    \<and> fresh (sys_cs t)"
proof -
  have "timeouts_inv s" using inv [of "[]" s] by simp
  then have r: "Round (sys_cs s) = 0" "due (sys_cs s) = (Height (sys_cs s), 0, RoundStepNewHeight)"
    "waiting (sys_cs s)"
    using f by (auto simp: timeouts_inv_def round_fits_def fresh_def due_def waiting_def)
  obtain evs t k ti rest where t: "bounded_run N evs s = Some t" "set evs \<subseteq> {TickerTick, TickerFire}"
    "sys_cs t = (sys_cs s)\<lparr>tickChan := []\<rparr>"
    "take_nth k (tt_tockChan (sys_ticker t)) = Some (ti, rest)" "ti_key ti = due (sys_cs s)"
    using awaited_timeout_delivered [OF _ r(3) h, of N] inv by blast
  let ?c = "sys_cs t"
  have c: "lone N ?c b st" "fresh ?c" "Round ?c = 0" "ValidRound ?c = - 1" "Height ?c = Height (sys_cs s)"
    using lone_tick [OF l f] r v by (simp_all add: t(3))
  obtain vs where vs: "hvs_SetRound N 1 (Votes ?c) = Inr vs" "decides N ?c (blk_Hash N b) vs"
    and can: "can_propose N ?c b"
    using c(1) by (auto simp: lone_def)
  obtain c1 where c1: "handleTimeout N ti (GetRoundState ?c) ?c = Inr c1" "proposed N ?c b vs c1"
    using lone_proposes [OF new c(2,3,4) can vs(1)] t(5) r(2) c(5) by auto
  define s1 where "s1 = t\<lparr>sys_cs := c1, sys_ticker := (sys_ticker t)\<lparr>tt_tockChan := rest\<rparr>\<rparr>"
  have r1: "bounded_run N (evs @ [Tock k]) s = Some s1"
    using t(1,4) c1(1) h c(5) by (simp add: bounded_run_append s1_def)
  have "cs_inv (sys_cs u) \<and> initial_ok (chainState (sys_cs u)) \<and> timeouts_inv u" if "bounded_run N es s1 = Some u" for es u
    by (rule inv [of "(evs @ [Tock k]) @ es"]) (simp only: bounded_run_append [of N "evs @ [Tock k]"] r1 option.case that)
  moreover have "proposed N ?c b vs (sys_cs s1)" using c1(2) by (simp add: s1_def)
  moreover have "Height ?c + 1 \<noteq> 0" using c(5) h by simp
  ultimately obtain u where u: "bounded_run N [InternalMsg, InternalMsg, InternalMsg] s1 = Some (s1\<lparr>sys_cs := u\<rparr>)"
    "Height u = Height ?c + 1" "Round u = 0" "chainState u = st" "fresh u"
    using lone_messages [OF _ hash lib c(2,3,1) _ vs(2), of s1] by blast
  have "bounded_run N ((evs @ [Tock k]) @ [InternalMsg, InternalMsg, InternalMsg]) s = Some (s1\<lparr>sys_cs := u\<rparr>)"
    by (simp only: bounded_run_append [of N "evs @ [Tock k]"] r1 option.case u(1))
  moreover have "set ((evs @ [Tock k]) @ [InternalMsg, InternalMsg, InternalMsg])
      \<subseteq> {TickerTick, TickerFire, InternalMsg} \<union> range Tock"
    using t(2) by auto
  moreover have "sys_cs (s1\<lparr>sys_cs := u\<rparr>) = u" by simp
  ultimately show ?thesis using u c(5) by metis
qed

end

section \<open>The sample node\<close>

lemma sample_fresh:
  "\<exists>s. sample_run [] = Some s \<and> Height (sys_cs s) = 1 \<and> fresh (sys_cs s) \<and> chainState (sys_cs s) = sample_genesis
     \<and> privValidator (sys_cs s) = Some sample_key \<and> privValidatorPubKey (sys_cs s) = Some (EcdsaPubKey 5)
     \<and> Validators (sys_cs s) = Some sample_validators \<and> blockStore (sys_cs s) = Map.empty
     \<and> Votes (sys_cs s) = Some \<lparr>svs_vals = sample_validators, svs_votes = []\<rparr>
     \<and> cs_config (sys_cs s) = sample_config \<and> Round (sys_cs s) = 0"
  by (simp add: sample_run_defs sample_validators_def fresh_def state_machine_defs library_defs cong: eval_cong)

lemma sample_proposal:
  assumes "Height cs = 1" and "fresh cs" and "chainState cs = sample_genesis"
    and "privValidator cs = Some sample_key" and "privValidatorPubKey cs = Some (EcdsaPubKey 5)"
    and "Validators cs = Some sample_validators" and "blockStore cs = Map.empty"
  shows "\<exists>b st. can_propose sample_node cs b \<and> sample_hash b \<noteq> 0
    \<and> validateBlock sample_ext sample_genesis b = Inr None
    \<and> (\<forall>c. \<exists>bs. BlockStore_SaveBlock sample_block_db (blk_NumberU64 sample_ext) b c (blockStore cs) = Inr bs)
    \<and> DefaultBlockExecutor_ApplyBlock sample_ext (ChainState_Copy sample_ext sample_genesis) b = Inr (Inr st)"
  using assms
  by (simp add: can_propose_def fresh_def sample_validators_def isProposer_def createProposalBlock_def
      sample_run_defs MakeGenesisChainState_def library_defs cong: eval_cong)

lemma sample_node_fields:
  "hvs_AddVote sample_node v p vs = sample_add v vs" "hvs_Prevotes sample_node = sample_round PrevoteType"
  "hvs_Precommits sample_node = sample_round PrecommitType" "vs_TwoThirdsMajority sample_node = sample_majority"
  "hvs_POLInfo sample_node = sample_pol" "vs_MakeCommit sample_node = sample_commit"
  "pv_SignVote sample_node = PrivValidatorLocal_SignVote sample_ext"
  by (simp_all add: sample_node_def default_node_def ext.defs sample_ext_def)

text \<open>A vote of the only validator is what it should be, is added, and is a majority.\<close>

definition sole_vote :: "SignedMsgType \<Rightarrow> hash \<Rightarrow> vote \<Rightarrow> bool" where
  "sole_vote T h v \<longleftrightarrow> v_ValidatorAddress v = 5 \<and> v_Round v = 0 \<and> v_Type v = T \<and> v_BlockID v = h"

lemma sample_own_vote:
  assumes "own_vote sample_node cs T h v" and "Round cs = 0" and "privValidatorPubKey cs = Some (EcdsaPubKey 5)"
  shows "sole_vote T h v"
  using assms
  by (auto simp: own_vote_def sample_node_fields sole_vote_def dest: SignVote_fields)

lemma sole_prevote:
  assumes "sole_vote PrevoteType h v"
  shows "sample_add v (Some \<lparr>svs_vals = sample_validators, svs_votes = []\<rparr>)
      = Inr ((True, None), Some \<lparr>svs_vals = sample_validators, svs_votes = [v]\<rparr>)"
    and "sample_majority (sample_round PrevoteType (Some \<lparr>svs_vals = sample_validators, svs_votes = [v]\<rparr>) 0) = (h, True)"
    and "0 \<le> fst (sample_pol (Some \<lparr>svs_vals = sample_validators, svs_votes = [v]\<rparr>))"
  using assms by (simp_all add: sole_vote_def sample_validators_def sample_defs)

lemma sole_precommit:
  assumes "sole_vote PrevoteType h v" and "sole_vote PrecommitType h w"
  shows "sample_add w (Some \<lparr>svs_vals = sample_validators, svs_votes = [v]\<rparr>)
      = Inr ((True, None), Some \<lparr>svs_vals = sample_validators, svs_votes = [v, w]\<rparr>)"
    and "sample_majority (sample_round PrecommitType (Some \<lparr>svs_vals = sample_validators, svs_votes = [v, w]\<rparr>) 0)
      = (h, True)"
    and "\<exists>c. sample_commit (sample_round PrecommitType (Some \<lparr>svs_vals = sample_validators, svs_votes = [v, w]\<rparr>) 0) = Inr c"
  using assms by (simp_all add: sole_vote_def sample_validators_def sample_defs)

lemma sample_decides:
  assumes "Round cs = 0" and "privValidatorPubKey cs = Some (EcdsaPubKey 5)"
  shows "decides sample_node cs h (Some \<lparr>svs_vals = sample_validators, svs_votes = []\<rparr>)"
proof -
  have "\<not> snd (sample_majority (sample_round PrevoteType (Some \<lparr>svs_vals = sample_validators, svs_votes = []\<rparr>) 0))"
    by (simp add: sample_defs)
  moreover have "\<exists>vs2 c. sample_add w (Some \<lparr>svs_vals = sample_validators, svs_votes = [v]\<rparr>) = Inr ((True, None), vs2)
      \<and> sample_majority (sample_round PrecommitType vs2 0) = (h, True)
      \<and> sample_commit (sample_round PrecommitType vs2 0) = Inr c"
    if "sole_vote PrevoteType h v" "sole_vote PrecommitType h w" for v w
    using sole_precommit [OF that] by blast
  ultimately show ?thesis
    using sole_prevote [of h] sample_own_vote [OF _ assms]
    unfolding decides_def sample_node_fields by (intro conjI allI impI) (blast intro: exI)+
qed

lemma sample_lone:
  "\<exists>s b st. sample_run [] = Some s \<and> fresh (sys_cs s) \<and> Height (sys_cs s) = 1 \<and> lone sample_node (sys_cs s) b st"
proof -
  obtain s where s: "sample_run [] = Some s"
    and f: "Height (sys_cs s) = 1" "fresh (sys_cs s)" "chainState (sys_cs s) = sample_genesis"
      "privValidator (sys_cs s) = Some sample_key" "privValidatorPubKey (sys_cs s) = Some (EcdsaPubKey 5)"
      "Validators (sys_cs s) = Some sample_validators" "blockStore (sys_cs s) = Map.empty"
      "Votes (sys_cs s) = Some \<lparr>svs_vals = sample_validators, svs_votes = []\<rparr>"
      "cs_config (sys_cs s) = sample_config" "Round (sys_cs s) = 0"
    using sample_fresh by (elim exE conjE)
  obtain b st where b: "can_propose sample_node (sys_cs s) b" "sample_hash b \<noteq> 0"
    "validateBlock sample_ext sample_genesis b = Inr None"
    "\<forall>c. \<exists>bs. BlockStore_SaveBlock sample_block_db (blk_NumberU64 sample_ext) b c (blockStore (sys_cs s)) = Inr bs"
    "DefaultBlockExecutor_ApplyBlock sample_ext (ChainState_Copy sample_ext sample_genesis) b = Inr (Inr st)"
    using sample_proposal [OF f(1-7)] by blast
  have n: "hvs_SetRound sample_node 1 vs = Inr vs" "blk_Hash sample_node = sample_hash"
    "blk_HashTo sample_node (Some b) (sample_hash b)" "proposer_key sample_node (sys_cs s)"
    "\<not> SkipTimeoutCommit sample_config" "ChainState_Copy sample_node = ChainState_Copy sample_ext" for vs
    using f(6) by (simp_all add: sample_node_def default_node_def ext.defs sample_ext_def proposer_key_def sample_vals_def
        sample_validators_def sample_config_def ChainState_Copy_def fun_eq_iff)
  have "lone sample_node (sys_cs s) b st"
    using b n sample_can_sign [OF f(4-6)] sample_decides [OF f(10,5)] f
    by (auto simp: lone_def sample_node_def)
  then show ?thesis using s f by blast
qed

section \<open>Property\<close>

text \<open>C13. A lone validator makes its block without any other node. From every reachable state at the
  start of a height, when its own vote decides and the block it would propose is valid and can be
  saved and applied, there are events of the node itself (the ticker takes and delivers timeouts,
  the node receives them and its own messages) whose run of \<open>receiveRoutine\<close> ends at the start of
  the next height, on the chain state after that block.\<close>

theorem lone_validator_commits:
  assumes "startable state" and "initial_ok state" and "new_proposal_ok E" and "library_ok E" and "hash_to_ok E"
    and "reachable (default_node E D) cfg state store pv s" and "Height (sys_cs s) + 1 \<noteq> 0"
    and "fresh (sys_cs s)" and "lone (default_node E D) (sys_cs s) b st"
  shows "\<exists>evs t. receiveRoutine (default_node E D) 0 evs s = Inr t
    \<and> set evs \<subseteq> {TickerTick, TickerFire, InternalMsg} \<union> range Tock
    \<and> Height (sys_cs t) = Height (sys_cs s) + 1 \<and> Round (sys_cs t) = 0 \<and> fresh (sys_cs t)
    \<and> chainState (sys_cs t) = st"
proof -
  have node: "new_proposal_ok (default_node E D)" "hash_to_ok (default_node E D)" "library_ok (default_node E D)"
    using assms(3-5) default_library_ok
    by (simp_all add: new_proposal_ok_def hash_to_ok_def default_node_def ext.defs)
  have inv: "cs_inv (sys_cs t) \<and> initial_ok (chainState (sys_cs t)) \<and> timeouts_inv t"
    if "bounded_run (default_node E D) evs s = Some t" for evs t
  proof -
    have r: "reachable (default_node E D) cfg state store pv t" by (rule bounded_run_reachable [OF that assms(6)])
    show ?thesis
      using default_reachable_inv [OF assms(1,3) r] default_consensus.reachable_timeouts [OF assms(1) node(1) r]
        default_consensus.chain_links_initial [OF default_reachable_chain [OF assms(1,3) r] assms(2)]
      by (simp add: system_inv_def)
  qed
  have "ValidRound (sys_cs s) = - 1"
    using default_consensus.reachable_typed [OF node(2) assms(1) node(1) assms(6)] assms(8)
    by (simp add: typed_def marks_ok_def mark_ok_def fresh_def)
  then obtain evs t where "bounded_run (default_node E D) evs s = Some t"
    "set evs \<subseteq> {TickerTick, TickerFire, InternalMsg} \<union> range Tock"
    "Height (sys_cs t) = Height (sys_cs s) + 1" "Round (sys_cs t) = 0" "chainState (sys_cs t) = st" "fresh (sys_cs t)"
    using default_consensus.lone_run [OF _ node assms(8) _ assms(9,7)] inv by blast
  then show ?thesis using bounded_run_receiveRoutine by blast
qed


theorem lone_validator_commits_witness:
  "\<exists>s evs t. sample_run [] = Some s \<and> Height (sys_cs s) = 1
     \<and> receiveRoutine (default_node sample_ext sample_block_db) 0 evs s = Inr t
     \<and> set evs \<subseteq> {TickerTick, TickerFire, InternalMsg} \<union> range Tock
     \<and> Height (sys_cs t) = 2 \<and> fresh (sys_cs t)"
proof -
  obtain s b st where s: "sample_run [] = Some s" "fresh (sys_cs s)" "Height (sys_cs s) = 1"
    "lone (default_node sample_ext sample_block_db) (sys_cs s) b st"
    using sample_lone by (auto simp: sample_node_def)
  have reach: "reachable (default_node sample_ext sample_block_db) sample_config sample_genesis Map.empty
      (Some sample_key) s"
    using sample_run_reachable [OF s(1)] by (simp only: sample_node_def)
  have i: "initial_ok sample_genesis" by (simp add: initial_ok_def sample_genesis_def MakeGenesisChainState_def)
  have h: "hash_to_ok sample_ext" by (auto simp: hash_to_ok_def sample_ext_def split: option.splits)
  show ?thesis
    using lone_validator_commits [OF sample_hypotheses(1) i sample_hypotheses(2) sample_library_ok h reach _ s(2,4)] s
    by auto
qed

end
