(* ===== verification/CS_Locks.thy ===== *)
theory CS_Locks
  imports CS_Evidence
begin

text \<open>
  Every handler of the consensus state machine keeps the locking discipline of \<open>CS_Evidence\<close>, and so
  does every event of the receive routine whose votes are genuine; a node that starts from the
  genesis state satisfies it.
\<close>

section \<open>The rounds\<close>

lemma safe_key: "safe E A a cs \<Longrightarrow> \<forall>k. privValidatorPubKey cs = Some k \<longrightarrow> pubkey_Address k = a"
  by (simp add: safe_def lock_inv_def own_votes_def)

lemma signed_own_step:
  assumes "lock_inv E A a u" and "signed_own a T h cs u"
  shows "lock_inv E A a (newStep (updateRoundStep (Round cs) s u))"
proof -
  have "Round u = Round cs" using assms(2) unfolding signed_own_def by blast
  then have "Round u \<le> Round (newStep (updateRoundStep (Round cs) s u))" by (simp add: machine_defs)
  then show ?thesis using lock_inv_frame [OF _ _ assms(1)] by simp
qed

context consensus_node
begin

lemma defaultDoPrevote_vote:
  assumes "defaultDoPrevote N height round cs = Inr t"
  shows "\<exists>h. t = signAddVote N PrevoteType h cs \<and> (\<forall>b. LockedBlock cs = Some b \<longrightarrow> h = blk_Hash N b)"
  using assms by (cases "LockedBlock cs") (auto simp: defaultDoPrevote_def andThen_eq_Inr split: option.splits)

lemma enterPrevote_safe:
  assumes ev: "evidence_ok N A" and safe: "safe N A a cs" and rd: "round \<le> Round cs"
    and e: "enterPrevote N height round cs = Inr t"
  shows "safe N A a t"
proof (cases "Height cs \<noteq> height \<or> round < Round cs \<or> (Round cs = round \<and> RoundStepPrevote \<le> Step cs)")
  case True
  then show ?thesis using e safe by (simp add: enterPrevote_def)
next
  case False
  then have before: "Step cs < vote_step PrevoteType" and r: "round = Round cs" using rd by auto
  obtain u where u: "defaultDoPrevote N height round cs = Inr u"
    "t = newStep (updateRoundStep round RoundStepPrevote u)"
    using e False by (auto simp: enterPrevote_def andThen_eq_Inr)
  obtain h where h: "u = signAddVote N PrevoteType h cs" "\<forall>b. LockedBlock cs = Some b \<longrightarrow> h = blk_Hash N b"
    using defaultDoPrevote_vote [OF u(1)] by blast
  note own = signAddVote_own [OF safe_key [OF safe], of PrevoteType h]
  have "lock_inv N A a u" unfolding h(1) by (rule signed_lock_inv [OF ev safe own before]) (use h(2) in simp_all)
  then have "lock_inv N A a t" unfolding u(2) r by (rule signed_own_step [OF _ own [folded h(1)]])
  then show ?thesis using enterPrevote_stays [OF safe_parts(1) [OF safe] rd e] by (simp add: safe_def stays_def)
qed

text \<open>The vote of \<open>enterPrecommit\<close> and the lock it is cast with.\<close>

lemma enterPrecommit_body_vote:
  assumes ev: "evidence_ok N A" and safe: "safe N A a cs" and before: "Step cs < vote_step PrecommitType"
    and e: "enterPrecommit_body N (Height cs) (Round cs) cs = Inr t"
  shows "\<exists>w h. t = signAddVote N PrecommitType h w \<and> lock_inv N A a w \<and> core w = core cs
    \<and> (h \<noteq> 0 \<longrightarrow> ev_polka A (Height cs) (Round cs) h \<and> LockedRound w = Round cs \<and> blk_HashTo N (LockedBlock w) h)"
proof -
  have li: "lock_inv N A a cs" and inv: "cs_inv cs" using safe by (simp_all add: safe_def)
  obtain h ok where maj: "vs_TwoThirdsMajority N (hvs_Prevotes N (Votes cs) (Round cs)) = (h, ok)" by fastforce
  have "ev_backed A (Height cs) (Votes cs)" using li by (simp add: lock_inv_def)
  then have pk: "ok \<Longrightarrow> ev_polka A (Height cs) (Round cs) h" using polka [OF ev, of "Height cs" "Votes cs" "Round cs" h] maj by simp
  have r: "0 \<le> Round cs" using inv by (simp add: cs_inv_def step_ok_def)
  have lt: "v_Round v < Round cs" if "v \<in> set (signedVotes cs)" "block_precommit v" "v_Height v = Height cs" for v
    using votes_before(3) [OF inv that(1) before] that by (simp add: block_precommit_def)
  have unlocked: "lock_inv N A a (cs\<lparr>LockedRound := r', LockedBlock := b\<rparr>)"
    if "ok" "b = None \<longleftrightarrow> r' = -1" "r' \<le> Round cs" "\<not> blk_HashTo N (LockedBlock cs) h" for r' b
    using that pk lt by (intro unlock_inv [OF li _ _ _ order_refl]) auto
  have zero: "lock_inv N A a (cs\<lparr>LockedRound := -1, LockedBlock := None\<rparr>)" if "ok" "h = 0"
    using that pk lt r
    by (intro relock_inv [OF li] disjI2 moved_onI [where r' = "Round cs" and b' = 0])
      (auto simp: block_precommit_def)
  have relocked: "lock_inv N A a (cs\<lparr>LockedRound := Round cs\<rparr>)" if hb: "blk_HashTo N (LockedBlock cs) h"
  proof -
    obtain b where b: "LockedBlock cs = Some b" using hash_to [OF ev hb] by blast
    have "lock_inv N A a (cs\<lparr>LockedRound := Round cs, LockedBlock := Some b\<rparr>)"
      using b r lt by (intro relock_inv [OF li]) (auto intro: less_imp_le)
    moreover have "cs\<lparr>LockedRound := Round cs, LockedBlock := Some b\<rparr> = cs\<lparr>LockedRound := Round cs\<rparr>"
      using b by (intro consensus_state.equality) simp_all
    ultimately show ?thesis by simp
  qed
  have c: "core (cs\<lparr>LockedRound := x, LockedBlock := y\<rparr>) = core cs" "core (cs\<lparr>LockedRound := x\<rparr>) = core cs" for x y
    by (simp_all add: core_def pos_def)
  consider (none) "\<not> ok" "t = signAddVote N PrecommitType 0 cs"
    | (nil) "ok" "h = 0" "t = signAddVote N PrecommitType 0
        (if LockedBlock cs = None then cs else cs\<lparr>LockedRound := -1, LockedBlock := None\<rparr>)"
    | (relock) "ok" "h \<noteq> 0" "blk_HashTo N (LockedBlock cs) h"
        "t = signAddVote N PrecommitType h (cs\<lparr>LockedRound := Round cs\<rparr>)"
    | (lock) "ok" "h \<noteq> 0" "\<not> blk_HashTo N (LockedBlock cs) h" "blk_HashTo N (ProposalBlock cs) h"
        "t = signAddVote N PrecommitType h (cs\<lparr>LockedRound := Round cs, LockedBlock := ProposalBlock cs\<rparr>)"
    | (unlock) "ok" "h \<noteq> 0" "\<not> blk_HashTo N (LockedBlock cs) h"
        "t = signAddVote N PrecommitType 0 (cs\<lparr>LockedRound := -1, LockedBlock := None\<rparr>)"
    using e maj by (auto simp: enterPrecommit_body_def andThen_eq_Inr Let_def split: prod.splits if_splits option.splits)
  then show ?thesis
  proof cases
    case none
    show ?thesis by (rule exI [of _ cs], rule exI [of _ 0]) (use none li in simp)
  next
    case nil
    then show ?thesis
    proof (cases "LockedBlock cs")
      case None
      show ?thesis by (rule exI [of _ cs], rule exI [of _ 0]) (use nil None li in simp)
    next
      case (Some b)
      show ?thesis
        by (rule exI [of _ "cs\<lparr>LockedRound := -1, LockedBlock := None\<rparr>"], rule exI [of _ 0])
          (use nil Some zero c in simp)
    qed
  next
    case relock
    show ?thesis
      by (rule exI [of _ "cs\<lparr>LockedRound := Round cs\<rparr>"], rule exI [of _ h]) (use relock relocked pk c in simp)
  next
    case lock
    obtain b where b: "ProposalBlock cs = Some b" using hash_to [OF ev lock(4)] by blast
    then have "lock_inv N A a (cs\<lparr>LockedRound := Round cs, LockedBlock := ProposalBlock cs\<rparr>)"
      using lock(1,3) r by (intro unlocked) simp_all
    then show ?thesis
      by (intro exI [of _ "cs\<lparr>LockedRound := Round cs, LockedBlock := ProposalBlock cs\<rparr>"] exI [of _ h])
        (use lock pk c in simp)
  next
    case unlock
    have "lock_inv N A a (cs\<lparr>LockedRound := -1, LockedBlock := None\<rparr>)"
      using unlock(1,3) r by (intro unlocked) simp_all
    then show ?thesis
      by (intro exI [of _ "cs\<lparr>LockedRound := -1, LockedBlock := None\<rparr>"] exI [of _ 0])
        (use unlock c in simp)
  qed
qed

lemma enterPrecommit_safe:
  assumes ev: "evidence_ok N A" and safe: "safe N A a cs" and rd: "round \<le> Round cs"
    and e: "enterPrecommit N height round cs = Inr t"
  shows "safe N A a t"
proof (cases "Height cs \<noteq> height \<or> round < Round cs \<or> (Round cs = round \<and> RoundStepPrecommit \<le> Step cs)")
  case True
  then show ?thesis using e safe by (simp add: enterPrecommit_def)
next
  case False
  then have before: "Step cs < vote_step PrecommitType" and r: "height = Height cs" "round = Round cs" using rd by auto
  obtain u where u: "enterPrecommit_body N (Height cs) (Round cs) cs = Inr u"
    "t = newStep (updateRoundStep (Round cs) RoundStepPrecommit u)"
    using e False r by (auto simp: enterPrecommit_def andThen_eq_Inr)
  obtain w h where w: "u = signAddVote N PrecommitType h w" "lock_inv N A a w" "core w = core cs"
    and h: "h \<noteq> 0 \<longrightarrow> ev_polka A (Height cs) (Round cs) h \<and> LockedRound w = Round cs
      \<and> blk_HashTo N (LockedBlock w) h"
    using enterPrecommit_body_vote [OF ev safe before u(1)] by blast
  have sw: "safe N A a w" using w core_inv [OF w(3)] safe by (simp add: safe_def)
  have f: "Height w = Height cs" "Round w = Round cs" "Step w = Step cs" using w(3) by (simp_all add: core_def pos_def)
  note own = signAddVote_own [OF safe_key [OF sw], of PrecommitType h]
  have "lock_inv N A a u" unfolding w(1)
    by (rule signed_lock_inv [OF ev sw own]) (use h f before in simp_all)
  then have "lock_inv N A a t" unfolding u(2) using signed_own_step [OF _ own [folded w(1)]] f by simp
  then show ?thesis using enterPrecommit_stays [OF safe_parts(1) [OF safe] rd e] by (simp add: safe_def stays_def)
qed

lemma enterPrevoteWait_safe:
  assumes safe: "safe N A a cs" and rd: "round \<le> Round cs" and e: "enterPrevoteWait N height round cs = Inr t"
  shows "safe N A a t"
proof -
  have "lock_view t = lock_view cs" using e by (auto simp: enterPrevoteWait_def Let_def split: if_splits)
  then show ?thesis using enterPrevoteWait_stays [OF safe_parts(1) [OF safe] rd e] safe by (rule safe_frame)
qed

lemma enterPrecommitWait_safe:
  assumes safe: "safe N A a cs" and rd: "round \<le> Round cs" and e: "enterPrecommitWait N height round cs = Inr t"
  shows "safe N A a t"
proof -
  have "lock_view t = lock_view cs" using e by (auto simp: enterPrecommitWait_def Let_def split: if_splits)
  then show ?thesis using enterPrecommitWait_stays [OF safe_parts(1) [OF safe] rd e] safe by (rule safe_frame)
qed

lemma defaultDecideProposal_view:
  assumes "defaultDecideProposal N height round cs = Inr t"
  shows "lock_view t = lock_view cs"
proof -
  obtain b where b: "(case ValidBlock cs of Some block \<Rightarrow> Inr (Some block)
      | None \<Rightarrow> createProposalBlock N cs) = Inr b"
    using assms by (auto simp: defaultDecideProposal_def andThen_eq_Inr)
  show ?thesis
  proof (cases b)
    case None
    then show ?thesis using assms b by (simp add: defaultDecideProposal_def)
  next
    case (Some block)
    obtain pv where pv: "privValidator cs = Some pv"
      using assms b Some by (auto simp: defaultDecideProposal_def andThen_eq_Inr deref_eq_Inr)
    obtain err p where p: "pv_SignProposal N pv (st_ChainID (chainState cs))
        (NewProposal N height round (ValidRound cs) (Some block)) = (err, p)" by fastforce
    have "t = cs\<lparr>signedProposals := signedProposals cs @ [p]\<rparr>
        \<or> t = sendInternalMessage \<lparr>mi_Msg = ProposalMessage p, mi_PeerID = []\<rparr>
            (cs\<lparr>signedProposals := signedProposals cs @ [p]\<rparr>)"
      using assms unfolding defaultDecideProposal_def b Some pv
      by (auto simp: p pv Let_def split: option.splits)
    then show ?thesis by auto
  qed
qed

lemma enterPropose_safe:
  assumes ev: "evidence_ok N A" and safe: "safe N A a cs" and new: "new_proposal_ok N"
    and rd: "round \<le> Round cs" and e: "enterPropose N height round cs = Inr t"
  shows "safe N A a t"
proof (cases "Height cs \<noteq> height \<or> round < Round cs \<or> (Round cs = round \<and> RoundStepPropose \<le> Step cs)")
  case True
  then show ?thesis using e safe by (simp add: enterPropose_def)
next
  case False
  then have eq: "height = Height cs" "round = Round cs" "Step cs < RoundStepPropose" using rd by auto
  obtain u where u: "enterPropose_body N (Height cs) (Round cs) cs = Inr u"
    and t: "(let v = newStep (updateRoundStep (Round cs) RoundStepPropose u) in
        if isProposalComplete N v then enterPrevote N (Height cs) (Round v) v else Inr v) = Inr t"
    using e False eq by (auto simp: enterPropose_def andThen_eq_Inr)
  let ?v = "newStep (updateRoundStep (Round cs) RoundStepPropose u)"
  let ?s = "scheduleTimeout (cfg_Propose N (cs_config cs) (Round cs)) (Height cs) (Round cs) RoundStepPropose cs"
  have "u = ?s \<or> defaultDecideProposal N (Height cs) (Round cs) ?s = Inr u"
    using u by (auto simp: enterPropose_body_def Let_def andThen_eq_Inr split: option.splits if_splits)
  then have "lock_view ?v = lock_view cs" using defaultDecideProposal_view by fastforce
  then have v: "safe N A a ?v"
    using proposed_stays [OF safe_parts(1) [OF safe] new eq(3) u] safe by (rule safe_frame)
  have "t = ?v \<or> enterPrevote N (Height cs) (Round ?v) ?v = Inr t"
    using t by (auto simp: Let_def split: if_splits)
  then show ?thesis using v enterPrevote_safe [OF ev v order_refl] by blast
qed

text \<open>\<open>enterNewRound\<close> tracks a new round in the vote sets and proposes.\<close>

lemma backed_frame:
  assumes "lock_inv E A a cs" and "lock_view t = lock_view (cs\<lparr>Votes := vs\<rparr>)" and "Round cs \<le> Round t"
    and "ev_backed A (Height cs) vs"
  shows "lock_inv E A a t"
proof -
  have "lock_inv E A a (cs\<lparr>Votes := vs\<rparr>)"
    using assms(1,4)
    by (simp add: lock_inv_def own_votes_def queued_votes_def precommits_hold_def lock_shape_def votes_extend_def)
  then show ?thesis using assms(2,3) lock_inv_frame by fastforce
qed

lemma enterNewRound_safe:
  assumes ev: "evidence_ok N A" and safe: "safe N A a cs" and new: "new_proposal_ok N"
    and e: "enterNewRound N height round cs = Inr t"
  shows "safe N A a t"
proof (cases "Height cs \<noteq> height \<or> round < Round cs \<or> (Round cs = round \<and> Step cs \<noteq> RoundStepNewHeight)")
  case True
  then show ?thesis using e safe by (auto simp: enterNewRound_def)
next
  case False
  obtain now c where c: "CanonicalNow N cs = (now, c)" by fastforce
  have cc: "core c = core cs" by (rule CanonicalNow_core [OF c])
  have lc: "lock_view c = lock_view cs" using c lock_view_basic(6) [of N cs] by simp
  obtain u vs n where u: "enterPropose N height round u = Inr t"
    "core u = core (updateRoundStep round RoundStepNewRound c)"
    "hvs_SetRound N n (Votes c) = Inr vs" "lock_view u = lock_view (c\<lparr>Votes := vs\<rparr>)"
    using e False c
    by (auto simp: enterNewRound_def andThen_eq_Inr Let_def core_def pos_def machine_defs lock_view_def
        queued_votes_def split: if_splits)
  have inv: "cs_inv cs" using safe by (simp add: safe_def)
  have su: "stays cs u"
    using u(2) cc False by (intro round_step_stays [OF inv]) (auto simp: core_def pos_def machine_defs)
  have r: "Round u = round" using u(2) by (simp add: core_def pos_def machine_defs)
  have "ev_backed A (Height cs) (Votes cs)" using safe by (simp add: safe_def lock_inv_def)
  then have "ev_backed A (Height cs) vs"
    using backed_SetRound [OF ev _ u(3)] lc by (simp add: lock_view_def)
  moreover have "lock_view u = lock_view (cs\<lparr>Votes := vs\<rparr>)"
    using u(4) lc by (simp add: lock_view_def queued_votes_def)
  ultimately have "lock_inv N A a u"
    using safe su False r by (intro backed_frame [of N A a cs u vs]) (auto simp: safe_def)
  then have "safe N A a u" using su by (simp add: safe_def stays_def)
  then show ?thesis using enterPropose_safe [OF ev _ new _ u(1)] r by simp
qed

subsection \<open>Committing\<close>

lemma updateToState_safe:
  assumes ev: "evidence_ok N A" and safe: "safe N A a cs" and bound: "Height cs + 1 \<noteq> 0"
    and st: "st_LastBlockHeight st' = Height cs" "st_InitialHeight st' \<noteq> 0"
    and link: "chain_link N (chainState cs) st'" and known: "ev_known A st'" "decided A st'"
    and e: "updateToState N st' cs = Inr t"
  shows "safe N A a t"
proof -
  have inv: "cs_inv cs" and li: "lock_inv N A a cs" using safe by (simp_all add: safe_def)
  have "cs_inv t" using updateToState_advances [OF inv bound st link e] by (simp add: advances_def)
  moreover have "lock_inv N A a t"
  proof (cases "\<not> ChainState_IsEmpty (chainState cs)
         \<and> st_LastBlockHeight st' \<le> st_LastBlockHeight (chainState cs)")
    case True
    then have "t = newStep cs" using e by (auto simp: updateToState_def andThen_eq_Inr)
    then have "lock_view t = lock_view cs" "Round cs \<le> Round t" by (simp, simp add: machine_defs)
    then show ?thesis using li by (rule lock_inv_frame)
  next
    case False
    then obtain l where t: "t = updateToState_reset N st' (cs\<lparr>LastCommit := l\<rparr>)"
      using e by (auto simp: updateToState_def andThen_eq_Inr)
    have f: "Height t = next_height st'" "Round t = 0" "chainState t = st'" "signedVotes t = signedVotes cs"
      "LockedRound t = -1" "LockedBlock t = None" "privValidator t = privValidator cs"
      "privValidatorPubKey t = privValidatorPubKey cs" "queued_votes t = queued_votes cs"
      "Votes t = Some (NewHeightVoteSet N (st_ChainID st') (next_height st') (st_Validators st'))"
      unfolding t
      by (simp_all add: updateToState_reset_def machine_defs CanonicalNow_def Let_def queued_votes_def)
    have "next_height st' = Height cs + 1" by (rule height_next [OF inv bound st(1)])
    then have later: "Height cs < Height t" using word_less_Suc [OF bound] f(1) by simp
    have "v_Height v \<noteq> Height t" if "v \<in> set (signedVotes cs)" for v
    proof -
      have "vote_pos v \<le> pos cs" using inv that by (simp add: cs_inv_def votes_ok_def)
      then show ?thesis using later by (auto simp: vote_pos_def pos_def less_eq_prod_def less_prod_def)
    qed
    then have "precommits_hold N A t"
      using li f by (auto simp: lock_inv_def precommits_hold_def)
    moreover have "ev_backed A (Height t) (Votes t)" using backed_new [OF ev known(1)] f by simp
    ultimately show ?thesis
      using li f known by (simp add: lock_inv_def own_votes_def lock_shape_def votes_extend_def)
  qed
  ultimately show ?thesis by (simp add: safe_def)
qed

lemma updatePubKey_safe:
  assumes "safe N A a cs"
  shows "safe N A a (snd (updatePrivValidatorPubKey N cs))"
proof -
  let ?t = "snd (updatePrivValidatorPubKey N cs)"
  have "lock_inv N A a ?t"
    using assms
    by (auto simp: updatePrivValidatorPubKey_def safe_def lock_inv_def own_votes_def queued_votes_def
        precommits_hold_def lock_shape_def votes_extend_def split: option.split sum.split)
  then show ?thesis using core_inv [of ?t cs] assms by (simp add: safe_def)
qed

lemma applyBlock_safe:
  assumes ev: "evidence_ok N A" and safe: "safe N A a cs" and bound: "Height cs + 1 \<noteq> 0"
    and valid: "be_ValidateBlock N (chainState cs) block = Inr None"
    and maj: "ev_majority A (Height cs) r (blk_Hash N block)"
    and e: "applyBlock N block after cs = Inr t"
    and after: "\<And>c. safe N A a c \<Longrightarrow> after c = Inr t \<Longrightarrow> safe N A a t"
  shows "safe N A a t"
proof -
  have inv: "cs_inv cs" and known: "ev_known A (chainState cs)" using safe by (simp_all add: safe_def lock_inv_def)
  obtain res where r: "be_ApplyBlock N (ChainState_Copy N (chainState cs)) block = Inr res"
    using e by (auto simp: applyBlock_def andThen_eq_Inr)
  show ?thesis
  proof (cases res)
    case (Inl err)
    then show ?thesis using e r safe by (auto simp: applyBlock_def)
  next
    case (Inr st')
    then obtain u where u: "updateToState N st' cs = Inr u"
      "after (snd (updatePrivValidatorPubKey N u)) = Inr t"
      using e r by (auto simp: applyBlock_def andThen_eq_Inr)
    have st: "st_LastBlockHeight st' = Height cs" "st_InitialHeight st' \<noteq> 0"
      "st_LastBlockID st' = blk_Hash N block"
      using executor.exec_height [OF r [unfolded Inr]] executor.exec_initial [OF r [unfolded Inr]]
        executor.exec_id [OF r [unfolded Inr]] inv validate_height [OF inv valid]
      by (simp_all add: cs_inv_def chain_ok_def)
    have link: "chain_link N (chainState cs) st'" using valid r unfolding Inr by (rule chain_link)
    have "decided A st'" using maj st by (auto simp: decided_def)
    with known_apply [OF ev known r [unfolded Inr]]
    have "safe N A a u" using updateToState_safe [OF ev safe bound st(1,2) link _ _ u(1)] by blast
    then show ?thesis using after u(2) updatePubKey_safe by blast
  qed
qed

lemma scheduleRound0_safe: "safe N A a cs \<Longrightarrow> safe N A a (scheduleRound0 N (GetRoundState cs) cs)"
  using safe_frame [of "scheduleRound0 N (GetRoundState cs) cs" cs N A a] scheduleRound0_stays [of cs]
  by (simp add: safe_def)

lemma saveBlock_view: "saveBlock N block seen cs = Inr t \<Longrightarrow> lock_view t = lock_view cs"
  by (auto simp: saveBlock_def andThen_eq_Inr split: if_splits)

lemma finalizeCommit_safe:
  assumes ev: "evidence_ok N A" and safe: "safe N A a cs" and bound: "Height cs + 1 \<noteq> 0"
    and e: "finalizeCommit N height cs = Inr t"
  shows "safe N A a t"
  using finalizeCommit_cases [OF e]
proof (elim disjE exE conjE)
  fix h block u
  assume h: "vs_TwoThirdsMajority N (hvs_Precommits N (Votes cs) (CommitRound cs)) = (h, True)"
      "blk_HashTo N (ProposalBlock cs) h"
    and b: "ProposalBlock cs = Some block" and v: "be_ValidateBlock N (chainState cs) block = Inr None"
    and u: "saveBlock N block (vs_MakeCommit N (hvs_Precommits N (Votes cs) (CommitRound cs))) cs = Inr u"
    and a: "applyBlock N block (\<lambda>cs. Inr (scheduleRound0 N (GetRoundState cs) cs)) u = Inr t"
  have cu: "core u = core cs" by (rule saveBlock_core [OF u])
  have f: "Height u = Height cs" "chainState u = chainState cs" using cu by (simp_all add: core_def pos_def)
  have "ev_backed A (Height cs) (Votes cs)" using safe by (simp add: safe_def lock_inv_def)
  then have maj: "ev_majority A (Height u) (CommitRound cs) (blk_Hash N block)"
    using majority [OF ev _ h(1)] hash_to [OF ev h(2)] b f by auto
  have su: "safe N A a u" by (rule safe_core_frame [OF saveBlock_view [OF u] cu safe])
  show ?thesis
  proof (rule applyBlock_safe [OF ev su _ _ maj a])
    show "safe N A a t" if "safe N A a c" "Inr (scheduleRound0 N (GetRoundState c) c) = Inr t" for c
      using that scheduleRound0_safe by auto
  qed (use bound v f in simp_all)
qed (use safe in simp)

lemma tryFinalizeCommit_safe:
  "evidence_ok N A \<Longrightarrow> safe N A a cs \<Longrightarrow> Height cs + 1 \<noteq> 0 \<Longrightarrow> tryFinalizeCommit N height cs = Inr t
    \<Longrightarrow> safe N A a t"
  by (auto simp: tryFinalizeCommit_def Let_def split: prod.splits if_splits intro: finalizeCommit_safe)

lemma enterCommit_body_view: "enterCommit_body N r cs = Inr t \<Longrightarrow> lock_view t = lock_view cs"
  by (auto simp: enterCommit_body_def Let_def split: prod.splits if_splits)

lemma enterCommit_safe:
  assumes ev: "evidence_ok N A" and safe: "safe N A a cs" and bound: "Height cs + 1 \<noteq> 0"
    and e: "enterCommit N height commitRound cs = Inr t"
  shows "safe N A a t"
  using enterCommit_cases [OF e]
proof (elim disjE exE conjE)
  fix u now w
  assume u: "enterCommit_body N commitRound cs = Inr u"
    and w: "CanonicalNow N ((updateRoundStep (Round u) RoundStepCommit u)\<lparr>CommitRound := commitRound\<rparr>) = (now, w)"
    and t: "tryFinalizeCommit N height (newStep (w\<lparr>CommitTime := now\<rparr>)) = Inr t"
  let ?c = "(updateRoundStep (Round u) RoundStepCommit u)\<lparr>CommitRound := commitRound\<rparr>"
  let ?v = "newStep (w\<lparr>CommitTime := now\<rparr>)"
  have lw: "lock_view ?v = lock_view cs"
    using enterCommit_body_view [OF u] lock_view_basic(6) [of N ?c] w by simp
  have sv: "stays cs ?v" by (rule enterCommit_state [OF safe_parts(1) [OF safe] u w])
  have "safe N A a ?v" using lw sv safe by (rule safe_frame)
  then show ?thesis using tryFinalizeCommit_safe [OF ev _ _ t] bound sv by (simp add: stays_def)
qed (use safe in simp)

lemma processCommitedBlock_safe:
  assumes ev: "evidence_ok N A" and safe: "safe N A a cs" and new: "new_proposal_ok N"
    and bound: "Height cs + 1 \<noteq> 0" and cert: "ev_certified A block"
    and e: "processCommitedBlock N block cs = Inr t"
  shows "safe N A a t"
  using processCommitedBlock_cases [OF e]
proof (elim disjE exE conjE)
  fix lc u
  assume num: "blk_NumberU64 N block = Height cs" and h: "be_ValidateBlock N (chainState cs) block = Inr None"
    and vc: "vals_VerifyCommit N (st_Validators (chainState cs)) (st_ChainID (chainState cs))
        (blk_Hash N block) (blk_NumberU64 N block) (blk_HeaderCommit N block) = None"
    and u: "saveBlock N block (Inr (blk_Commit N block)) (fast_path_state N lc cs) = Inr u"
    and a: "applyBlock N block (fast_path_after N) u = Inr t"
  have inv: "cs_inv cs" and known: "ev_known A (chainState cs)" using safe by (simp_all add: safe_def lock_inv_def)
  have su: "stays cs u" by (rule fast_path_saved [OF inv u])
  have "lock_view u = lock_view cs" using saveBlock_view [OF u] by (simp add: case_prod_beta)
  then have sf: "safe N A a u" using su safe by (rule safe_frame)
  obtain r where "ev_majority A (Height cs) r (blk_Hash N block)"
    using certified [OF ev known cert vc] num by auto
  then have maj: "ev_majority A (Height u) r (blk_Hash N block)" using su by (simp add: stays_def)
  show ?thesis
  proof (rule applyBlock_safe [OF ev sf _ _ maj a])
    show "safe N A a t" if "safe N A a c" "fast_path_after N c = Inr t" for c
      using that enterNewRound_safe [OF ev that(1) new] scheduleRound0_safe [OF that(1)]
      by (auto split: if_splits)
  qed (use su h bound in \<open>auto simp: stays_def\<close>)
qed (use safe in simp)

subsection \<open>Proposals and votes\<close>

lemma setProposal_step_safe:
  assumes ev: "evidence_ok N A" and safe: "safe N A a cs" and bound: "Height cs + 1 \<noteq> 0"
    and e: "setProposal_step N b cs = Inr t"
  shows "safe N A a t"
  using setProposal_step_cases [OF e] safe tryFinalizeCommit_safe [OF ev safe bound]
    enterPrevote_safe [OF ev safe order_refl] enterPrecommit_safe [OF ev _ order_refl] by blast

lemma defaultSetProposal_safe:
  assumes ev: "evidence_ok N A" and safe: "safe N A a cs" and bound: "Height cs + 1 \<noteq> 0"
    and e: "defaultSetProposal N proposal cs = Inr (r, t)"
  shows "safe N A a t"
  using defaultSetProposal_cases [OF e]
proof (elim disjE exE)
  fix b h
  let ?c = "cs\<lparr>Proposal := Some proposal, ProposalBlock := p_Block proposal\<rparr>"
  let ?u = "setProposal_valid N h b ?c"
  assume st: "setProposal_step N b ?u = Inr t"
  have u: "core ?u = core cs"
    using setProposal_valid_core [of N h b ?c] by (simp add: core_def pos_def)
  have "safe N A a ?u" by (rule safe_core_frame [OF _ u safe]) simp
  then show ?thesis using setProposal_step_safe [OF ev _ _ st] bound u by (simp add: core_def pos_def)
qed (use safe in simp)

text \<open>A polka of a later round unlocks.\<close>

lemma addVote_polka_safe:
  assumes ev: "evidence_ok N A" and safe: "safe N A a cs"
    and maj: "vs_TwoThirdsMajority N (hvs_Prevotes N (Votes cs) (v_Round vote)) = (h, True)"
  shows "safe N A a (addVote_polka N vote h cs)"
proof -
  have li: "lock_inv N A a cs" using safe by (simp add: safe_def)
  have r: "0 \<le> Round cs" using safe by (simp add: safe_def cs_inv_def step_ok_def)
  have "ev_backed A (Height cs) (Votes cs)" using li by (simp add: lock_inv_def)
  then have pk: "ev_polka A (Height cs) (v_Round vote) h" using polka [OF ev _ maj] by blast
  define u where "u = (if LockedBlock cs \<noteq> None \<and> LockedRound cs < v_Round vote
      \<and> v_Round vote \<le> Round cs \<and> \<not> blk_HashTo N (LockedBlock cs) h
    then cs\<lparr>LockedRound := -1, LockedBlock := None\<rparr> else cs)"
  have lu: "lock_inv N A a u"
    using li pk r by (auto simp: u_def intro!: unlock_inv [OF li _ _ pk])
  have cu: "core u = core cs" by (simp add: u_def core_def pos_def)
  have "addVote_polka N vote h cs = (if h \<noteq> 0 \<and> ValidRound u < v_Round vote \<and> v_Round vote = Round u then
        if blk_HashTo N (ProposalBlock u) h
        then u\<lparr>ValidRound := v_Round vote, ValidBlock := ProposalBlock u\<rparr>
        else u\<lparr>ProposalBlock := None\<rparr>
      else u)"
    unfolding addVote_polka_def unfolding u_def [symmetric] by (simp only: Let_def)
  then have "lock_view (addVote_polka N vote h cs) = lock_view u" "Round (addVote_polka N vote h cs) = Round u"
    by auto
  then have "lock_inv N A a (addVote_polka N vote h cs)" using lu lock_inv_frame by fastforce
  then show ?thesis using core_inv [OF addVote_polka_core [of N vote h cs]] safe by (simp add: safe_def)
qed

lemma addVote_prevote_safe:
  assumes ev: "evidence_ok N A" and safe: "safe N A a cs" and new: "new_proposal_ok N"
    and e: "addVote_prevote N height vote cs = Inr t"
  shows "safe N A a t"
proof -
  obtain h ok where maj: "vs_TwoThirdsMajority N (hvs_Prevotes N (Votes cs) (v_Round vote)) = (h, ok)" by fastforce
  define u where "u = (if ok then addVote_polka N vote h cs else cs)"
  have su: "safe N A a u" using addVote_polka_safe [OF ev safe] maj safe by (simp add: u_def)
  show ?thesis
    using addVote_prevote_cases [OF e maj u_def]
  proof (elim disjE conjE)
    show "safe N A a t" if "t = u" using that su by simp
    show "safe N A a t" if "enterNewRound N height (v_Round vote) u = Inr t"
      by (rule enterNewRound_safe [OF ev su new that])
    show "safe N A a t" if "Round u = v_Round vote" "enterPrecommit N height (v_Round vote) u = Inr t"
      using that by (intro enterPrecommit_safe [OF ev su _ that(2)]) simp
    show "safe N A a t" if "Round u = v_Round vote" "enterPrevoteWait N height (v_Round vote) u = Inr t"
      using that by (intro enterPrevoteWait_safe [OF su _ that(2)]) simp
    show "safe N A a t" if "enterPrevote N height (Round u) u = Inr t"
      by (rule enterPrevote_safe [OF ev su order_refl that])
  qed
qed

lemma addVote_precommit_safe:
  assumes ev: "evidence_ok N A" and safe: "safe N A a cs" and new: "new_proposal_ok N"
    and bound: "Height cs + 1 \<noteq> 0" and e: "addVote_precommit N (Height cs) vote cs = Inr t"
  shows "safe N A a t"
proof -
  note inv = safe_parts(1) [OF safe]
  have entered: "stays cs w \<and> v_Round vote \<le> Round w \<and> safe N A a w"
    if "enterNewRound N (Height cs) (v_Round vote) cs = Inr u"
      "enterPrecommit N (Height cs) (v_Round vote) u = Inr w" for u w
    using precommit_entered [OF inv new that] precommit_round [OF inv new that(1)]
      enterPrecommit_safe [OF ev enterNewRound_safe [OF ev safe new that(1)] _ that(2)] by blast
  show ?thesis
    using e
  proof (cases rule: addVote_precommit_cases)
    case none
    then show ?thesis using safe by simp
  next
    case (commit u w x)
    then have w: "stays cs w" "safe N A a w" using entered by blast+
    have "Height w = Height cs" using w(1) by (simp add: stays_def)
    then have sx: "safe N A a x" using bound by (intro enterCommit_safe [OF ev w(2) _ commit(3)]) simp
    then show ?thesis using commit(4) enterNewRound_safe [OF ev sx new] by blast
  next
    case (nil u w)
    then show ?thesis using entered enterPrecommitWait_safe by blast
  next
    case (wait u)
    then show ?thesis
      using precommit_round [OF inv new] enterNewRound_safe [OF ev safe new] enterPrecommitWait_safe by blast
  qed
qed

lemma addVote_late_safe:
  assumes ev: "evidence_ok N A" and safe: "safe N A a cs" and new: "new_proposal_ok N"
    and e: "addVote_late N vote cs = Inr (r, t)"
  shows "safe N A a t"
proof -
  have "safe N A a (cs\<lparr>LastCommit := l\<rparr>)" for l
    by (rule safe_core_frame [OF _ _ safe]) (simp_all add: core_def pos_def)
  then show ?thesis using addVote_late_cases [OF e] safe enterNewRound_safe [OF ev _ new] by blast
qed

lemma addVote_safe:
  assumes ev: "evidence_ok N A" and safe: "safe N A a cs" and new: "new_proposal_ok N"
    and bound: "Height cs + 1 \<noteq> 0" and genuine: "ev_genuine A vote"
    and e: "addVote N vote peer cs = Inr (r, t)"
  shows "safe N A a t"
  using e
proof (cases rule: addVote_cases)
  case same
  then show ?thesis using safe by simp
next
  case late
  then show ?thesis by (rule addVote_late_safe [OF ev safe new])
next
  case (added x vs)
  let ?u = "cs\<lparr>Votes := vs\<rparr>"
  have li: "lock_inv N A a cs" using safe by (simp add: safe_def)
  then have "ev_backed A (Height cs) (Votes cs)" by (simp add: lock_inv_def)
  then have "ev_backed A (Height cs) vs" using backed_AddVote [OF ev _ genuine added(2)] added(1) by simp
  then have "lock_inv N A a ?u" by (intro backed_frame [OF li]) simp_all
  moreover have "core ?u = core cs" by (simp add: core_def pos_def)
  ultimately have su: "safe N A a ?u" using core_inv [of ?u cs] safe by (simp add: safe_def)
  have bu: "Height ?u + 1 \<noteq> 0" using bound by simp
  show ?thesis
    using added(3) su addVote_prevote_safe [OF ev su new] addVote_precommit_safe [OF ev su new bu] by auto
qed

subsection \<open>Messages and timeouts\<close>

lemma broadcast_safe: "safe N A a cs \<Longrightarrow> safe N A a (broadcastMessageToPeers m cs)"
  by (rule safe_core_frame [of _ cs]) simp_all

lemma handleMsg_safe:
  assumes ev: "evidence_ok N A" and safe: "safe N A a cs" and new: "new_proposal_ok N"
    and bound: "Height cs + 1 \<noteq> 0" and genuine: "\<And>v. mi_Msg mi = VoteMessage v \<Longrightarrow> ev_genuine A v"
    and e: "handleMsg N mi cs = Inr t"
  shows "safe N A a t"
proof (cases "mi_Msg mi")
  case (ProposalMessage p)
  then show ?thesis
    using e defaultSetProposal_safe [OF ev safe bound] broadcast_safe
    by (auto simp: handleMsg_def andThen_eq_Inr split: prod.splits if_splits)
next
  case (VoteMessage v)
  then show ?thesis
    using e addVote_safe [OF ev safe new bound genuine] broadcast_safe
    by (auto simp: handleMsg_def tryAddVote_def andThen_eq_Inr split: prod.splits if_splits)
next
  case (SyncRequestMessage q)
  then show ?thesis using e safe by (simp add: handleMsg_def)
qed

lemma handleTimeout_safe:
  assumes ev: "evidence_ok N A" and safe: "safe N A a cs" and new: "new_proposal_ok N"
    and ok: "tick_ok (pos cs) ti" and e: "handleTimeout N ti (GetRoundState cs) cs = Inr t"
  shows "safe N A a t"
proof -
  have st: "ti_Step ti \<in> {RoundStepNewHeight, RoundStepPropose, RoundStepPrevoteWait, RoundStepPrecommitWait}"
    using ok by (simp add: tick_ok_def)
  have r: "ti_Round ti \<le> Round cs" if "ti_Height ti = Height cs" using ok that by (auto simp: tick_ok_def pos_def)
  show ?thesis
    using e st
    by (cases rule: handleTimeout_cases)
      (use safe r enterNewRound_safe [OF ev safe new] enterPrevote_safe [OF ev safe]
        enterPrecommit_safe [OF ev safe] enterNewRound_safe [OF ev _ new] in blast)+
qed

end

section \<open>Events\<close>

text \<open>An event that carries a vote of a peer carries a genuine one, and a committed block comes with
  certified votes.\<close>

fun event_genuine :: "('val, 'hvs, 'blk) evidence \<Rightarrow> 'blk event \<Rightarrow> bool" where
  "event_genuine A (PeerMsg mi) = (\<forall>v. mi_Msg mi = VoteMessage v \<longrightarrow> ev_genuine A v)"
| "event_genuine A (CommittedBlock b) = ev_certified A b"
| "event_genuine A _ = True"

lemma queued_take:
  "mi \<in> set (internalMsgQueue cs) \<Longrightarrow> mi_Msg mi = VoteMessage v \<Longrightarrow> v \<in> queued_votes cs"
  by (auto simp: queued_votes_def)

text \<open>Dropping messages from the queues, or moving them, keeps the invariant.\<close>

lemma queue_safe:
  assumes "safe E A a cs" and "set q \<union> set ov \<subseteq> set (internalMsgQueue cs) \<union> set (internalOverflow cs)"
  shows "safe E A a (cs\<lparr>internalOverflow := ov, internalMsgQueue := q\<rparr>)"
proof -
  let ?u = "cs\<lparr>internalOverflow := ov, internalMsgQueue := q\<rparr>"
  have "queued_votes ?u \<subseteq> queued_votes cs" using assms(2) unfolding queued_votes_def by auto
  then have "lock_inv E A a ?u"
    using assms(1)
    by (auto simp: safe_def lock_inv_def own_votes_def precommits_hold_def lock_shape_def votes_extend_def)
  moreover have "core ?u = core cs" by (simp add: core_def pos_def)
  ultimately show ?thesis using core_inv [of ?u cs] assms(1) by (simp add: safe_def)
qed

context consensus_node
begin

lemma receive_event_safe:
  assumes ev: "evidence_ok N A" and safe: "safe N A a (sys_cs s)" and sys: "system_inv s"
    and new: "new_proposal_ok N" and bound: "Height (sys_cs s) + 1 \<noteq> 0"
    and own: "\<forall>v\<in>set (signedVotes (sys_cs s)). ev_genuine A v" and genuine: "event_genuine A event"
    and e: "receive_event N event s = Inr t"
  shows "safe N A a (sys_cs t)"
proof (cases event)
  case (PeerMsg mi)
  then show ?thesis
    using e handleMsg_safe [OF ev safe new bound, of mi] genuine by (auto simp: andThen_eq_Inr)
next
  case InternalMsg
  show ?thesis
  proof (cases "internalMsgQueue (sys_cs s)")
    case Nil
    then show ?thesis using e InternalMsg safe by simp
  next
    case (Cons mi mis)
    let ?u = "(sys_cs s)\<lparr>internalMsgQueue := mis\<rparr>"
    obtain cs where h: "handleMsg N mi ?u = Inr cs" and t: "t = s\<lparr>sys_cs := cs\<rparr>"
      using e InternalMsg Cons by (auto simp: andThen_eq_Inr)
    have "safe N A a ((sys_cs s)\<lparr>internalOverflow := internalOverflow (sys_cs s), internalMsgQueue := mis\<rparr>)"
      by (rule queue_safe [OF safe]) (use Cons in auto)
    then have su: "safe N A a ?u" by simp
    have "ev_genuine A v" if "mi_Msg mi = VoteMessage v" for v
      using own safe queued_take [of mi "sys_cs s" v] that Cons
      by (auto simp: safe_def lock_inv_def own_votes_def)
    then show ?thesis using handleMsg_safe [OF ev su new _ _ h] bound t by simp
  qed
next
  case (OverflowSend k)
  show ?thesis
  proof (cases "take_nth k (internalOverflow (sys_cs s))")
    case (Some p)
    obtain mi mis where p: "p = (mi, mis)" by fastforce
    note m = take_nth_set [OF Some [unfolded p]]
    have "safe N A a ((sys_cs s)\<lparr>internalOverflow := mis, internalMsgQueue := internalMsgQueue (sys_cs s) @ [mi]\<rparr>)"
      by (rule queue_safe [OF safe]) (use m in auto)
    then show ?thesis using e OverflowSend Some p safe by (auto split: if_splits)
  qed (use e OverflowSend safe in simp)
next
  case TickerTick
  have "safe N A a ((sys_cs s)\<lparr>tickChan := tis\<rparr>)" if "tickChan (sys_cs s) = ti # tis" for ti tis
  proof -
    let ?u = "(sys_cs s)\<lparr>tickChan := tis\<rparr>"
    have "cs_inv ?u" using safe that
      by (auto simp: safe_def cs_inv_def step_ok_def votes_ok_def proposals_ok_def ticks_ok_def chain_ok_def pos_def)
    then have "stays (sys_cs s) ?u" by (simp add: stays_def pos_def)
    from safe_frame [OF _ this safe] show ?thesis by simp
  qed
  then show ?thesis using e TickerTick safe by (auto split: list.splits)
next
  case TickerFire
  then show ?thesis using e safe by auto
next
  case (Tock k)
  show ?thesis
  proof (cases "take_nth k (tt_tockChan (sys_ticker s))")
    case (Some p)
    obtain ti tis where p: "p = (ti, tis)" by fastforce
    have "ti \<in> ticker_held (sys_ticker s)"
      using take_nth_set [OF Some [unfolded p]] by (auto simp: ticker_held_def)
    then have "tick_ok (pos (sys_cs s)) ti" using sys by (simp add: system_inv_def)
    then show ?thesis
      using e Tock Some p handleTimeout_safe [OF ev safe new] by (auto simp: andThen_eq_Inr)
  qed (use e Tock safe in simp)
next
  case SyncTimer
  then show ?thesis using e broadcast_safe [OF safe] by (auto simp: andThen_eq_Inr)
next
  case (SyncRequest req)
  then show ?thesis using e safe by (auto simp: andThen_eq_Inr)
next
  case (CommittedBlock block)
  then show ?thesis
    using e processCommitedBlock_safe [OF ev safe new bound, of block] genuine by (auto simp: andThen_eq_Inr)
qed

text \<open>A node that starts from the genesis state is safe: it has signed nothing.\<close>

lemma start_node_safe:
  assumes ev: "evidence_ok N A" and startable: "startable state" and "st_LastBlockHeight state = 0"
    and known: "ev_known A state" and signed: "ev_signed A = []"
    and key: "\<And>p k. pv = Some p \<Longrightarrow> pv_GetPubKey N p = Inr k \<Longrightarrow> pubkey_Address k = a"
    and start: "start_node N cfg state store pv = Inr (None, s)"
  shows "safe N A a (sys_cs s)"
proof -
  obtain cs u where cs: "NewConsensusState N cfg state store = Inr cs"
    and u: "u = SetPrivValidator N pv cs" and s: "sys_cs s = scheduleRound0 N (GetRoundState u) u"
    using start
    by (auto simp: start_node_def ConsensusState_OnStart_def andThen_eq_Inr split: option.splits)
  obtain lc where r: "cs = updateToState_reset N state ((zero_consensus_state cfg store)\<lparr>LastCommit := lc\<rparr>)"
    using NewConsensusState_reset [OF cs] by blast
  have f: "Height cs = next_height state" "chainState cs = state" "signedVotes cs = []" "Round cs = 0"
    "LockedRound cs = -1" "LockedBlock cs = None" "privValidatorPubKey cs = None" "queued_votes cs = {}"
    "Votes cs = Some (NewHeightVoteSet N (st_ChainID state) (next_height state) (st_Validators state))"
    unfolding r
    by (simp_all add: updateToState_reset_def machine_defs CanonicalNow_def Let_def queued_votes_def
        zero_consensus_state_def)
  have g: "Height u = Height cs" "chainState u = state" "signedVotes u = []" "Round u = 0"
    "LockedRound u = -1" "LockedBlock u = None" "queued_votes u = {}" "Votes u = Votes cs" "privValidator u = pv"
    "\<forall>k. privValidatorPubKey u = Some k \<longrightarrow> (\<exists>p. pv = Some p \<and> pv_GetPubKey N p = Inr k)"
    unfolding u using f
    by (auto simp: SetPrivValidator_def updatePrivValidatorPubKey_def queued_votes_def split: option.splits sum.splits)
  have "ev_backed A (Height u) (Votes u)" using backed_new [OF ev known] f g(1,8) by simp
  then have "lock_inv N A a u"
    using g key known assms(3) signed
    by (auto simp: lock_inv_def own_votes_def precommits_hold_def prevotes_follow_def lock_shape_def
        decided_def votes_extend_def)
  moreover have "cs_inv u" using NewConsensusState_inv [OF startable cs] core_inv [of u cs] u by simp
  ultimately have "safe N A a u" by (simp add: safe_def)
  then show ?thesis unfolding s by (rule scheduleRound0_safe)
qed

end

end
