(* ===== verification/Network.thy ===== *)
theory Network
  imports CS_Locks
begin

text \<open>
  A network of nodes, and why no two majorities of one height are for different blocks.

  A network is a map from validator addresses to systems (\<open>CS_Run\<close>), each wired as \<open>runNode\<close> wires
  it. A step of the network is an event of one honest node; peers, timers and the scheduler choose
  the events, with one restriction: a vote, or a signature in a commit, that is valid and carries
  the address of an honest node was signed by that node (signatures cannot be forged). Nodes that
  are not honest do not appear: whatever they send is part of the events. Honest nodes start from
  the genesis state and do not restart, since the private validator keeps no record of what it
  signed.

  What the code relies on of the vote sets, the validator sets and \<open>VerifyCommit\<close> is
  \<open>package_ok\<close>: a majority means that the validators of a quorum, a set with more than two thirds of
  the voting power, cast recorded votes. Less than a third of the power is with validators that are
  not honest, so any two quorums share an honest one.
\<close>

section \<open>The network\<close>

record ('val, 'hvs) trust =
  honest :: "address set"
  members :: "address set"
  voting_power :: "address \<Rightarrow> int"
  known_vals :: "'val option \<Rightarrow> bool"
  known_votes :: "'hvs option \<Rightarrow> bool"
  recorded :: "'hvs option \<Rightarrow> vote set"
  valid_vote :: "vote \<Rightarrow> bool"
  valid_sig :: "commit \<Rightarrow> address \<Rightarrow> commit_sig \<Rightarrow> bool"

text \<open>A set of validators with more than two thirds of the power.\<close>

definition quorum :: "('val, 'hvs) trust \<Rightarrow> address set \<Rightarrow> bool" where
  "quorum T Q \<longleftrightarrow> Q \<subseteq> members T \<and> 2 * sum (voting_power T) (members T) < 3 * sum (voting_power T) Q"

text \<open>A vote of \<open>a\<close> with a given content.\<close>

definition vote_of :: "u64 \<Rightarrow> int \<Rightarrow> SignedMsgType \<Rightarrow> hash \<Rightarrow> vote \<Rightarrow> bool" where
  "vote_of h r T b v \<longleftrightarrow> v_Height v = h \<and> v_Round v = r \<and> v_Type v = T \<and> v_BlockID v = b"

text \<open>A majority of a vote set means that the validators of a quorum cast recorded votes for it.\<close>

definition majorities_ok ::
  "('val, 'vs, 'hvs, 'blk, 'e) ext_scheme \<Rightarrow> ('val, 'hvs) trust \<Rightarrow> SignedMsgType
     \<Rightarrow> ('hvs option \<Rightarrow> int \<Rightarrow> 'vs option) \<Rightarrow> bool" where
  "majorities_ok E T K votes \<longleftrightarrow>
     (\<forall>vs r b. known_votes T vs \<longrightarrow> vs_TwoThirdsMajority E (votes vs r) = (b, True)
        \<longrightarrow> (\<exists>Q. quorum T Q \<and> (\<forall>a\<in>Q. \<exists>v\<in>recorded T vs. v_ValidatorAddress v = a
             \<and> v_Round v = r \<and> v_Type v = K \<and> v_BlockID v = b)))"

text \<open>A vote set records the valid votes it was given, and a new one none.\<close>

definition recording_ok :: "('val, 'vs, 'hvs, 'blk, 'e) ext_scheme \<Rightarrow> ('val, 'hvs) trust \<Rightarrow> bool" where
  "recording_ok E T \<longleftrightarrow>
     (\<forall>vs n vs'. known_votes T vs \<longrightarrow> hvs_SetRound E n vs = Inr vs'
        \<longrightarrow> known_votes T vs' \<and> recorded T vs' \<subseteq> recorded T vs)
     \<and> (\<forall>vs v p r vs'. known_votes T vs \<longrightarrow> hvs_AddVote E v p vs = Inr (r, vs')
        \<longrightarrow> known_votes T vs' \<and> recorded T vs' \<subseteq> recorded T vs \<union> (if valid_vote T v then {v} else {}))
     \<and> (\<forall>ch h vals. known_vals T vals \<longrightarrow> known_votes T (Some (NewHeightVoteSet E ch h vals))
        \<and> recorded T (Some (NewHeightVoteSet E ch h vals)) = {})"

text \<open>The validators do not change, and a commit that \<open>VerifyCommit\<close> accepts has the valid
  signatures of a quorum.\<close>

definition validators_ok :: "('val, 'vs, 'hvs, 'blk, 'e) ext_scheme \<Rightarrow> ('val, 'hvs) trust \<Rightarrow> bool" where
  "validators_ok E T \<longleftrightarrow>
     (\<forall>vals. known_vals T vals \<longrightarrow> known_vals T (vals_Copy E vals))
     \<and> (\<forall>n vals vals'. known_vals T vals \<longrightarrow> vals_IncrementProposerPriority E n vals = Inr vals'
        \<longrightarrow> known_vals T vals')
     \<and> (\<forall>vals ch b h co. known_vals T vals \<longrightarrow> vals_VerifyCommit E vals ch b h co = None
        \<longrightarrow> (\<exists>c Q. co = Some c \<and> c_Height c = h \<and> c_BlockID c = b \<and> quorum T Q
             \<and> (\<forall>a\<in>Q. \<exists>s\<in>set (c_Signatures c). valid_sig T c a s)))"

definition package_ok :: "('val, 'vs, 'hvs, 'blk, 'e) ext_scheme \<Rightarrow> ('val, 'hvs) trust \<Rightarrow> bool" where
  "package_ok E T \<longleftrightarrow> hash_to_ok E \<and> majorities_ok E T PrevoteType (hvs_Prevotes E)
     \<and> majorities_ok E T PrecommitType (hvs_Precommits E) \<and> recording_ok E T \<and> validators_ok E T"

text \<open>Less than a third of the power is faulty.\<close>

definition powers_ok :: "('val, 'hvs) trust \<Rightarrow> bool" where
  "powers_ok T \<longleftrightarrow> finite (members T) \<and> (\<forall>a\<in>members T. 0 \<le> voting_power T a)
     \<and> 3 * sum (voting_power T) (members T - honest T) < sum (voting_power T) (members T)"

text \<open>Then two quorums share an honest validator.\<close>

lemma quorums_share_honest:
  assumes "powers_ok T" and "quorum T Q" and "quorum T Q'"
  shows "\<exists>a\<in>Q \<inter> Q'. a \<in> honest T"
proof (rule ccontr)
  let ?p = "sum (voting_power T)" and ?V = "members T"
  assume "\<not> (\<exists>a\<in>Q \<inter> Q'. a \<in> honest T)"
  then have faulty: "Q \<inter> Q' \<subseteq> ?V - honest T" using assms(2) by (auto simp: quorum_def)
  have fin: "finite ?V" and pos: "\<forall>a\<in>?V. 0 \<le> voting_power T a" using assms(1) by (simp_all add: powers_ok_def)
  have sub: "Q \<union> Q' \<subseteq> ?V" "finite Q" "finite Q'"
    using assms(2,3) fin finite_subset by (auto simp: quorum_def)
  have "?p (Q \<inter> Q') \<le> ?p (?V - honest T)" using faulty fin pos by (intro sum_mono2) auto
  moreover have "?p (Q \<union> Q') \<le> ?p ?V" using sub fin pos by (intro sum_mono2) auto
  moreover have "?p (Q \<union> Q') + ?p (Q \<inter> Q') = ?p Q + ?p Q'" using sub(2,3) by (rule sum.union_inter)
  ultimately show False using assms by (simp add: powers_ok_def quorum_def)
qed

type_synonym ('val, 'vs, 'hvs, 'blk, 'db) network =
  "address \<Rightarrow> ('val, 'vs, 'hvs, 'blk, 'db, priv_validator_local) system"

definition votes_by :: "('val, 'vs, 'hvs, 'blk, 'db) network \<Rightarrow> address \<Rightarrow> vote list" where
  "votes_by g a = signedVotes (sys_cs (g a))"

text \<open>The honest members of a quorum have signed votes with this content.\<close>

definition cast_by_quorum ::
  "('val, 'hvs) trust \<Rightarrow> ('val, 'vs, 'hvs, 'blk, 'db) network \<Rightarrow> SignedMsgType \<Rightarrow> u64 \<Rightarrow> int \<Rightarrow> hash \<Rightarrow> bool"
  where
  "cast_by_quorum T g K h r b \<longleftrightarrow>
     (\<exists>Q. quorum T Q \<and> (\<forall>a\<in>Q \<inter> honest T. \<exists>v\<in>set (votes_by g a). vote_of h r K b v))"

text \<open>A vote of an honest node was signed by it.\<close>

definition authentic ::
  "('val, 'hvs) trust \<Rightarrow> ('val, 'vs, 'hvs, 'blk, 'db) network \<Rightarrow> vote \<Rightarrow> bool" where
  "authentic T g v \<longleftrightarrow> (v_ValidatorAddress v \<in> honest T \<longrightarrow>
     (\<exists>w\<in>set (votes_by g (v_ValidatorAddress v)). vote_of (v_Height v) (v_Round v) (v_Type v) (v_BlockID v) w))"

definition net_evidence ::
  "('val, 'vs, 'hvs, 'blk) ext \<Rightarrow> ('val, 'hvs) trust \<Rightarrow> ('val, 'vs, 'hvs, 'blk, 'db) network \<Rightarrow> address
     \<Rightarrow> ('val, 'hvs, 'blk) evidence" where
  "net_evidence E T g a =
     \<lparr>ev_polka = cast_by_quorum T g PrevoteType,
      ev_majority = cast_by_quorum T g PrecommitType,
      ev_backed = (\<lambda>h vs. known_votes T vs \<and> (\<forall>v\<in>recorded T vs. v_Height v = h \<and> authentic T g v)),
      ev_known = (\<lambda>st. known_vals T (st_Validators st)),
      ev_genuine = (\<lambda>v. valid_vote T v \<longrightarrow> authentic T g v),
      ev_certified = (\<lambda>b. \<forall>c s q. blk_HeaderCommit E b = Some c \<longrightarrow> s \<in> set (c_Signatures c)
        \<longrightarrow> valid_sig T c q s \<longrightarrow> q \<in> honest T
        \<longrightarrow> (\<exists>v\<in>set (votes_by g q). vote_of (c_Height c) (c_Round c) PrecommitType (c_BlockID c) v)),
      ev_signed = votes_by g a\<rparr>"

text \<open>The network: its start and its steps.\<close>

definition net_start ::
  "(address \<Rightarrow> ('val, 'vs, 'hvs, 'blk) ext) \<Rightarrow> (address \<Rightarrow> ('db, 'blk) db_ext) \<Rightarrow> ('val, 'hvs) trust
     \<Rightarrow> (address \<Rightarrow> config) \<Rightarrow> 'val chain_state \<Rightarrow> (address \<Rightarrow> 'db) \<Rightarrow> (address \<Rightarrow> priv_validator_local option)
     \<Rightarrow> ('val, 'vs, 'hvs, 'blk, 'db) network \<Rightarrow> bool" where
  "net_start E D T cfg state store pv g \<longleftrightarrow>
     (\<forall>a\<in>honest T. (\<forall>p. pv a = Some p \<longrightarrow> PrivValidatorLocal_Address (E a) p = a)
        \<and> start_node (default_node (E a) (D a)) (cfg a) state (store a) (pv a) = Inr (None, g a))"

inductive net_step ::
  "(address \<Rightarrow> ('val, 'vs, 'hvs, 'blk) ext) \<Rightarrow> (address \<Rightarrow> ('db, 'blk) db_ext) \<Rightarrow> ('val, 'hvs) trust
     \<Rightarrow> ('val, 'vs, 'hvs, 'blk, 'db) network \<Rightarrow> ('val, 'vs, 'hvs, 'blk, 'db) network \<Rightarrow> bool"
  for E :: "address \<Rightarrow> ('val, 'vs, 'hvs, 'blk) ext" and D :: "address \<Rightarrow> ('db, 'blk) db_ext"
    and T :: "('val, 'hvs) trust" where
  net_event: "a \<in> honest T \<Longrightarrow> Height (sys_cs (g a)) + 1 \<noteq> 0
     \<Longrightarrow> event_genuine (net_evidence (E a) T g a) ev
     \<Longrightarrow> receive_event (default_node (E a) (D a)) ev (g a) = Inr t
     \<Longrightarrow> net_step E D T g (g(a := t))"

inductive_cases net_stepE: "net_step E D T g g'"

text \<open>What is assumed of the environment of every honest node, and of the genesis state.\<close>

definition net_ok ::
  "(address \<Rightarrow> ('val, 'vs, 'hvs, 'blk) ext) \<Rightarrow> ('val, 'hvs) trust \<Rightarrow> 'val chain_state \<Rightarrow> bool" where
  "net_ok E T state \<longleftrightarrow> powers_ok T
     \<and> (\<forall>a\<in>honest T. package_ok (E a) T \<and> new_proposal_ok (E a))
     \<and> startable state \<and> st_LastBlockHeight state = 0 \<and> known_vals T (st_Validators state)"

section \<open>The evidence of a network state\<close>

lemma default_hash_to [simp]: "hash_to_ok (default_node E D) = hash_to_ok E"
  by (simp add: hash_to_ok_def default_node_fields)

lemma default_library_fields [simp]:
  "hvs_SetRound (default_node E D) = hvs_SetRound E"
  "hvs_AddVote (default_node E D) = hvs_AddVote E"
  "NewHeightVoteSet (default_node E D) = NewHeightVoteSet E"
  "pv_GetPubKey (default_node E D) = PrivValidatorLocal_GetPubKey E"
  "ChainState_Copy (default_node E D) = ChainState_Copy E"
  by (simp_all add: default_node_def ext.defs ChainState_Copy_def fun_eq_iff)

lemma package_polka:
  assumes "package_ok E T" and "known_votes T vs" and "vs_TwoThirdsMajority E (hvs_Prevotes E vs r) = (b, True)"
  shows "\<exists>Q. quorum T Q \<and> (\<forall>a\<in>Q. \<exists>v\<in>recorded T vs. v_ValidatorAddress v = a
             \<and> v_Round v = r \<and> v_Type v = PrevoteType \<and> v_BlockID v = b)"
  using assms unfolding package_ok_def majorities_ok_def by blast

lemma package_majority:
  assumes "package_ok E T" and "known_votes T vs" and "vs_TwoThirdsMajority E (hvs_Precommits E vs r) = (b, True)"
  shows "\<exists>Q. quorum T Q \<and> (\<forall>a\<in>Q. \<exists>v\<in>recorded T vs. v_ValidatorAddress v = a
             \<and> v_Round v = r \<and> v_Type v = PrecommitType \<and> v_BlockID v = b)"
  using assms unfolding package_ok_def majorities_ok_def by blast

lemma package_SetRound:
  assumes "package_ok E T" and "known_votes T vs" and "hvs_SetRound E n vs = Inr vs'"
  shows "known_votes T vs' \<and> recorded T vs' \<subseteq> recorded T vs"
  using assms unfolding package_ok_def recording_ok_def by blast

lemma package_AddVote:
  assumes "package_ok E T" and "known_votes T vs" and "hvs_AddVote E v p vs = Inr (r, vs')"
  shows "known_votes T vs' \<and> recorded T vs' \<subseteq> recorded T vs \<union> (if valid_vote T v then {v} else {})"
  using assms unfolding package_ok_def recording_ok_def by (cases r) blast

lemma package_new:
  assumes "package_ok E T" and "known_vals T vals"
  shows "known_votes T (Some (NewHeightVoteSet E ch h vals)) \<and> recorded T (Some (NewHeightVoteSet E ch h vals)) = {}"
  using assms unfolding package_ok_def recording_ok_def by blast

lemma package_next_vals:
  assumes "package_ok E T" and "known_vals T vals"
  shows "known_vals T (vals_Copy E vals)"
    "vals_IncrementProposerPriority E n vals = Inr vals' \<Longrightarrow> known_vals T vals'"
  using assms unfolding package_ok_def validators_ok_def by blast+

lemma package_VerifyCommit:
  assumes "package_ok E T" and "known_vals T vals" and "vals_VerifyCommit E vals ch b h co = None"
  shows "\<exists>c Q. co = Some c \<and> c_Height c = h \<and> c_BlockID c = b \<and> quorum T Q
    \<and> (\<forall>a\<in>Q. \<exists>s\<in>set (c_Signatures c). valid_sig T c a s)"
  using assms unfolding package_ok_def validators_ok_def by blast

lemma net_evidence_ok:
  assumes "package_ok E T"
  shows "evidence_ok (default_node E D) (net_evidence E T g a)"
proof -
  have cast: "cast_by_quorum T g K h r b"
    if q: "quorum T Q" "\<forall>a\<in>Q. \<exists>v\<in>recorded T vs. v_ValidatorAddress v = a \<and> v_Round v = r
        \<and> v_Type v = K \<and> v_BlockID v = b"
      and rec: "\<forall>v\<in>recorded T vs. v_Height v = h \<and> authentic T g v" for Q vs K h r b
    unfolding cast_by_quorum_def
  proof (intro exI [of _ Q] conjI ballI)
    fix a assume a: "a \<in> Q \<inter> honest T"
    then obtain v where v: "v \<in> recorded T vs" "v_ValidatorAddress v = a" "vote_of h r K b v"
      using q(2) rec unfolding vote_of_def by blast
    then have "authentic T g v" using rec by blast
    then obtain w where "w \<in> set (votes_by g a)" "vote_of (v_Height v) (v_Round v) (v_Type v) (v_BlockID v) w"
      using a v(2) unfolding authentic_def by blast
    then show "\<exists>v\<in>set (votes_by g a). vote_of h r K b v" using v(3) unfolding vote_of_def by metis
  qed (rule q(1))
  have "vote_sets_ok (default_node E D) (net_evidence E T g a)"
    unfolding vote_sets_ok_def default_node_fields default_library_fields
  proof (intro conjI allI impI)
    fix h vs r b
    assume h: "ev_backed (net_evidence E T g a) h vs"
      and m: "vs_TwoThirdsMajority E (hvs_Prevotes E vs r) = (b, True)"
    have k: "known_votes T vs" and rec: "\<forall>v\<in>recorded T vs. v_Height v = h \<and> authentic T g v"
      using h by (simp_all add: net_evidence_def)
    show "ev_polka (net_evidence E T g a) h r b"
      using package_polka [OF assms k m] cast rec by (auto simp: net_evidence_def)
  next
    fix h vs r b
    assume h: "ev_backed (net_evidence E T g a) h vs"
      and m: "vs_TwoThirdsMajority E (hvs_Precommits E vs r) = (b, True)"
    have k: "known_votes T vs" and rec: "\<forall>v\<in>recorded T vs. v_Height v = h \<and> authentic T g v"
      using h by (simp_all add: net_evidence_def)
    show "ev_majority (net_evidence E T g a) h r b"
      using package_majority [OF assms k m] cast rec by (auto simp: net_evidence_def)
  next
    fix h vs n vs'
    assume h: "ev_backed (net_evidence E T g a) h vs" and s: "hvs_SetRound E n vs = Inr vs'"
    then show "ev_backed (net_evidence E T g a) h vs'"
      using package_SetRound [OF assms _ s] by (auto simp: net_evidence_def)
  next
    fix h vs v p r vs'
    assume h: "ev_backed (net_evidence E T g a) h vs" and v: "v_Height v = h"
      and gen: "ev_genuine (net_evidence E T g a) v" and s: "hvs_AddVote E v p vs = Inr (r, vs')"
    then show "ev_backed (net_evidence E T g a) h vs'"
      using package_AddVote [OF assms _ s] by (auto simp: net_evidence_def split: if_splits)
  next
    fix st assume "ev_known (net_evidence E T g a) st"
    then show "ev_backed (net_evidence E T g a) (next_height st)
        (Some (NewHeightVoteSet E (st_ChainID st) (next_height st) (st_Validators st)))"
      using package_new [OF assms] by (simp add: net_evidence_def)
  qed
  moreover have "commits_ok (default_node E D) (net_evidence E T g a)"
    unfolding commits_ok_def default_node_fields default_library_fields
  proof (intro conjI allI impI)
    fix st b h
    assume k: "ev_known (net_evidence E T g a) st" and cert: "ev_certified (net_evidence E T g a) b"
      and vc: "vals_VerifyCommit E (st_Validators st) (st_ChainID st) (blk_Hash E b) h (blk_HeaderCommit E b) = None"
    have "known_vals T (st_Validators st)" using k by (simp add: net_evidence_def)
    then obtain c Q where c: "blk_HeaderCommit E b = Some c" "c_Height c = h" "c_BlockID c = blk_Hash E b"
        "quorum T Q" "\<forall>a\<in>Q. \<exists>s\<in>set (c_Signatures c). valid_sig T c a s"
      using package_VerifyCommit [OF assms _ vc] by blast
    have "cast_by_quorum T g PrecommitType h (c_Round c) (blk_Hash E b)"
      unfolding cast_by_quorum_def
    proof (intro exI [of _ Q] conjI ballI)
      fix a' assume "a' \<in> Q \<inter> honest T"
      then show "\<exists>v\<in>set (votes_by g a'). vote_of h (c_Round c) PrecommitType (blk_Hash E b) v"
        using c cert by (fastforce simp: net_evidence_def)
    qed (rule c(4))
    then show "\<exists>r. ev_majority (net_evidence E T g a) h r (blk_Hash E b)"
      by (auto simp: net_evidence_def)
  next
    fix st b st'
    assume k: "ev_known (net_evidence E T g a) st"
      and ap: "DefaultBlockExecutor_ApplyBlock E (ChainState_Copy E st) b = Inr (Inr st')"
    obtain vals where v: "vals_IncrementProposerPriority E 1 (vals_Copy E (vals_Copy E (st_Validators st))) = Inr vals"
      and st': "st_Validators st' = vals"
      using ap by (auto simp: DefaultBlockExecutor_ApplyBlock_def updateState_def andThen_eq_Inr
          ChainState_Copy_def)
    show "ev_known (net_evidence E T g a) st'"
      using k package_next_vals(2) [OF assms _ v] package_next_vals(1) [OF assms] st'
      by (simp add: net_evidence_def)
  qed
  moreover have "hash_to_ok (default_node E D)" using assms by (simp add: package_ok_def)
  ultimately show ?thesis by (simp add: evidence_ok_def)
qed


section \<open>Runs of the network\<close>

text \<open>More evidence keeps the invariant of a node.\<close>

lemma safe_mono:
  assumes "safe E A a cs" and ext: "votes_extend B cs"
    and le: "\<And>h r b. ev_polka A h r b \<Longrightarrow> ev_polka B h r b"
    "\<And>h r b. ev_majority A h r b \<Longrightarrow> ev_majority B h r b"
    "\<And>h vs. ev_backed A h vs \<Longrightarrow> ev_backed B h vs" "\<And>st. ev_known A st \<Longrightarrow> ev_known B st"
  shows "safe E B a cs"
proof -
  have moved: "moved_on A h r b r2 \<Longrightarrow> moved_on B h r b r2" for h r b r2
    using le(1) unfolding moved_on_def by blast
  have li: "lock_inv E A a cs" using assms(1) by (simp add: safe_def)
  have "precommits_hold E B cs"
    using li le(1) moved unfolding lock_inv_def precommits_hold_def by blast
  moreover have "prevotes_follow B (signedVotes cs)"
    using li moved unfolding lock_inv_def prevotes_follow_def by blast
  moreover have "decided B (chainState cs)"
    using li le(2) unfolding lock_inv_def decided_def by blast
  ultimately show ?thesis
    using assms(1) le(3,4) ext by (simp add: safe_def lock_inv_def)
qed

definition grows ::
  "('val, 'hvs) trust \<Rightarrow> ('val, 'vs, 'hvs, 'blk, 'db) network \<Rightarrow> ('val, 'vs, 'hvs, 'blk, 'db) network \<Rightarrow> bool"
  where
  "grows T g g' \<longleftrightarrow> (\<forall>a\<in>honest T. \<exists>vs. votes_by g' a = votes_by g a @ vs)"

lemma grows_set: "grows T g g' \<Longrightarrow> a \<in> honest T \<Longrightarrow> v \<in> set (votes_by g a) \<Longrightarrow> v \<in> set (votes_by g' a)"
  by (fastforce simp: grows_def)

lemma grows_refl [simp]: "grows T g g"
  by (simp add: grows_def)

lemma grows_trans: "grows T g g' \<Longrightarrow> grows T g' g'' \<Longrightarrow> grows T g g''"
  unfolding grows_def by (metis append_assoc)

lemma cast_mono: "grows T g g' \<Longrightarrow> cast_by_quorum T g K h r b \<Longrightarrow> cast_by_quorum T g' K h r b"
  unfolding cast_by_quorum_def by (meson IntD2 grows_set)

lemma authentic_mono: "grows T g g' \<Longrightarrow> authentic T g v \<Longrightarrow> authentic T g' v"
  unfolding authentic_def by (meson grows_set)

lemma net_evidence_mono:
  assumes "safe N (net_evidence E T g a) a cs" and "grows T g g'" and "votes_by g' a = signedVotes cs"
  shows "safe N (net_evidence E T g' a) a cs"
  by (rule safe_mono [OF assms(1)])
    (use assms(2,3) in \<open>auto simp: net_evidence_def votes_extend_def intro: cast_mono authentic_mono\<close>)

text \<open>The invariant of a network: each honest node is safe for the evidence there is.\<close>

definition net_inv ::
  "(address \<Rightarrow> ('val, 'vs, 'hvs, 'blk) ext) \<Rightarrow> (address \<Rightarrow> ('db, 'blk) db_ext) \<Rightarrow> ('val, 'hvs) trust
     \<Rightarrow> ('val, 'vs, 'hvs, 'blk, 'db) network \<Rightarrow> bool" where
  "net_inv E D T g \<longleftrightarrow> (\<forall>a\<in>honest T. system_inv (g a)
     \<and> safe (default_node (E a) (D a)) (net_evidence (E a) T g a) a (sys_cs (g a)))"

lemma default_new_proposal [simp]: "new_proposal_ok (default_node E D) = new_proposal_ok E"
  by (simp add: new_proposal_ok_def default_node_def ext.defs)

lemma start_node_signed:
  assumes "start_node N cfg state store pv = Inr (None, s)"
  shows "signedVotes (sys_cs s) = []"
proof -
  obtain cs u where cs: "NewConsensusState N cfg state store = Inr cs"
    and u: "u = SetPrivValidator N pv cs" and s: "sys_cs s = scheduleRound0 N (GetRoundState u) u"
    using assms
    by (auto simp: start_node_def ConsensusState_OnStart_def andThen_eq_Inr split: option.splits)
  have "signedVotes cs = []"
    using NewConsensusState_reset [OF cs] by (auto simp: updateToState_reset_fields zero_consensus_state_def)
  then show ?thesis
    by (simp add: s u scheduleRound0_def CanonicalNow_def machine_defs SetPrivValidator_def
        updatePrivValidatorPubKey_def split: option.split sum.split)
qed

lemma net_start_inv:
  assumes ok: "net_ok E T state" and start: "net_start E D T cfg state store pv g"
  shows "net_inv E D T g" and "a \<in> honest T \<Longrightarrow> votes_by g a = []"
proof -
  have s: "start_node (default_node (E a) (D a)) (cfg a) state (store a) (pv a) = Inr (None, g a)"
    if "a \<in> honest T" for a using start that by (simp add: net_start_def)
  have nil: "votes_by g a = []" if "a \<in> honest T" for a
    using start_node_signed [OF s [OF that]] by (simp add: votes_by_def)
  then show "a \<in> honest T \<Longrightarrow> votes_by g a = []" .
  show "net_inv E D T g"
    unfolding net_inv_def
  proof (intro ballI conjI)
    fix a assume a: "a \<in> honest T"
    show "system_inv (g a)"
      using default_consensus.start_node_inv [OF _ s [OF a]] ok by (simp add: net_ok_def)
    show "safe (default_node (E a) (D a)) (net_evidence (E a) T g a) a (sys_cs (g a))"
    proof (rule default_consensus.start_node_safe [OF _ _ _ _ _ _ s [OF a]])
      show "evidence_ok (default_node (E a) (D a)) (net_evidence (E a) T g a)"
        by (rule net_evidence_ok) (use ok a in \<open>simp add: net_ok_def\<close>)
      fix p k assume "pv a = Some p" "pv_GetPubKey (default_node (E a) (D a)) p = Inr k"
      then show "pubkey_Address k = a"
        using start a by (auto simp: net_start_def PrivValidatorLocal_GetPubKey_def)
    qed (use ok nil [OF a] in \<open>simp_all add: net_ok_def net_evidence_def\<close>)
  qed
qed

lemma net_step_inv:
  assumes ok: "net_ok E T state" and inv: "net_inv E D T g" and step: "net_step E D T g g'"
  shows "net_inv E D T g'" and "grows T g g'"
    and "a \<in> honest T \<Longrightarrow> safe (default_node (E a) (D a)) (net_evidence (E a) T g a) a (sys_cs (g' a))"
proof -
  from step obtain b ev t where b: "b \<in> honest T" "Height (sys_cs (g b)) + 1 \<noteq> 0"
    "event_genuine (net_evidence (E b) T g b) ev" "receive_event (default_node (E b) (D b)) ev (g b) = Inr t"
    and g': "g' = g(b := t)" by (rule net_stepE) blast
  let ?N = "default_node (E b) (D b)" and ?A = "net_evidence (E b) T g b"
  have new: "new_proposal_ok ?N" and pk: "package_ok (E b) T" using ok b(1) by (simp_all add: net_ok_def)
  have sys: "system_inv (g b)" and safe: "safe ?N ?A b (sys_cs (g b))"
    using inv b(1) by (simp_all add: net_inv_def)
  have own: "\<forall>v\<in>set (signedVotes (sys_cs (g b))). ev_genuine ?A v"
  proof
    fix v assume v: "v \<in> set (signedVotes (sys_cs (g b)))"
    then have "v_ValidatorAddress v = b" using safe by (simp add: safe_def lock_inv_def own_votes_def)
    then show "ev_genuine ?A v" using v by (auto simp: net_evidence_def authentic_def votes_by_def vote_of_def)
  qed
  have t: "safe ?N ?A b (sys_cs t)"
    by (rule default_consensus.receive_event_safe [OF net_evidence_ok [OF pk] safe sys new b(2) own b(3,4)])
  have sys_t: "system_inv t"
    using default_consensus.receive_event_inv [OF sys new b(2,4)] by blast
  show pre: "safe (default_node (E a) (D a)) (net_evidence (E a) T g a) a (sys_cs (g' a))"
    if "a \<in> honest T" for a
    using inv t that by (simp add: g' net_inv_def)
  show gr: "grows T g g'"
    using t by (auto simp: grows_def g' votes_by_def safe_def lock_inv_def votes_extend_def net_evidence_def)
  show "net_inv E D T g'"
    unfolding net_inv_def
  proof (intro ballI conjI)
    fix a assume a: "a \<in> honest T"
    show "system_inv (g' a)" using inv sys_t a by (simp add: g' net_inv_def)
    show "safe (default_node (E a) (D a)) (net_evidence (E a) T g' a) a (sys_cs (g' a))"
      by (rule net_evidence_mono [OF pre [OF a] gr]) (simp add: votes_by_def)
  qed
qed

lemma net_steps_inv:
  assumes "net_ok E T state" and "(net_step E D T)\<^sup>*\<^sup>* g g'" and "net_inv E D T g"
  shows "net_inv E D T g' \<and> grows T g g'"
  using assms(2,3)
proof (induction rule: rtranclp_induct)
  case (step u v)
  then show ?case using net_step_inv [OF assms(1) _ step.hyps(2)] grows_trans by blast
qed simp


section \<open>Agreement\<close>

lemma quorums_meet:
  assumes "net_ok E T state" and "quorum T Q" and "quorum T Q'"
  obtains a where "a \<in> Q" "a \<in> Q'" "a \<in> honest T"
  using assms quorums_share_honest [of T Q Q'] unfolding net_ok_def by blast

text \<open>A vote that comes before another in the list of signed votes has no later position.\<close>

lemma signed_before:
  assumes "safe N A a cs" and "signedVotes cs = vs @ ws" and "v \<in> set vs" and "w \<in> set ws"
  shows "vote_pos v \<le> vote_pos w"
  using assms by (auto simp: safe_def lock_inv_def own_votes_def sorted_wrt_append)

text \<open>Once a quorum has precommitted a block, no later round has a polka for another one: by
  induction over the run, the node in both quorums that signed the first precommit before its
  prevote has seen an earlier polka for another block.\<close>

lemma no_later_polka:
  assumes ok: "net_ok E T state" and start: "net_start E D T cfg state store pv g0"
    and run: "(net_step E D T)\<^sup>*\<^sup>* g0 g" and rest: "(net_step E D T)\<^sup>*\<^sup>* g gf"
    and major: "cast_by_quorum T gf PrecommitType h r b" and b: "b \<noteq> 0"
  shows "\<forall>r' b'. r < r' \<longrightarrow> cast_by_quorum T g PrevoteType h r' b' \<longrightarrow> b' = b"
  using run rest
proof (induction rule: rtranclp_induct)
  case base
  have "\<not> cast_by_quorum T g0 PrevoteType h r' b'" for r' b'
    using net_start_inv(2) [OF ok start] quorums_meet [OF ok]
    unfolding cast_by_quorum_def by (metis IntI empty_iff empty_set)
  then show ?case by blast
next
  case (step g g')
  have inv: "net_inv E D T g"
    using net_steps_inv [OF ok step.hyps(1) net_start_inv(1) [OF ok start]] by blast
  note pre = net_step_inv(3) [OF ok inv step.hyps(2)]
  have inv': "net_inv E D T g'" by (rule net_step_inv(1) [OF ok inv step.hyps(2)])
  have gf: "net_inv E D T gf" "grows T g' gf" using net_steps_inv [OF ok step.prems inv'] by blast+
  have IH: "\<forall>r' b'. r < r' \<longrightarrow> cast_by_quorum T g PrevoteType h r' b' \<longrightarrow> b' = b"
    using step.IH step.hyps(2) step.prems by (metis converse_rtranclp_into_rtranclp)
  show ?case
  proof (intro allI impI)
    fix r' b' assume r: "r < r'" and polka: "cast_by_quorum T g' PrevoteType h r' b'"
    obtain Q Q' where Q: "quorum T Q" "\<forall>a\<in>Q \<inter> honest T. \<exists>v\<in>set (votes_by gf a). vote_of h r PrecommitType b v"
      and Q': "quorum T Q'" "\<forall>a\<in>Q' \<inter> honest T. \<exists>v\<in>set (votes_by g' a). vote_of h r' PrevoteType b' v"
      using major polka unfolding cast_by_quorum_def by blast
    obtain a where a: "a \<in> Q" "a \<in> Q'" "a \<in> honest T" by (rule quorums_meet [OF ok Q(1) Q'(1)])
    obtain v w where v: "v \<in> set (votes_by gf a)" "vote_of h r PrecommitType b v"
      and w: "w \<in> set (votes_by g' a)" "vote_of h r' PrevoteType b' w"
      using Q(2) Q'(2) a by blast
    obtain ws where ws: "votes_by gf a = votes_by g' a @ ws" using gf(2) a(3) by (auto simp: grows_def)
    have safe: "safe (default_node (E a) (D a)) (net_evidence (E a) T gf a) a (sys_cs (gf a))"
      using gf(1) a(3) by (simp add: net_inv_def)
    have "v \<notin> set ws"
    proof
      assume "v \<in> set ws"
      then have "vote_pos w \<le> vote_pos v"
        using signed_before [OF safe _ w(1)] ws by (simp add: votes_by_def)
      then show False using r v(2) w(2) by (auto simp: vote_of_def vote_pos_def less_eq_prod_def)
    qed
    then have v': "v \<in> set (votes_by g' a)" using v(1) ws by simp
    have "prevotes_follow (net_evidence (E a) T g a) (votes_by g' a)"
      using pre [OF a(3)] by (simp add: safe_def lock_inv_def votes_by_def)
    then have "v_BlockID w = v_BlockID v
        \<or> moved_on (net_evidence (E a) T g a) (v_Height v) (v_Round v) (v_BlockID v) (v_Round w)"
      using v' w(1) v(2) w(2) r b unfolding prevotes_follow_def block_precommit_def vote_of_def by metis
    then show "b' = b"
      using IH v(2) w(2) by (auto simp: moved_on_def vote_of_def net_evidence_def)
  qed
qed

text \<open>Two majorities of precommits of one height are for one block.\<close>

lemma one_majority:
  assumes ok: "net_ok E T state" and start: "net_start E D T cfg state store pv g0"
    and run: "(net_step E D T)\<^sup>*\<^sup>* g0 g"
    and m: "cast_by_quorum T g PrecommitType h r b" "cast_by_quorum T g PrecommitType h r' b'"
    and b: "b \<noteq> 0" "b' \<noteq> 0" and le: "r \<le> r'"
  shows "b = b'"
proof -
  have inv: "net_inv E D T g"
    using net_steps_inv [OF ok run net_start_inv(1) [OF ok start]] by blast
  obtain Q Q' where Q: "quorum T Q" "\<forall>a\<in>Q \<inter> honest T. \<exists>v\<in>set (votes_by g a). vote_of h r PrecommitType b v"
    and Q': "quorum T Q'" "\<forall>a\<in>Q' \<inter> honest T. \<exists>v\<in>set (votes_by g a). vote_of h r' PrecommitType b' v"
    using m unfolding cast_by_quorum_def by blast
  obtain a where a: "a \<in> Q" "a \<in> Q'" "a \<in> honest T" by (rule quorums_meet [OF ok Q(1) Q'(1)])
  obtain v w where v: "v \<in> set (votes_by g a)" "vote_of h r PrecommitType b v"
    and w: "w \<in> set (votes_by g a)" "vote_of h r' PrecommitType b' w"
    using Q(2) Q'(2) a by blast
  have safe: "safe (default_node (E a) (D a)) (net_evidence (E a) T g a) a (sys_cs (g a))"
    using inv a(3) by (simp add: net_inv_def)
  show ?thesis
  proof (cases "r = r'")
    case True
    have "distinct (map vote_key (votes_by g a))"
      using safe by (simp add: safe_def cs_inv_def votes_ok_def votes_by_def)
    moreover have "vote_key v = vote_key w" using True v(2) w(2) by (simp add: vote_of_def vote_key_def)
    ultimately have "v = w" using v(1) w(1) by (simp add: distinct_map inj_on_def)
    then show ?thesis using v(2) w(2) by (simp add: vote_of_def)
  next
    case False
    have "ev_polka (net_evidence (E a) T g a) h r' b'"
      using safe w b(2)
      by (auto simp: safe_def lock_inv_def precommits_hold_def votes_by_def vote_of_def block_precommit_def)
    then have "cast_by_quorum T g PrevoteType h r' b'" by (simp add: net_evidence_def)
    then show ?thesis using no_later_polka [OF ok start run rtranclp.rtrancl_refl m(1) b(1)] le False by (metis less_le)
  qed
qed

end
