(* ===== verification/Sample_Network.thy ===== *)
theory Sample_Network
  imports Network CS_Properties
begin

text \<open>
  A concrete network for the witness of agreement: two validators with the addresses 5 and 6, both
  honest and both needed for a quorum. They deliver their proposal and their votes to each other
  and both commit block 1.
\<close>

definition pair_genesis :: "validator list chain_state" where
  "pair_genesis = MakeGenesisChainState sample_ext ''test'' 1000 [5, 6] [10, 10] 100 1"

definition pair_start where
  "pair_start (a :: address) = start_node sample_node sample_config pair_genesis Map.empty (Some (NewPrivValidatorLocal [ucast a]))"

datatype delivery =
    Local address "sample_blk event"
  | Gossip_Proposal address address
  | Gossip_Vote address address nat

fun local_event :: "'blk event \<Rightarrow> bool" where
  "local_event (PeerMsg mi) = False"
| "local_event (CommittedBlock b) = False"
| "local_event _ = True"

definition net_event_at where
  "net_event_at a ev g =
     (if a \<notin> {5, 6} \<or> Height (sys_cs (g a)) + 1 = 0 then None
      else case receive_event sample_node ev (g a) of Inl p \<Rightarrow> None | Inr t \<Rightarrow> Some (g(a := t)))"

fun net_exec where
  "net_exec [] g = Some g"
| "net_exec (Local a ev # ds) g =
     (if local_event ev then case net_event_at a ev g of None \<Rightarrow> None | Some g' \<Rightarrow> net_exec ds g' else None)"
| "net_exec (Gossip_Proposal b a # ds) g =
     (case signedProposals (sys_cs (g b)) of
        p # _ \<Rightarrow> (case net_event_at a (PeerMsg \<lparr>mi_Msg = ProposalMessage p, mi_PeerID = ''peer''\<rparr>) g of
            None \<Rightarrow> None | Some g' \<Rightarrow> net_exec ds g')
      | [] \<Rightarrow> None)"
| "net_exec (Gossip_Vote b a k # ds) g =
     (case drop k (signedVotes (sys_cs (g b))) of
        v # _ \<Rightarrow> if v_ValidatorAddress v = b
          then case net_event_at a (PeerMsg \<lparr>mi_Msg = VoteMessage v, mi_PeerID = ''peer''\<rparr>) g of
            None \<Rightarrow> None | Some g' \<Rightarrow> net_exec ds g'
          else None
      | [] \<Rightarrow> None)"

definition pair_run where
  "pair_run ds =
     (case (pair_start 5, pair_start 6) of
        (Inr (None, s), Inr (None, t)) \<Rightarrow> net_exec ds ((\<lambda>_. s)(6 := t))
      | _ \<Rightarrow> None)"

definition pair_schedule :: "delivery list" where
  "pair_schedule = [Local 5 TickerTick, Local 5 TickerFire, Local 5 (Tock 0), Local 5 InternalMsg,
      Local 5 InternalMsg, Local 6 TickerTick, Local 6 TickerFire, Local 6 (Tock 0),
      Gossip_Proposal 5 6, Local 6 InternalMsg, Gossip_Vote 5 6 0, Local 6 InternalMsg,
      Gossip_Vote 6 5 0, Local 5 InternalMsg, Gossip_Vote 6 5 1, Gossip_Vote 5 6 1]"

lemma pair_committed:
  "\<exists>g. pair_run pair_schedule = Some g
    \<and> st_LastBlockHeight (chainState (sys_cs (g 5))) = 1 \<and> st_LastBlockHeight (chainState (sys_cs (g 6))) = 1
    \<and> st_LastBlockID (chainState (sys_cs (g 5))) \<noteq> 0 \<and> st_LastBlockID (chainState (sys_cs (g 6))) \<noteq> 0"
  by (simp add: pair_schedule_def pair_run_def pair_start_def pair_genesis_def net_event_at_def sample_run_defs state_machine_defs library_defs cong: eval_cong)


section \<open>The trust\<close>

definition pair_vals :: "validator list" where
  "pair_vals = [\<lparr>val_Address = 5, val_PubKey = [], val_VotingPower = 10\<rparr>,
     \<lparr>val_Address = 6, val_PubKey = [], val_VotingPower = 10\<rparr>]"

definition pair_trust :: "(validator list, sample_vs) trust" where
  "pair_trust =
     \<lparr>honest = {5, 6},
      members = {5, 6},
      voting_power = (\<lambda>a. 10),
      known_vals = (\<lambda>v. v = Some pair_vals),
      known_votes = (\<lambda>vs. \<exists>s. vs = Some s \<and> svs_vals s = pair_vals
        \<and> distinct (map (\<lambda>v. (v_ValidatorAddress v, v_Type v, v_Round v)) (svs_votes s))),
      recorded = (\<lambda>vs. case vs of None \<Rightarrow> {} | Some s \<Rightarrow> set (svs_votes s)),
      valid_vote = (\<lambda>v. True),
      valid_sig = (\<lambda>c a s. sig_ValidatorAddress s = a)\<rparr>"

lemma pair_both: "quorum pair_trust {5, 6}"
  by (simp add: quorum_def pair_trust_def)

lemma pair_powers_ok: "powers_ok pair_trust"
  by (simp add: powers_ok_def pair_trust_def)

lemma pair_power: "sample_power pair_vals a = (if a = 5 \<or> a = 6 then 10 else 0)"
  by (simp add: sample_power_def pair_vals_def)

lemma pair_total: "sample_total pair_vals = 20"
  by (simp add: sample_total_def pair_vals_def)

text \<open>Different addresses with more than two thirds of the power include both validators.\<close>

lemma pair_quorum:
  assumes "distinct as" and "3 * (\<Sum>a\<leftarrow>as. sample_power pair_vals a) > 40"
  shows "5 \<in> set as \<and> 6 \<in> set as"
proof (rule ccontr)
  assume n: "\<not> (5 \<in> set as \<and> 6 \<in> set as)"
  have "(\<Sum>a\<leftarrow>as. sample_power pair_vals a) = (\<Sum>a\<in>set as. sample_power pair_vals a)"
    using assms(1) by (rule sum_list_distinct_conv_sum_set)
  also have "\<dots> = (\<Sum>a\<in>set as \<inter> {5, 6}. 10)"
    unfolding sum.inter_restrict [OF finite_set] by (intro sum.cong) (auto simp: pair_power)
  also have "\<dots> = 10 * int (card (set as \<inter> {5, 6}))" by simp
  also have "card (set as \<inter> {5, 6}) \<le> 1"
    using n by (cases "5 \<in> set as"; cases "6 \<in> set as") (simp_all add: Int_insert_right)
  finally show False using assms(2) by simp
qed

lemma pair_majority:
  assumes m: "sample_majority (sample_round K (Some s) r) = (b, True)" and v: "svs_vals s = pair_vals"
    and d: "distinct (map (\<lambda>v. (v_ValidatorAddress v, v_Type v, v_Round v)) (svs_votes s))"
    and a: "a \<in> {5, 6}"
  shows "\<exists>v\<in>set (svs_votes s). v_ValidatorAddress v = a \<and> v_Round v = r \<and> v_Type v = K \<and> v_BlockID v = b"
proof -
  let ?vs = "filter (\<lambda>v. v_Type v = K \<and> v_Round v = r) (svs_votes s)"
  let ?as = "map v_ValidatorAddress (filter (\<lambda>v. v_BlockID v = b) ?vs)"
  let ?s = "s\<lparr>svs_votes := ?vs\<rparr>"
  have "b \<in> set (filter (\<lambda>h. 3 * sample_tally ?s h > 2 * sample_total (svs_vals ?s)) (map v_BlockID (svs_votes ?s)))"
    using m by (auto simp only: sample_majority_def sample_round_def option.map option.case prod.inject
        list.set split: list.splits if_splits)
  then have "3 * (\<Sum>v\<leftarrow>?vs. if v_BlockID v = b then sample_power pair_vals (v_ValidatorAddress v) else 0) > 40"
    using v by (simp add: sample_tally_def pair_total cong: if_cong)
  then have "3 * (\<Sum>a\<leftarrow>?as. sample_power pair_vals a) > 40"
    by (simp add: sum_list_map_filter' comp_def if_conn cong: if_cong)
  moreover have "distinct ?as"
    using d by (auto simp: distinct_map inj_on_def)
  ultimately have "a \<in> set ?as" using pair_quorum a by blast
  then show ?thesis by auto
qed

lemma pair_package: "package_ok sample_ext pair_trust"
  unfolding package_ok_def
proof (intro conjI)
  show "hash_to_ok sample_ext" by (auto simp: hash_to_ok_def sample_ext_def split: option.splits)
  show "majorities_ok sample_ext pair_trust PrevoteType (hvs_Prevotes sample_ext)"
    "majorities_ok sample_ext pair_trust PrecommitType (hvs_Precommits sample_ext)"
    unfolding majorities_ok_def using pair_majority pair_both
    by (auto simp: pair_trust_def sample_ext_def intro!: exI [of _ "{5, 6}"])
  show "recording_ok sample_ext pair_trust"
    unfolding recording_ok_def
    by (intro conjI allI impI; simp add: pair_trust_def sample_ext_def sample_add_def sample_vals_def;
        elim exE conjE; fastforce split: if_splits)
  show "validators_ok sample_ext pair_trust"
    unfolding validators_ok_def
  proof (intro conjI allI impI)
    fix vals ch b h co
    assume k: "known_vals pair_trust vals" and v: "vals_VerifyCommit sample_ext vals ch b h co = None"
    obtain c where c: "co = Some c" "c_BlockID c = b" "c_Height c = h"
      "3 * (\<Sum>a\<leftarrow>remdups (map sig_ValidatorAddress (c_Signatures c)). sample_power pair_vals a) > 40"
      using k v by (auto simp: pair_trust_def sample_ext_def sample_verify_def sample_vals_def pair_total
          split: option.splits if_splits)
    have "5 \<in> set (map sig_ValidatorAddress (c_Signatures c)) \<and> 6 \<in> set (map sig_ValidatorAddress (c_Signatures c))"
      using pair_quorum [OF _ c(4)] by simp
    then show "\<exists>c Q. co = Some c \<and> c_Height c = h \<and> c_BlockID c = b \<and> quorum pair_trust Q
        \<and> (\<forall>a\<in>Q. \<exists>s\<in>set (c_Signatures c). valid_sig pair_trust c a s)"
      using c pair_both by (auto simp: pair_trust_def intro!: exI [of _ "{5, 6}"])
  qed (simp_all add: pair_trust_def sample_ext_def)
qed

lemma pair_net_ok: "net_ok (\<lambda>_. sample_ext) pair_trust pair_genesis"
  unfolding net_ok_def
proof (intro conjI)
  show "powers_ok pair_trust" by (rule pair_powers_ok)
  show "\<forall>a\<in>honest pair_trust. package_ok sample_ext pair_trust \<and> new_proposal_ok sample_ext"
    using pair_package sample_hypotheses by blast
qed (simp_all add: startable_def pair_genesis_def MakeGenesisChainState_def pair_trust_def pair_vals_def
      sample_ext_def)

section \<open>The run is a run of the network\<close>

abbreviation pair_step where
  "pair_step \<equiv> net_step (\<lambda>_. sample_ext) (\<lambda>_. sample_block_db) pair_trust"

lemma net_event_at_step:
  assumes "net_event_at a ev g = Some g'"
    and "event_genuine (net_evidence sample_ext pair_trust g a) ev"
  shows "pair_step g g'"
  using assms net_event [of a pair_trust g "\<lambda>_. sample_ext" ev "\<lambda>_. sample_block_db"]
  by (auto simp: net_event_at_def pair_trust_def sample_node_def split: if_splits sum.splits)

lemma vote_genuine:
  assumes "drop k (signedVotes (sys_cs (g b))) = v # vs" and "v_ValidatorAddress v = b"
  shows "event_genuine (net_evidence sample_ext pair_trust g a) (PeerMsg \<lparr>mi_Msg = VoteMessage v, mi_PeerID = p\<rparr>)"
proof -
  have "v \<in> set (votes_by g b)"
    using assms(1) by (metis in_set_dropD list.set_intros(1) votes_by_def)
  then show ?thesis using assms(2) by (auto simp: net_evidence_def authentic_def vote_of_def)
qed

lemma local_genuine: "local_event ev \<Longrightarrow> event_genuine A ev"
  by (cases ev) simp_all

lemma net_exec_steps: "net_exec ds g = Some g' \<Longrightarrow> pair_step\<^sup>*\<^sup>* g g'"
proof (induction ds g rule: net_exec.induct)
  case (2 a ev ds g)
  then obtain u where "local_event ev" "net_event_at a ev g = Some u" "net_exec ds u = Some g'"
    by (auto split: if_splits option.splits)
  then show ?case
    using 2 net_event_at_step [OF _ local_genuine] by (meson converse_rtranclp_into_rtranclp)
next
  case (3 b a ds g)
  then obtain p ps u where s: "signedProposals (sys_cs (g b)) = p # ps" "net_exec ds u = Some g'"
    "net_event_at a (PeerMsg \<lparr>mi_Msg = ProposalMessage p, mi_PeerID = ''peer''\<rparr>) g = Some u"
    by (auto split: list.splits option.splits)
  have "pair_step g u" by (rule net_event_at_step [OF s(3)]) simp
  then show ?case using 3(1) [OF s(1,3,2)] by (rule converse_rtranclp_into_rtranclp)
next
  case (4 b a k ds g)
  then obtain v vs u where s: "drop k (signedVotes (sys_cs (g b))) = v # vs" "v_ValidatorAddress v = b"
    "net_exec ds u = Some g'"
    "net_event_at a (PeerMsg \<lparr>mi_Msg = VoteMessage v, mi_PeerID = ''peer''\<rparr>) g = Some u"
    by (auto split: list.splits option.splits if_splits)
  have "pair_step g u" using net_event_at_step [OF s(4)] vote_genuine [of k g b v vs a] s(1,2) by blast
  then show ?case using 4(1) [OF s(1,2,4,3)] by (rule converse_rtranclp_into_rtranclp)
qed simp

lemma pair_run_steps:
  assumes "pair_run ds = Some g"
  shows "\<exists>g0. net_start (\<lambda>_. sample_ext) (\<lambda>_. sample_block_db) pair_trust (\<lambda>_. sample_config) pair_genesis
      (\<lambda>_. Map.empty) (\<lambda>a. Some (NewPrivValidatorLocal [ucast a])) g0 \<and> pair_step\<^sup>*\<^sup>* g0 g"
proof -
  obtain s t where s: "pair_start 5 = Inr (None, s)" "pair_start 6 = Inr (None, t)"
    and run: "net_exec ds ((\<lambda>_. s)(6 := t)) = Some g"
    using assms by (auto simp: pair_run_def split: sum.splits prod.splits option.splits)
  have "net_start (\<lambda>_. sample_ext) (\<lambda>_. sample_block_db) pair_trust (\<lambda>_. sample_config) pair_genesis
      (\<lambda>_. Map.empty) (\<lambda>a. Some (NewPrivValidatorLocal [ucast a])) ((\<lambda>_. s)(6 := t))"
    using s by (auto simp: net_start_def pair_trust_def pair_start_def sample_node_def
        PrivValidatorLocal_Address_def NewPrivValidatorLocal_def sample_ext_def)
  then show ?thesis using net_exec_steps [OF run] by blast
qed

end
