(* ===== verification/Agreement.thy ===== *)
theory Agreement
  imports Sample_Network
begin

text \<open>
  Agreement: no two honest nodes of a network ever commit different blocks at the same height. The
  network and its invariant are in \<open>Network\<close>, the network of the witness in \<open>Sample_Network\<close>.
\<close>

text \<open>C1. Agreement. In a network whose honest nodes start from the same genesis state, wired as
  \<open>runNode\<close> wires them, no two honest nodes ever commit different blocks at one height: if \<open>i\<close> has
  committed a block as the last of its chain at some point of a run, and \<open>j\<close> one of the same height
  at that or a later point, the two have the same hash. Messages may be lost, delayed, repeated and
  reordered, timeouts fire at any time, nodes may also catch up through committed blocks, and the
  validators that are not honest, which hold less than a third of the voting power, may send anything
  that is not a forged vote of an honest one. The hypotheses on the package are those of \<open>net_ok\<close>;
  the zero hash is the vote for no block.\<close>

theorem agreement:
  assumes "net_ok E T state" and "net_start E D T cfg state store pv g0"
    and "(net_step E D T)\<^sup>*\<^sup>* g0 g1" and "(net_step E D T)\<^sup>*\<^sup>* g1 g2"
    and "i \<in> honest T" and "j \<in> honest T"
    and "st_LastBlockHeight (chainState (sys_cs (g1 i))) = st_LastBlockHeight (chainState (sys_cs (g2 j)))"
    and "st_LastBlockHeight (chainState (sys_cs (g1 i))) \<noteq> 0"
    and "st_LastBlockID (chainState (sys_cs (g1 i))) \<noteq> 0" and "st_LastBlockID (chainState (sys_cs (g2 j))) \<noteq> 0"
  shows "st_LastBlockID (chainState (sys_cs (g1 i))) = st_LastBlockID (chainState (sys_cs (g2 j)))"
proof -
  let ?i = "chainState (sys_cs (g1 i))" and ?j = "chainState (sys_cs (g2 j))"
  note start = net_start_inv(1) [OF assms(1,2)]
  have run: "(net_step E D T)\<^sup>*\<^sup>* g0 g2" using assms(3,4) by (rule rtranclp_trans)
  have inv: "net_inv E D T g1" "net_inv E D T g2" "grows T g1 g2"
    using net_steps_inv [OF assms(1) assms(3) start] net_steps_inv [OF assms(1) assms(4)] by blast+
  obtain r where r: "cast_by_quorum T g1 PrecommitType (st_LastBlockHeight ?i) r (st_LastBlockID ?i)"
    using inv(1) assms(5,8)
    by (auto simp: net_inv_def safe_def lock_inv_def decided_def net_evidence_def)
  obtain r' where r': "cast_by_quorum T g2 PrecommitType (st_LastBlockHeight ?i) r' (st_LastBlockID ?j)"
    using inv(2) assms(6,7,8)
    by (auto simp: net_inv_def safe_def lock_inv_def decided_def net_evidence_def)
  show ?thesis
    using one_majority [OF assms(1,2) run] cast_mono [OF inv(3) r] r' assms(9,10) by (metis linear)
qed

theorem agreement_witness:
  "\<exists>g0 g. net_start (\<lambda>_. sample_ext) (\<lambda>_. sample_block_db) pair_trust (\<lambda>_. sample_config) pair_genesis
        (\<lambda>_. Map.empty) (\<lambda>a. Some (NewPrivValidatorLocal [ucast a])) g0
     \<and> pair_step\<^sup>*\<^sup>* g0 g
     \<and> st_LastBlockHeight (chainState (sys_cs (g 5))) = 1
     \<and> st_LastBlockHeight (chainState (sys_cs (g 6))) = 1
     \<and> st_LastBlockID (chainState (sys_cs (g 5))) = st_LastBlockID (chainState (sys_cs (g 6)))"
  using pair_committed
proof (elim exE conjE)
  fix g
  assume run: "pair_run pair_schedule = Some g"
    and h: "st_LastBlockHeight (chainState (sys_cs (g 5))) = 1"
      "st_LastBlockHeight (chainState (sys_cs (g 6))) = 1"
    and b: "st_LastBlockID (chainState (sys_cs (g 5))) \<noteq> 0" "st_LastBlockID (chainState (sys_cs (g 6))) \<noteq> 0"
  from pair_run_steps [OF run] obtain g0 where
    start: "net_start (\<lambda>_. sample_ext) (\<lambda>_. sample_block_db) pair_trust (\<lambda>_. sample_config) pair_genesis
      (\<lambda>_. Map.empty) (\<lambda>a. Some (NewPrivValidatorLocal [ucast a])) g0" and steps: "pair_step\<^sup>*\<^sup>* g0 g"
    by blast
  have "5 \<in> honest pair_trust" "6 \<in> honest pair_trust" by (simp_all add: pair_trust_def)
  then have "st_LastBlockID (chainState (sys_cs (g 5))) = st_LastBlockID (chainState (sys_cs (g 6)))"
    using agreement [OF pair_net_ok start steps rtranclp.rtrancl_refl, of 5 6] h b by simp
  then show ?thesis using start steps h by blast
qed

section \<open>The network refines an append-only ledger\<close>

text \<open>The specification: a ledger maps heights to the hashes of the blocks that were agreed on, and
  a step may only add entries. A network stands for the ledger of its majorities of precommits.\<close>

type_synonym ledger = "u64 \<rightharpoonup> hash"

definition ledger_step :: "ledger \<Rightarrow> ledger \<Rightarrow> bool" where
  "ledger_step L L' \<longleftrightarrow> L \<subseteq>\<^sub>m L'"

definition ledger_of ::
  "('val, 'hvs) trust \<Rightarrow> ('val, 'vs, 'hvs, 'blk, 'db) network \<Rightarrow> ledger \<Rightarrow> bool" where
  "ledger_of T g L \<longleftrightarrow>
     (\<forall>h b. L h = Some b \<longleftrightarrow> b \<noteq> 0 \<and> (\<exists>r. cast_by_quorum T g PrecommitType h r b))"

text \<open>The block that a node has committed last is in the ledger.\<close>

definition follows_ledger :: "ledger \<Rightarrow> ('val, 'vs, 'hvs, 'blk, 'bs, 'pv) system \<Rightarrow> bool" where
  "follows_ledger L s \<longleftrightarrow> (let st = chainState (sys_cs s) in
     st_LastBlockHeight st = 0 \<or> st_LastBlockID st = 0
     \<or> L (st_LastBlockHeight st) = Some (st_LastBlockID st))"

lemma ledger_exists:
  assumes "net_ok E T state" and "net_start E D T cfg state store pv g0"
    and "(net_step E D T)\<^sup>*\<^sup>* g0 g"
  shows "\<exists>L. ledger_of T g L"
proof -
  have one: "b = b'" if "b \<noteq> 0" "b' \<noteq> 0" "cast_by_quorum T g PrecommitType h r b"
    "cast_by_quorum T g PrecommitType h r' b'" for h r b r' b'
    using one_majority [OF assms that(3,4,1,2)] one_majority [OF assms that(4,3,2,1)] by (metis linear)
  have "\<forall>h. \<exists>o'. \<forall>b. o' = Some b \<longleftrightarrow> b \<noteq> 0 \<and> (\<exists>r. cast_by_quorum T g PrecommitType h r b)"
  proof
    fix h
    show "\<exists>o'. \<forall>b. o' = Some b \<longleftrightarrow> b \<noteq> 0 \<and> (\<exists>r. cast_by_quorum T g PrecommitType h r b)"
    proof (cases "\<exists>r b. b \<noteq> 0 \<and> cast_by_quorum T g PrecommitType h r b")
      case True
      then obtain r b where "b \<noteq> 0" "cast_by_quorum T g PrecommitType h r b" by blast
      then show ?thesis using one by (intro exI [of _ "Some b"]) blast
    next
      case False
      then show ?thesis by (intro exI [of _ None]) auto
    qed
  qed
  then obtain L where "\<forall>h b. L h = Some b \<longleftrightarrow> b \<noteq> 0 \<and> (\<exists>r. cast_by_quorum T g PrecommitType h r b)"
    by metis
  then show ?thesis unfolding ledger_of_def by blast
qed

lemma ledger_grows: "grows T g g' \<Longrightarrow> ledger_of T g L \<Longrightarrow> ledger_of T g' L' \<Longrightarrow> ledger_step L L'"
  unfolding ledger_step_def map_le_def
proof (intro ballI)
  fix h assume g: "grows T g g'" "ledger_of T g L" "ledger_of T g' L'" and d: "h \<in> dom L"
  then obtain b where b: "L h = Some b" by blast
  then obtain r where "b \<noteq> 0" "cast_by_quorum T g PrecommitType h r b" using g(2) by (auto simp: ledger_of_def)
  then show "L h = L' h" using b g(3) cast_mono [OF g(1)] unfolding ledger_of_def by metis
qed

lemma ledger_followed:
  assumes "net_inv E D T g" and "ledger_of T g L" and "a \<in> honest T"
  shows "follows_ledger L (g a)"
  using assms
  by (auto simp: net_inv_def safe_def lock_inv_def decided_def net_evidence_def follows_ledger_def
      ledger_of_def Let_def)

text \<open>C2. Refinement. A network refines an append-only ledger: at its start it stands for a ledger,
  whatever step it makes the ledger it stands for only gains entries, and every honest node has the
  block of the ledger as the last of its chain.\<close>

theorem network_refines_ledger:
  assumes "net_ok E T state" and "net_start E D T cfg state store pv g0"
    and "(net_step E D T)\<^sup>*\<^sup>* g0 g"
  shows "\<exists>L. ledger_of T g L \<and> (\<forall>a\<in>honest T. follows_ledger L (g a))
    \<and> (\<forall>g'. net_step E D T g g' \<longrightarrow> (\<exists>L'. ledger_of T g' L' \<and> ledger_step L L'
         \<and> (\<forall>a\<in>honest T. follows_ledger L' (g' a))))"
proof -
  have inv: "net_inv E D T g" using net_steps_inv [OF assms(1,3) net_start_inv(1) [OF assms(1,2)]] by blast
  obtain L where L: "ledger_of T g L" using ledger_exists [OF assms] by blast
  have "\<exists>L'. ledger_of T g' L' \<and> ledger_step L L' \<and> (\<forall>a\<in>honest T. follows_ledger L' (g' a))"
    if st: "net_step E D T g g'" for g'
  proof -
    have "(net_step E D T)\<^sup>*\<^sup>* g0 g'"
      using assms(3) st by (meson rtranclp.rtrancl_into_rtrancl)
    then obtain L' where "ledger_of T g' L'" using ledger_exists [OF assms(1,2)] by blast
    then show ?thesis
      using net_step_inv(1,2) [OF assms(1) inv st] L ledger_grows ledger_followed by blast
  qed
  then show ?thesis using L ledger_followed [OF inv L] by blast
qed

theorem network_refines_ledger_witness:
  "\<exists>g0 g L. net_start (\<lambda>_. sample_ext) (\<lambda>_. sample_block_db) pair_trust (\<lambda>_. sample_config) pair_genesis
        (\<lambda>_. Map.empty) (\<lambda>a. Some (NewPrivValidatorLocal [ucast a])) g0
     \<and> pair_step\<^sup>*\<^sup>* g0 g \<and> ledger_of pair_trust g L
     \<and> L 1 = Some (st_LastBlockID (chainState (sys_cs (g 5))))
     \<and> L 1 = Some (st_LastBlockID (chainState (sys_cs (g 6))))"
  using pair_committed
proof (elim exE conjE)
  fix g
  assume run: "pair_run pair_schedule = Some g"
    and h: "st_LastBlockHeight (chainState (sys_cs (g 5))) = 1"
      "st_LastBlockHeight (chainState (sys_cs (g 6))) = 1"
    and b: "st_LastBlockID (chainState (sys_cs (g 5))) \<noteq> 0" "st_LastBlockID (chainState (sys_cs (g 6))) \<noteq> 0"
  from pair_run_steps [OF run] obtain g0 where
    start: "net_start (\<lambda>_. sample_ext) (\<lambda>_. sample_block_db) pair_trust (\<lambda>_. sample_config) pair_genesis
      (\<lambda>_. Map.empty) (\<lambda>a. Some (NewPrivValidatorLocal [ucast a])) g0" and steps: "pair_step\<^sup>*\<^sup>* g0 g"
    by blast
  obtain L where "ledger_of pair_trust g L" "\<forall>a\<in>honest pair_trust. follows_ledger L (g a)"
    using network_refines_ledger [OF pair_net_ok start steps] by blast
  then have "ledger_of pair_trust g L \<and> L 1 = Some (st_LastBlockID (chainState (sys_cs (g 5))))
      \<and> L 1 = Some (st_LastBlockID (chainState (sys_cs (g 6))))"
    using h b by (auto simp: follows_ledger_def pair_trust_def Let_def)
  then show ?thesis using start steps by blast
qed

end
