(* ===== verification/Node_Start.thy ===== *)
theory Node_Start
  imports Block_Sync_Progress
begin

text \<open>
  The start of a node: \<open>runNode\<close> and \<open>getOrCreateNodeKey\<close> of \<open>cmd/main/node.go\<close>, and the key files of
  \<open>cmd/main/keygen.go\<close>. The file system and the key libraries are the record \<open>os\<close>; the state of the
  file system is passed along. Logging, contexts and the command line parser are left out: the
  flags come as the record \<open>flags\<close>. \<open>runKeygen\<close> and the command line are in \<open>Command_Line\<close>.
\<close>

section \<open>Key files\<close>

datatype file_error = NotExist | FileError go_error

record ('fs, 'key, 'db) os =
  ReadFile :: "string \<Rightarrow> 'fs \<Rightarrow> file_error + bytes"
  WriteFile :: "string \<Rightarrow> bytes \<Rightarrow> 'fs \<Rightarrow> go_error option \<times> 'fs"
  Stat :: "string \<Rightarrow> 'fs \<Rightarrow> file_error option"
  OpenDB :: "string \<Rightarrow> 'fs \<Rightarrow> go_error + 'db"
  GenerateKeyPair :: "go_error + 'key"
  MarshalPrivateKey :: "'key \<Rightarrow> go_error + bytes"
  UnmarshalPrivateKey :: "bytes \<Rightarrow> go_error + 'key"
  IDFromPrivateKey :: "'key \<Rightarrow> go_error + peer_id"
  GenerateKey :: "go_error + bytes"
  ToECDSA :: "bytes \<Rightarrow> go_error + bytes"
  FromECDSA :: "bytes \<Rightarrow> bytes"

text \<open>The key of the p2p host: read from its file, or made and written there. A key that cannot be
  made, or whose peer id cannot be derived, is a panic.\<close>

definition getOrCreateNodeKey ::
  "('fs, 'key, 'db) os \<Rightarrow> string \<Rightarrow> 'fs \<Rightarrow> ((go_error + 'key) \<times> 'fs) res" where
  "getOrCreateNodeKey F path fs =
     (case ReadFile F path fs of
        Inl NotExist \<Rightarrow>
          (case GenerateKeyPair F of
             Inl err \<Rightarrow> Inl NodeKeyFailed
           | Inr priv \<Rightarrow>
               (case MarshalPrivateKey F priv of
                  Inl err \<Rightarrow> Inl NodeKeyFailed
                | Inr s \<Rightarrow>
                    (case WriteFile F path s fs of
                       (Some err, fs) \<Rightarrow> Inr (Inl (OtherError ''failed to write node key''), fs)
                     | (None, fs) \<Rightarrow> Inr (Inr priv, fs))))
      | Inl (FileError err) \<Rightarrow> Inr (Inl (OtherError ''failed to read node key''), fs)
      | Inr b \<Rightarrow>
          (case UnmarshalPrivateKey F b of
             Inl err \<Rightarrow> Inr (Inl (OtherError ''failed to unmarshal node key''), fs)
           | Inr priv \<Rightarrow>
               (case IDFromPrivateKey F priv of
                  Inl err \<Rightarrow> Inl NodeKeyFailed
                | Inr peerID \<Rightarrow> Inr (Inr priv, fs))))"

definition loadValidatorKey :: "('fs, 'key, 'db) os \<Rightarrow> string \<Rightarrow> 'fs \<Rightarrow> go_error + bytes" where
  "loadValidatorKey F filename fs =
     (case ReadFile F filename fs of
        Inl err \<Rightarrow> Inl (OtherError ''failed to open file'')
      | Inr b \<Rightarrow>
          (case ToECDSA F b of
             Inl err \<Rightarrow> Inl (OtherError ''failed to deserialize raw key data'')
           | Inr gk \<Rightarrow> Inr gk))"

text \<open>\<open>os.IsNotExist(nil)\<close> is false: a file that is there is refused, and so is one that cannot be
  looked up.\<close>

definition writeValidatorKey ::
  "('fs, 'key, 'db) os \<Rightarrow> bytes \<Rightarrow> string \<Rightarrow> 'fs \<Rightarrow> go_error option \<times> 'fs" where
  "writeValidatorKey F key filename fs =
     (if Stat F filename fs \<noteq> Some NotExist
      then (Some (OtherError ''refusing to override existing key''), fs)
      else
        case WriteFile F filename (FromECDSA F key) fs of
          (Some err, fs) \<Rightarrow> (Some (OtherError ''failed to write file''), fs)
        | (None, fs) \<Rightarrow> (None, fs))"

definition GeneratePrivValidatorLocal :: "('fs, 'key, 'db) os \<Rightarrow> priv_validator_local res" where
  "GeneratePrivValidatorLocal F =
     (case GenerateKey F of
        Inl err \<Rightarrow> Inl KeyGenerationFailed
      | Inr pk \<Rightarrow> Inr \<lparr>PrivKey = pk\<rparr>)"

section \<open>Flags\<close>

record flags =
  p2pNetworkID :: string
  p2pPort :: nat
  nodeName :: string
  verbosity :: int
  nodeKeyPath :: string
  valKeyPath :: string
  datadir :: string
  validatorSet :: "string list"
  genesisTimeMs :: u64
  skipBlockSync :: bool
  powerStr :: string
  timeoutCommitMs :: u64
  consensusSyncMs :: u64
  proposerRepetition :: u64
  p2pBootstrap :: string

text \<open>The values of the flags that are not given on the command line.\<close>

definition NodeCmd_flags :: flags where
  "NodeCmd_flags =
     \<lparr>p2pNetworkID = ''/mpbft/dev'', p2pPort = 8999, nodeName = [], verbosity = 3,
      nodeKeyPath = [], valKeyPath = [], datadir = ''./datadir'', validatorSet = [],
      genesisTimeMs = 0, skipBlockSync = False, powerStr = [],
      timeoutCommitMs = 5000, consensusSyncMs = 500, proposerRepetition = 8, p2pBootstrap = []\<rparr>"

datatype exit_reason =
    NodeKeyUnavailable
  | NodeKeyPathEmpty
  | GenesisTimeMissing
  | ValidatorKeyUnavailable
  | InvalidPowerString
  | NotInValidatorSet
  | DatabaseUnavailable
  | BlockSyncFailed go_error

text \<open>The private validator and its public key, when the node is a validator.\<close>

definition loadValidator ::
  "('val, 'vs, 'hvs, 'blk) ext \<Rightarrow> ('fs, 'key, 'db) os \<Rightarrow> string \<Rightarrow> 'fs
     \<Rightarrow> exit_reason + (priv_validator_local \<times> pubkey) option" where
  "loadValidator E F path fs =
     (if path = [] then Inr None
      else
        case loadValidatorKey F path fs of
          Inl err \<Rightarrow> Inl ValidatorKeyUnavailable
        | Inr valKey \<Rightarrow>
            let privVal = NewPrivValidatorLocal valKey in
            (case PrivValidatorLocal_GetPubKey E privVal of
               Inl err \<Rightarrow> Inl ValidatorKeyUnavailable
             | Inr pubVal \<Rightarrow> Inr (Some (privVal, pubVal))))"

fun parse_powers :: "string list \<Rightarrow> exit_reason + int list" where
  "parse_powers [] = Inr []"
| "parse_powers (s # ss) =
     (case Atoi s of
        None \<Rightarrow> Inl InvalidPowerString
      | Some p \<Rightarrow> andThen (parse_powers ss) (\<lambda>ps. Inr (p # ps)))"

definition validatorPowers :: "nat \<Rightarrow> string \<Rightarrow> exit_reason + int list" where
  "validatorPowers n pows =
     (if pows = [] then Inr (replicate n 1)
      else
        let ss = Split CHR '','' pows in
        if length ss \<noteq> n then Inl InvalidPowerString else parse_powers ss)"

text \<open>The validators and their powers; a validator node must be among them. \<open>hex\<close> is
  \<open>common.HexToAddress\<close>.\<close>

definition parse_validators ::
  "(string \<Rightarrow> address) \<Rightarrow> pubkey option \<Rightarrow> string list \<Rightarrow> string \<Rightarrow> exit_reason + address list \<times> int list" where
  "parse_validators hex pubVal addrs pows =
     (let vals = map hex addrs;
          found = (\<exists>addr\<in>set vals. \<exists>k. pubVal = Some k \<and> addr = pubkey_Address k)
      in
      andThen (validatorPowers (length vals) pows) (\<lambda>powers.
        if pubVal \<noteq> None \<and> \<not> found then Inl NotInValidatorSet
        else Inr (vals, powers)))"

text \<open>\<open>time.Duration(ms) * time.Millisecond\<close>.\<close>

definition millis :: "u64 \<Rightarrow> duration" where
  "millis ms = i64 (i64_of_u64 ms * 1000000)"

section \<open>The node\<close>

text \<open>What of the network the start depends on: whether the p2p server starts, and what the peers
  answer to block sync. \<open>DefaultConfig\<close> is \<open>params.NewDefaultConsesusConfig()\<close>, \<open>rounds\<close> bounds the
  rounds of greetings.\<close>

record ('blk, 'ma, 'pi) environment =
  HexToAddress :: "string \<Rightarrow> address"
  DefaultConfig :: config
  Libp2p :: "('ma, 'pi) libp2p"
  NewHost :: "go_error + peer_id"
  sync_peers :: "peer_id list"
  sync_greetings :: "nat \<Rightarrow> peer_id \<Rightarrow> u64 option"
  sync_blocks :: "nat \<Rightarrow> peer_id \<Rightarrow> u64 \<Rightarrow> go_error + 'blk"
  rounds :: nat

datatype 'sys outcome =
    Exited exit_reason
  | Syncing
  | Running "go_error option" 'sys

text \<open>Block sync, unless the node is the only validator or is told to skip it: \<open>None\<close> when the sync
  has not ended.\<close>

definition startState ::
  "('val, 'vs, 'hvs, 'blk) ext \<Rightarrow> ('db, 'blk) db_ext \<Rightarrow> ('blk, 'ma, 'pi) environment \<Rightarrow> flags
     \<Rightarrow> address list \<Rightarrow> pubkey option \<Rightarrow> 'val chain_state \<Rightarrow> 'db
     \<Rightarrow> (go_error option \<times> 'val chain_state \<times> 'db) res option" where
  "startState E D V flags vals pubVal gcs db =
     (if (\<exists>k. pubVal = Some k \<and> vals = [pubkey_Address k]) then Some (Inr (None, gcs, db))
      else if skipBlockSync flags then Some (Inr (None, gcs, db))
      else
        map_option (\<lambda>r. andThen r (\<lambda>(err, bs). Inr (err, LastChainState bs, bsync_blockStore bs)))
          (BlockSync_runRoutine (default_node E D) (sync_greetings V) (sync_blocks V) (sync_peers V) (rounds V)
             (NewBlockSync gcs db)))"

text \<open>The rest of \<open>runNode\<close>, once the validators are known. The result of \<open>NewP2PServer\<close> is used without
  a look at its error: a server that could not be made is \<open>nil\<close>, and its \<open>Run\<close> dereferences it.\<close>

definition runValidators ::
  "('val, 'vs, 'hvs, 'blk) ext \<Rightarrow> ('db, 'blk) db_ext \<Rightarrow> ('fs, 'key, 'db) os
     \<Rightarrow> ('blk, 'ma, 'pi) environment \<Rightarrow> flags \<Rightarrow> (priv_validator_local \<times> pubkey) option
     \<Rightarrow> address list \<Rightarrow> int list \<Rightarrow> 'fs
     \<Rightarrow> ('val, 'vs, 'hvs, 'blk, 'db, priv_validator_local) system outcome res" where
  "runValidators E D F V flags val vals powers fs =
     (let gcs = MakeGenesisChainState E ''test'' (genesisTimeMs flags) vals powers 128
            (i64_of_u64 (proposerRepetition flags))
      in
      case OpenDB F (datadir flags) fs of
        Inl err \<Rightarrow> Inr (Exited DatabaseUnavailable)
      | Inr db \<Rightarrow>
          (case NewP2PServer (Libp2p V) False (NewHost V) (p2pBootstrap flags) of
             Some err \<Rightarrow> Inl NilDereference
           | None \<Rightarrow>
               (case startState E D V flags vals (map_option snd val) gcs db of
                  None \<Rightarrow> Inr Syncing
                | Some r \<Rightarrow>
                    andThen r (\<lambda>(err, gcs, db).
                      case err of
                        Some err \<Rightarrow> Inr (Exited (BlockSyncFailed err))
                      | None \<Rightarrow>
                          let p = (DefaultConfig V)\<lparr>TimeoutCommit := millis (timeoutCommitMs flags),
                                ConsensusSyncRequestDuration := millis (consensusSyncMs flags)\<rparr>
                          in
                          andThen (start_node (default_node E D) p gcs db (map_option fst val))
                            (\<lambda>(err, sys). Inr (Running err sys))))))"

definition runNode ::
  "('val, 'vs, 'hvs, 'blk) ext \<Rightarrow> ('db, 'blk) db_ext \<Rightarrow> ('fs, 'key, 'db) os
     \<Rightarrow> ('blk, 'ma, 'pi) environment \<Rightarrow> flags \<Rightarrow> 'fs
     \<Rightarrow> ('val, 'vs, 'hvs, 'blk, 'db, priv_validator_local) system outcome res" where
  "runNode E D F V flags fs =
     andThen (getOrCreateNodeKey F (nodeKeyPath flags) fs) (\<lambda>(p2pPriv, fs).
       if \<exists>err. p2pPriv = Inl err then Inr (Exited NodeKeyUnavailable)
       else if nodeKeyPath flags = [] then Inr (Exited NodeKeyPathEmpty)
       else if genesisTimeMs flags = 0 then Inr (Exited GenesisTimeMissing)
       else
         case loadValidator E F (valKeyPath flags) fs of
           Inl r \<Rightarrow> Inr (Exited r)
         | Inr val \<Rightarrow>
             (case parse_validators (HexToAddress V) (map_option snd val) (validatorSet flags)
                 (powerStr flags) of
                Inl r \<Rightarrow> Inr (Exited r)
              | Inr (vals, powers) \<Rightarrow> runValidators E D F V flags val vals powers fs))"

section \<open>What the start establishes\<close>

lemma parse_powers_length: "parse_powers ss = Inr ps \<Longrightarrow> length ps = length ss"
  by (induction ss arbitrary: ps) (auto simp: andThen_eq_Inr split: option.splits)

lemma parse_powers_range: "parse_powers ss = Inr ps \<Longrightarrow> list_all is_i64 ps"
  by (induction ss arbitrary: ps)
    (auto simp: andThen_eq_Inr Atoi_def Let_def split: option.splits if_splits)

lemma parse_powers_Itoa: "list_all is_i64 ps \<Longrightarrow> parse_powers (map Itoa ps) = Inr ps"
  by (induction ps) (simp_all add: Atoi_Itoa)

lemma validatorPowers_shape:
  "validatorPowers n s = Inr ps \<Longrightarrow> length ps = n \<and> list_all is_i64 ps"
  using parse_powers_length parse_powers_range
  by (auto simp: validatorPowers_def Let_def list_all_iff is_i64_def split: if_splits)

lemma parse_validators_shape:
  assumes "parse_validators hex pubVal addrs s = Inr (vals, powers)"
  shows "vals = map hex addrs \<and> length powers = length vals \<and> list_all is_i64 powers
    \<and> (\<forall>k. pubVal = Some k \<longrightarrow> pubkey_Address k \<in> set vals)"
  using assms validatorPowers_shape [of "length addrs" s powers]
  by (auto simp: parse_validators_def Let_def andThen_eq_Inr split: if_splits) (metis imageI)

text \<open>One chain state follows another by a block that was fetched, passed validation and carried a
  commit that verifies.\<close>

definition fetched_step ::
  "('val, 'vs, 'hvs, 'blk) ext \<Rightarrow> 'val chain_state \<Rightarrow> 'val chain_state \<Rightarrow> bool" where
  "fetched_step E st st' \<longleftrightarrow> (\<exists>vb. validateBlock E st vb = Inr None
     \<and> vals_VerifyCommit E (st_Validators st) (st_ChainID st) (blk_Hash E vb) (blk_NumberU64 E vb)
         (blk_HeaderCommit E vb) = None
     \<and> DefaultBlockExecutor_ApplyBlock E st vb = Inr (Inr st'))"

lemma synced_fetched: "synced (default_node E D) = fetched_step E"
  by (auto simp: fun_eq_iff synced.simps fetched_step_def)

lemma startState_fetched:
  assumes "startState E D V flags vals pubVal gcs db = Some (Inr (err, st, db'))"
  shows "(fetched_step E)\<^sup>*\<^sup>* gcs st"
proof -
  consider "st = gcs" | bs where "block_sync_sync (default_node E D) (sync_greetings V) (sync_blocks V)
      (sync_peers V) (rounds V) 0 (0, []) \<lparr>bsync_blockStore = db, bsync_chainState = gcs\<rparr>
      = Some (Inr (err, bs))" "st = LastChainState bs"
    using assms
    by (auto simp: startState_def BlockSync_runRoutine_def NewBlockSync_def andThen_eq_Inr split: if_splits)
  then show ?thesis
  proof cases
    case 2
    from block_sync_synced [OF 2(1)] show ?thesis by (simp add: 2(2) LastChainState_def synced_fetched)
  qed simp
qed

lemma loadValidator_keys:
  assumes "loadValidator E F path fs = Inr val"
  shows "val = None \<longleftrightarrow> path = []"
    and "val = Some (pv, k) \<Longrightarrow> pubkey_Address k = PrivValidatorLocal_Address E pv"
  using assms
  by (auto simp: loadValidator_def Let_def PrivValidatorLocal_GetPubKey_def split: if_splits sum.splits)

text \<open>A node without \<open>--nodeKey\<close>: the key is looked for, made and written under the empty path before
  the path is looked at. When a file of that name can be neither read nor written, the flag that is
  missing is never named.\<close>

lemma runNode_without_node_key:
  assumes "nodeKeyPath flags = []" and "ReadFile F [] fs = Inl NotExist"
    and "\<And>b. fst (WriteFile F [] b fs) \<noteq> None" and "runNode E D F V flags fs = Inr r"
  shows "r = Exited NodeKeyUnavailable"
proof -
  obtain priv b where k: "GenerateKeyPair F = Inr priv" "MarshalPrivateKey F priv = Inr b"
    using assms(1,2,4) by (auto simp: runNode_def getOrCreateNodeKey_def split: sum.splits)
  obtain e fs' where "WriteFile F [] b fs = (Some e, fs')"
    using assms(3) [of b] by (cases "WriteFile F [] b fs") auto
  then have "getOrCreateNodeKey F [] fs = Inr (Inl (OtherError ''failed to write node key''), fs')"
    using assms(2) k by (simp add: getOrCreateNodeKey_def)
  then show ?thesis using assms(1,4) by (simp add: runNode_def)
qed

text \<open>What is relied on of the file system and of the keys: a file that was written is there and
  reads back, and a marshalled key is the key.\<close>

definition files_ok :: "('fs, 'key, 'db) os \<Rightarrow> bool" where
  "files_ok F \<longleftrightarrow>
     (\<forall>path b fs fs'. WriteFile F path b fs = (None, fs') \<longrightarrow> ReadFile F path fs' = Inr b)
     \<and> (\<forall>k b. MarshalPrivateKey F k = Inr b \<longrightarrow> UnmarshalPrivateKey F b = Inr k \<and> (\<exists>i. IDFromPrivateKey F k = Inr i))
     \<and> (\<forall>k. ToECDSA F (FromECDSA F k) = Inr k)"

section \<open>A sample machine\<close>

text \<open>For the witnesses: a file system that is a map, keys that are their own bytes, a lone validator
  with the address 5 and one bootstrap peer.\<close>

definition sample_os :: "(string \<rightharpoonup> bytes, bytes, bytes \<Rightarrow> bytes option) os" where
  "sample_os =
     \<lparr>ReadFile = (\<lambda>p fs. case fs p of None \<Rightarrow> Inl NotExist | Some b \<Rightarrow> Inr b),
      WriteFile = (\<lambda>p b fs. (None, fs(p \<mapsto> b))),
      Stat = (\<lambda>p fs. case fs p of None \<Rightarrow> Some NotExist | Some b \<Rightarrow> None),
      OpenDB = (\<lambda>p fs. Inr Map.empty),
      GenerateKeyPair = Inr [7], MarshalPrivateKey = Inr, UnmarshalPrivateKey = Inr,
      IDFromPrivateKey = (\<lambda>k. Inr ''id''), GenerateKey = Inr [5], ToECDSA = Inr, FromECDSA = (\<lambda>k. k)\<rparr>"

definition sample_flags :: flags where
  "sample_flags =
     \<lparr>p2pNetworkID = ''net'', p2pPort = 8999, nodeName = [], verbosity = 3,
      nodeKeyPath = ''node.key'', valKeyPath = ''val.key'', datadir = ''db'', validatorSet = [''a''],
      genesisTimeMs = 1000, skipBlockSync = False, powerStr = ''10'', timeoutCommitMs = 5000,
      consensusSyncMs = 500, proposerRepetition = 8, p2pBootstrap = ''peer''\<rparr>"

definition sample_environment :: "(sample_blk, string, string) environment" where
  "sample_environment =
     \<lparr>HexToAddress = (\<lambda>s. 5), DefaultConfig = sample_config,
      Libp2p = \<lparr>NewMultiaddr = Inr, AddrInfoFromP2pAddr = Inr, pi_ID = (\<lambda>s. s), Connect = (\<lambda>s. None)\<rparr>,
      NewHost = Inr ''id'', sync_peers = [], sync_greetings = (\<lambda>k p. None),
      sync_blocks = (\<lambda>k p h. Inl IncorrectMsg), rounds = 1\<rparr>"

lemma sample_os_ok: "files_ok sample_os"
  by (simp add: files_ok_def sample_os_def)

lemmas sample_machine_defs =
  sample_os_def sample_flags_def sample_environment_def runNode_def getOrCreateNodeKey_def
  loadValidator_def loadValidatorKey_def parse_validators_def validatorPowers_def Atoi_def is_digit_def
  less_eq_char_def digit_value_def is_i64_def runValidators_def NewP2PServer_def startState_def BlockSync_runRoutine_def NewBlockSync_def

lemma sample_runs:
  "\<exists>sys. runNode sample_ext sample_block_db sample_os sample_environment sample_flags
     [''val.key'' \<mapsto> [5]] = Inr (Running None sys)"
  by (simp add: sample_machine_defs sample_run_defs state_machine_defs library_defs cong: eval_cong)

section \<open>Properties\<close>

text \<open>C16. What a running node was started with. When \<open>runNode\<close> gets as far as a running consensus state,
  that state is a start of the consensus state machine from a chain state that comes from the
  genesis state of the flags by fetched blocks, each validated and with a commit that verifies; there
  is one power for each validator, an \<open>int64\<close>; the node has a private validator exactly when a key
  file was given, and then its address is in the validator set.\<close>

theorem runNode_starts:
  assumes "runNode E D F V flags fs = Inr (Running None sys)"
  shows "\<exists>p st db pv vals powers.
      reachable (default_node E D) p st db pv sys
    \<and> (fetched_step E)\<^sup>*\<^sup>* (MakeGenesisChainState E ''test'' (genesisTimeMs flags) vals powers 128
          (i64_of_u64 (proposerRepetition flags))) st
    \<and> vals = map (HexToAddress V) (validatorSet flags) \<and> length powers = length vals \<and> list_all is_i64 powers
    \<and> (pv = None \<longleftrightarrow> valKeyPath flags = [])
    \<and> (\<forall>k. pv = Some k \<longrightarrow> PrivValidatorLocal_Address E k \<in> set vals)"
proof -
  obtain fs' val vals powers where val: "loadValidator E F (valKeyPath flags) fs' = Inr val"
    and vals: "parse_validators (HexToAddress V) (map_option snd val) (validatorSet flags) (powerStr flags)
      = Inr (vals, powers)"
    and run: "runValidators E D F V flags val vals powers fs' = Inr (Running None sys)"
    using assms by (auto simp: runNode_def andThen_eq_Inr split: if_splits sum.splits prod.splits)
  let ?gcs = "MakeGenesisChainState E ''test'' (genesisTimeMs flags) vals powers 128
          (i64_of_u64 (proposerRepetition flags))"
  obtain db st db' p where st: "startState E D V flags vals (map_option snd val) ?gcs db = Some (Inr (None, st, db'))"
    and start: "start_node (default_node E D) p st db' (map_option fst val) = Inr (None, sys)"
    using run
    by (auto simp: runValidators_def Let_def andThen_eq_Inr split: sum.splits option.splits)
  have "reachable (default_node E D) p st db' (map_option fst val) sys"
    using start by (rule reachable_start)
  moreover have "\<forall>k. map_option fst val = Some k \<longrightarrow> PrivValidatorLocal_Address E k \<in> set vals"
    using parse_validators_shape [OF vals] loadValidator_keys(2) [OF val] by fastforce
  moreover have "map_option fst val = None \<longleftrightarrow> valKeyPath flags = []"
    using loadValidator_keys(1) [OF val] by simp
  ultimately show ?thesis
    using startState_fetched [OF st] parse_validators_shape [OF vals] by blast
qed

theorem runNode_starts_witness:
  "\<exists>sys p st db pv.
      runNode sample_ext sample_block_db sample_os sample_environment sample_flags [''val.key'' \<mapsto> [5]]
        = Inr (Running None sys)
    \<and> reachable (default_node sample_ext sample_block_db) p st db pv sys \<and> pv \<noteq> None"
proof -
  obtain sys where run: "runNode sample_ext sample_block_db sample_os sample_environment sample_flags
     [''val.key'' \<mapsto> [5]] = Inr (Running None sys)"
    using sample_runs by blast
  have "valKeyPath sample_flags \<noteq> []" by (simp add: sample_flags_def)
  then show ?thesis using runNode_starts [OF run] run by blast
qed

text \<open>The powers of the command line are read as they were written: a list of \<open>int64\<close> powers, in
  decimal notation and separated by commas, gives these powers.\<close>

lemma validator_powers_roundtrip:
  assumes "ps \<noteq> []" and "list_all is_i64 ps"
  shows "validatorPowers (length ps) (Join CHR '','' (map Itoa ps)) = Inr ps"
proof -
  have sp: "Split CHR '','' (Join CHR '','' (map Itoa ps)) = map Itoa ps"
    using assms(1) Itoa_no_comma by (intro Split_Join) auto
  have "Itoa p \<noteq> []" for p using nat_digits_all by (auto simp: Itoa_def)
  then have "Join CHR '','' (map Itoa ps) \<noteq> []"
    using assms(1) by (cases "(CHR '','', map Itoa ps)" rule: Join.cases) auto
  then show ?thesis
    using parse_powers_Itoa [OF assms(2)] by (simp add: validatorPowers_def sp)
qed

text \<open>A node keeps its p2p key: once \<open>getOrCreateNodeKey\<close> has given a key, made or found, it gives
  the same key again on the file system it left, and changes it no more.\<close>

lemma node_key_stable:
  assumes "files_ok F" and "getOrCreateNodeKey F path fs = Inr (Inr k, fs')"
  shows "getOrCreateNodeKey F path fs' = Inr (Inr k, fs')"
proof (cases "ReadFile F path fs")
  case (Inl e)
  then obtain s where "MarshalPrivateKey F k = Inr s" "WriteFile F path s fs = (None, fs')"
    using assms(2) by (cases e) (auto simp: getOrCreateNodeKey_def split: sum.splits prod.splits option.splits)
  then have "ReadFile F path fs' = Inr s" "UnmarshalPrivateKey F s = Inr k" "\<exists>i. IDFromPrivateKey F k = Inr i"
    using assms(1) unfolding files_ok_def by blast+
  then show ?thesis by (auto simp: getOrCreateNodeKey_def)
next
  case (Inr b)
  then show ?thesis using assms(2) by (auto simp: getOrCreateNodeKey_def split: sum.splits)
qed

text \<open>Without a bootstrap address a node cannot run: once the configuration has been read and the
  database opened, \<open>runNode\<close> dereferences the server that \<open>NewP2PServer\<close> did not make, because its
  error is not looked at. This holds for a lone validator too, which skips block sync because it
  needs no peers.\<close>

lemma no_bootstrap_panics:
  assumes "p2pBootstrap flags = []" and "OpenDB F (datadir flags) fs = Inr db"
  shows "runValidators E D F V flags val vals powers fs = Inl NilDereference"
  using assms by (cases "NewHost V") (simp_all add: runValidators_def NewP2PServer_def Let_def)

end
