(* ===== verification/Command_Line.thy ===== *)
theory Command_Line
  imports Node_Start
begin

text \<open>
  The process around a node: \<open>main\<close>, the root command and \<open>initConfig\<close> of \<open>cmd/main/main.go\<close>, and
  \<open>runKeygen\<close> of \<open>cmd/main/keygen.go\<close>. What \<open>cobra\<close> makes of the arguments, the home directory, the
  configuration file and \<open>mlockall\<close> are the record \<open>shell\<close>; the state of the process holds what the
  code sets in it: the file system, the mask for new files, whether memory is locked, and the
  settings of \<open>viper\<close>, which are global; and, as a history, what \<open>keygen\<close> has done and in which order.
  A result \<open>Inl code\<close> is \<open>os.Exit\<close>.
\<close>

section \<open>The process\<close>

record viper =
  vp_configFile :: string
  vp_configPaths :: "string list"
  vp_configName :: string
  vp_automaticEnv :: bool
  vp_config :: "string option"

text \<open>The steps of \<open>keygen\<close> that have an effect outside: \<open>KeyWriting\<close> is the call of
  \<open>writeValidatorKey\<close>.\<close>

datatype process_action =
    MemoryLocked
  | UmaskSet u32
  | KeyGenerated
  | KeyWriting string

record 'fs process =
  proc_log :: "process_action list"
  proc_fs :: 'fs
  proc_umask :: u32
  proc_locked :: bool
  proc_viper :: viper

text \<open>What was asked for: the help text, \<open>NodeCmd\<close> with its flags, or \<open>KeygenCmd\<close> with \<open>--nolock\<close> and
  its arguments.\<close>

datatype invocation =
    HelpInvocation
  | NodeInvocation flags
  | KeygenInvocation bool "string list"

record shell =
  ParseArgs :: "string list \<Rightarrow> go_error + string \<times> invocation"
  HomeDir :: "go_error + string"
  ReadInConfig :: "viper \<Rightarrow> go_error + string"
  Mlockall :: "go_error option"

text \<open>\<open>lockMemory\<close> and \<open>setRestrictiveUmask\<close>, which sets the mask \<open>0077\<close>.\<close>

definition lockMemory :: "shell \<Rightarrow> 'fs process \<Rightarrow> int + 'fs process" where
  "lockMemory S p =
     (case Mlockall S of
        Some err \<Rightarrow> Inl 1
      | None \<Rightarrow> Inr (p\<lparr>proc_locked := True, proc_log := proc_log p @ [MemoryLocked]\<rparr>))"

definition setRestrictiveUmask :: "'fs process \<Rightarrow> 'fs process" where
  "setRestrictiveUmask p = p\<lparr>proc_umask := 7 * 8 + 7, proc_log := proc_log p @ [UmaskSet (7 * 8 + 7)]\<rparr>"

text \<open>\<open>initConfig\<close>; a configuration file that cannot be read is passed over.\<close>

definition initConfig :: "shell \<Rightarrow> string \<Rightarrow> 'fs process \<Rightarrow> int + 'fs process" where
  "initConfig S cfgFile p =
     andThen
       (if cfgFile \<noteq> [] then Inr ((proc_viper p)\<lparr>vp_configFile := cfgFile\<rparr>)
        else
          case HomeDir S of
            Inl err \<Rightarrow> Inl 1
          | Inr home \<Rightarrow>
              Inr ((proc_viper p)\<lparr>vp_configPaths := vp_configPaths (proc_viper p) @ [home],
                vp_configName := ''.guardiand.yaml''\<rparr>))
       (\<lambda>v.
         let v = v\<lparr>vp_automaticEnv := True\<rparr>;
             v = (case ReadInConfig S v of
                    Inl err \<Rightarrow> v
                  | Inr settings \<Rightarrow> v\<lparr>vp_config := Some settings\<rparr>)
         in Inr (p\<lparr>proc_viper := v\<rparr>))"

section \<open>The commands\<close>

text \<open>\<open>runKeygen\<close>, on the one argument that \<open>cobra.ExactArgs(1)\<close> lets through; its errors are logged.
  The description of the key is not used.\<close>

definition runKeygen ::
  "('val, 'vs, 'hvs, 'blk) ext \<Rightarrow> ('fs, 'key, 'db) os \<Rightarrow> shell \<Rightarrow> bool \<Rightarrow> string \<Rightarrow> 'fs process
     \<Rightarrow> (int + go_error option \<times> 'fs process) res" where
  "runKeygen E F S nolock filename p =
     (case (if \<not> nolock then lockMemory S p else Inr p) of
        Inl code \<Rightarrow> Inr (Inl code)
      | Inr p \<Rightarrow>
          let p = setRestrictiveUmask p in
          andThen (GeneratePrivValidatorLocal F) (\<lambda>gk.
            let p = p\<lparr>proc_log := proc_log p @ [KeyGenerated]\<rparr> in
            case PrivValidatorLocal_GetPubKey E gk of
              Inl err \<Rightarrow> Inr (Inr (Some err, p))
            | Inr pk \<Rightarrow>
                let (err, fs) = writeValidatorKey F (PrivKey gk) filename (proc_fs p)
                in Inr (Inr (err, p\<lparr>proc_fs := fs, proc_log := proc_log p @ [KeyWriting filename]\<rparr>))))"

datatype ('o, 'fs) ended =
    HelpShown
  | NodeEnded 'o
  | KeygenEnded "go_error option" "'fs process"

text \<open>\<open>rootCmd.Execute\<close>: the arguments are parsed and their number is checked, then \<open>initConfig\<close> runs,
  which \<open>init\<close> registered with \<open>cobra.OnInitialize\<close>, then the command. A command returns nothing, so the
  errors \<open>Execute\<close> returns are those of the command line.\<close>

definition rootCmd_Execute ::
  "('val, 'vs, 'hvs, 'blk) ext \<Rightarrow> ('db, 'blk) db_ext \<Rightarrow> ('fs, 'key, 'db) os
     \<Rightarrow> ('blk, 'ma, 'pi) environment \<Rightarrow> shell \<Rightarrow> string list \<Rightarrow> 'fs process
     \<Rightarrow> (int + go_error + (('val, 'vs, 'hvs, 'blk, 'db, priv_validator_local) system outcome, 'fs) ended) res" where
  "rootCmd_Execute E D F V S args p =
     (case ParseArgs S args of
        Inl err \<Rightarrow> Inr (Inr (Inl err))
      | Inr (cfgFile, HelpInvocation) \<Rightarrow> Inr (Inr (Inr HelpShown))
      | Inr (cfgFile, NodeInvocation flags) \<Rightarrow>
          (case initConfig S cfgFile p of
             Inl code \<Rightarrow> Inr (Inl code)
           | Inr p \<Rightarrow>
               andThen (runNode E D F V flags (proc_fs p)) (\<lambda>r. Inr (Inr (Inr (NodeEnded r)))))
      | Inr (cfgFile, KeygenInvocation nolock kargs) \<Rightarrow>
          if length kargs \<noteq> 1 then Inr (Inr (Inl (OtherError ''accepts 1 arg(s)'')))
          else
            case initConfig S cfgFile p of
              Inl code \<Rightarrow> Inr (Inl code)
            | Inr p \<Rightarrow>
                andThen (runKeygen E F S nolock (kargs ! 0) p) (\<lambda>r.
                  case r of
                    Inl code \<Rightarrow> Inr (Inl code)
                  | Inr (err, p) \<Rightarrow> Inr (Inr (Inr (KeygenEnded err p)))))"

text \<open>\<open>main\<close>: the process exits with 1 when the command line was wrong, and otherwise ends with 0.\<close>

definition main ::
  "('val, 'vs, 'hvs, 'blk) ext \<Rightarrow> ('db, 'blk) db_ext \<Rightarrow> ('fs, 'key, 'db) os
     \<Rightarrow> ('blk, 'ma, 'pi) environment \<Rightarrow> shell \<Rightarrow> string list \<Rightarrow> 'fs process
     \<Rightarrow> (int + (('val, 'vs, 'hvs, 'blk, 'db, priv_validator_local) system outcome, 'fs) ended) res" where
  "main E D F V S args p =
     andThen (rootCmd_Execute E D F V S args p) (\<lambda>r.
       case r of
         Inl code \<Rightarrow> Inr (Inl code)
       | Inr (Inl err) \<Rightarrow> Inr (Inl 1)
       | Inr (Inr e) \<Rightarrow> Inr (Inr e))"

section \<open>What the process does\<close>

lemma initConfig_frame:
  assumes "initConfig S cfgFile p = Inr q"
  shows "proc_fs q = proc_fs p" and "proc_umask q = proc_umask p" and "proc_locked q = proc_locked p"
    and "proc_log q = proc_log p"
  using assms by (auto simp: initConfig_def andThen_eq_Inr Let_def)

text \<open>A run of \<open>keygen\<close> that ends, seen from \<open>main\<close>.\<close>

lemma main_keygen:
  assumes "ParseArgs S args = Inr (cfgFile, KeygenInvocation nolock kargs)"
    and "main E D F V S args p = Inr (Inr (KeygenEnded err p'))"
  shows "\<exists>filename q. kargs = [filename] \<and> initConfig S cfgFile p = Inr q
    \<and> runKeygen E F S nolock filename q = Inr (Inr (err, p'))"
proof -
  have e: "rootCmd_Execute E D F V S args p = Inr (Inr (Inr (KeygenEnded err p')))"
    using assms(2) by (cases "rootCmd_Execute E D F V S args p") (auto simp: main_def split: sum.splits)
  then have "length kargs = 1" using assms(1) by (auto simp: rootCmd_Execute_def split: if_splits)
  then obtain filename where f: "kargs = [filename]" by (auto simp: length_Suc_conv)
  obtain q where q: "initConfig S cfgFile p = Inr q"
    using e assms(1) f by (cases "initConfig S cfgFile p") (auto simp: rootCmd_Execute_def)
  then have "runKeygen E F S nolock filename q = Inr (Inr (err, p'))"
    using e assms(1) f
    by (cases "runKeygen E F S nolock filename q") (auto simp: rootCmd_Execute_def split: sum.splits)
  with f q show ?thesis by blast
qed

lemma writeValidatorKey_refuses:
  assumes "writeValidatorKey F k filename fs = (err, fs')" and "Stat F filename fs \<noteq> Some NotExist"
  shows "err \<noteq> None \<and> fs' = fs"
  using assms by (auto simp: writeValidatorKey_def)

lemma writeValidatorKey_loads:
  assumes "files_ok F" and "writeValidatorKey F k filename fs = (None, fs')"
  shows "Stat F filename fs = Some NotExist" and "loadValidatorKey F filename fs' = Inr k"
proof -
  show "Stat F filename fs = Some NotExist" using writeValidatorKey_refuses [OF assms(2)] by blast
  then have "WriteFile F filename (FromECDSA F k) fs = (None, fs')"
    using assms(2) by (auto simp: writeValidatorKey_def split: prod.splits option.splits)
  then have "ReadFile F filename fs' = Inr (FromECDSA F k)" "ToECDSA F (FromECDSA F k) = Inr k"
    using assms(1) unfolding files_ok_def by blast+
  then show "loadValidatorKey F filename fs' = Inr k" by (simp add: loadValidatorKey_def)
qed

text \<open>What \<open>keygen\<close> does before it writes, and after.\<close>

definition keygen_steps :: "bool \<Rightarrow> process_action list" where
  "keygen_steps nolock = (if nolock then [] else [MemoryLocked]) @ [UmaskSet 63, KeyGenerated]"

lemma runKeygen_ended:
  assumes "runKeygen E F S nolock filename p = Inr (Inr (err, p'))"
  shows "(proc_log p' = proc_log p @ keygen_steps nolock \<and> proc_fs p' = proc_fs p \<and> err \<noteq> None)
    \<or> (proc_log p' = proc_log p @ keygen_steps nolock @ [KeyWriting filename]
       \<and> (\<exists>k. GenerateKey F = Inr k \<and> writeValidatorKey F k filename (proc_fs p) = (err, proc_fs p')))"
  using assms
  by (auto simp: runKeygen_def lockMemory_def setRestrictiveUmask_def GeneratePrivValidatorLocal_def keygen_steps_def
      Let_def andThen_eq_Inr split: if_splits sum.splits option.splits prod.splits)

text \<open>A file that is there is left alone; the process ends with the code 0 all the same.\<close>

lemma keygen_refuses:
  assumes "ParseArgs S args = Inr (cfgFile, KeygenInvocation nolock [filename])" and "cfgFile \<noteq> []"
    and "nolock \<or> Mlockall S = None" and "GenerateKey F = Inr k" and "PrivValidatorLocal_GetPubKey E \<lparr>PrivKey = k\<rparr> = Inr pk"
    and "Stat F filename (proc_fs p) \<noteq> Some NotExist"
  shows "\<exists>e p'. main E D F V S args p = Inr (Inr (KeygenEnded (Some e) p')) \<and> proc_fs p' = proc_fs p"
  using assms
  by (auto simp: main_def rootCmd_Execute_def initConfig_def runKeygen_def lockMemory_def setRestrictiveUmask_def
      GeneratePrivValidatorLocal_def writeValidatorKey_def Let_def split: sum.split)

text \<open>Nothing that the configuration file says has an effect: no flag is bound to it.\<close>

lemma config_has_no_effect:
  assumes "ParseArgs S args = Inr (cfgFile, NodeInvocation flags)"
  shows "main E D F V (S\<lparr>ReadInConfig := r\<rparr>) args p = main E D F V S args p"
  using assms
  by (auto simp: main_def rootCmd_Execute_def initConfig_def Let_def split: sum.split)

section \<open>Property\<close>

text \<open>C39. What \<open>mpbft keygen\<close> does, from the command line to the file, in every run that comes to the end
  of the command, with an error or without. Exactly one file name was given. Memory was locked,
  unless \<open>--nolock\<close> was given, then the mask was set that leaves the group and others no permission on
  new files, then a key was generated, and nothing was written before all that. A file that was there
  already, or could not be looked up, is not overwritten: the files are what they were, and the
  command has an error. Without an error the key that was generated was written, and it is the key
  that a node loads from the file.\<close>

theorem keygen_in_order:
  assumes "files_ok F" and "ParseArgs S args = Inr (cfgFile, KeygenInvocation nolock kargs)"
    and "main E D F V S args p = Inr (Inr (KeygenEnded err p'))"
  shows "\<exists>filename. kargs = [filename]
    \<and> (proc_log p' = proc_log p @ keygen_steps nolock \<and> proc_fs p' = proc_fs p \<and> err \<noteq> None
       \<or> proc_log p' = proc_log p @ keygen_steps nolock @ [KeyWriting filename])
    \<and> (Stat F filename (proc_fs p) \<noteq> Some NotExist \<longrightarrow> proc_fs p' = proc_fs p \<and> err \<noteq> None)
    \<and> (err = None \<longrightarrow> (\<exists>k. GenerateKey F = Inr k \<and> loadValidatorKey F filename (proc_fs p') = Inr k))"
proof -
  obtain filename q where f: "kargs = [filename]" and q: "initConfig S cfgFile p = Inr q"
    and r: "runKeygen E F S nolock filename q = Inr (Inr (err, p'))"
    using main_keygen [OF assms(2,3)] by blast
  note ended = runKeygen_ended [OF r, unfolded initConfig_frame(1) [OF q] initConfig_frame(4) [OF q]]
  then have "Stat F filename (proc_fs p) \<noteq> Some NotExist \<longrightarrow> proc_fs p' = proc_fs p \<and> err \<noteq> None"
    using writeValidatorKey_refuses by metis
  moreover have "err = None \<longrightarrow> (\<exists>k. GenerateKey F = Inr k \<and> loadValidatorKey F filename (proc_fs p') = Inr k)"
    using ended writeValidatorKey_loads(2) [OF assms(1)] by blast
  ultimately show ?thesis using f ended by blast
qed

definition sample_shell :: shell where
  "sample_shell =
     \<lparr>ParseArgs = (\<lambda>args. Inr ([], KeygenInvocation False (tl args))), HomeDir = Inr ''/root'',
      ReadInConfig = (\<lambda>v. Inl (OtherError ''not found'')), Mlockall = None\<rparr>"

definition sample_process :: "(string \<rightharpoonup> bytes) process" where
  "sample_process =
     \<lparr>proc_log = [], proc_fs = Map.empty, proc_umask = 18, proc_locked = False,
      proc_viper = \<lparr>vp_configFile = [], vp_configPaths = [], vp_configName = ''config'',
        vp_automaticEnv = False, vp_config = None\<rparr>\<rparr>"

theorem keygen_in_order_witness:
  "\<exists>p'. main sample_ext sample_block_db sample_os sample_environment sample_shell [''keygen'', ''val.key''] sample_process
       = Inr (Inr (KeygenEnded None p'))
     \<and> proc_log p' = [MemoryLocked, UmaskSet 63, KeyGenerated, KeyWriting ''val.key'']
     \<and> loadValidatorKey sample_os ''val.key'' (proc_fs p') = Inr [5]"
proof -
  have a: "ParseArgs sample_shell [''keygen'', ''val.key''] = Inr ([], KeygenInvocation False [''val.key''])"
    by (simp add: sample_shell_def)
  obtain p' where p': "main sample_ext sample_block_db sample_os sample_environment sample_shell
      [''keygen'', ''val.key''] sample_process = Inr (Inr (KeygenEnded None p'))"
    by (simp add: main_def rootCmd_Execute_def initConfig_def runKeygen_def lockMemory_def setRestrictiveUmask_def
        GeneratePrivValidatorLocal_def PrivValidatorLocal_GetPubKey_def writeValidatorKey_def sample_shell_def
        sample_process_def sample_os_def Let_def)
  have "GenerateKey sample_os = Inr [5]" by (simp add: sample_os_def)
  then show ?thesis
    using keygen_in_order [OF sample_os_ok a p'] p' by (auto simp: keygen_steps_def sample_process_def)
qed

end
