(* ===== verification/Devp2p.thy ===== *)
theory Devp2p
  imports P2P_Codec Go_Strings
begin

text \<open>
  \<open>p2p/devp2p.go\<close>, the transport over go-ethereum's devp2p that is an alternative to \<open>p2p.go\<close>: the
  parsing of its bootstrap list, the loop that reads packets of a peer, and the loop that sends
  what the consensus state machine puts out to the connected peers.
\<close>

section \<open>The bootstrap list\<close>

definition SplitAndTrim :: "string \<Rightarrow> string list" where
  "SplitAndTrim input = filter (\<lambda>r. r \<noteq> []) (map TrimSpace (Split CHR '','' input))"

text \<open>\<open>parse\<close> is \<open>enode.Parse\<close>. A URL that does not parse ends the process: \<open>log.Crit\<close> exits, and the
  \<open>continue\<close> after it is not reached.\<close>

fun bootstrap_nodes :: "(string \<Rightarrow> go_error + 'node) \<Rightarrow> string list \<Rightarrow> 'node list option" where
  "bootstrap_nodes parse [] = Some []"
| "bootstrap_nodes parse (url # urls) =
     (if url = [] then bootstrap_nodes parse urls
      else case parse url of
        Inl err \<Rightarrow> None
      | Inr node \<Rightarrow> map_option (\<lambda>nodes. node # nodes) (bootstrap_nodes parse urls))"

section \<open>Sending\<close>

text \<open>\<open>broadcast\<close> writes to every peer and returns the last error; the peers come in the order in
  which Go happens to iterate over the map. \<open>'s\<close> is the state of the connections.\<close>

fun broadcast_loop ::
  "('p \<Rightarrow> u64 \<Rightarrow> bytes \<Rightarrow> 's \<Rightarrow> go_error option \<times> 's) \<Rightarrow> u64 \<Rightarrow> bytes \<Rightarrow> 'p list \<Rightarrow> go_error option \<Rightarrow> 's
     \<Rightarrow> go_error option \<times> 's" where
  "broadcast_loop write code data [] err1 s = (err1, s)"
| "broadcast_loop write code data (v # vs) err1 s =
     (case write v code data s of
        (Some err, s) \<Rightarrow> broadcast_loop write code data vs (Some err) s
      | (None, s) \<Rightarrow> broadcast_loop write code data vs err1 s)"

definition broadcast ::
  "('p \<Rightarrow> u64 \<Rightarrow> bytes \<Rightarrow> 's \<Rightarrow> go_error option \<times> 's) \<Rightarrow> 'p list \<Rightarrow> u64 \<Rightarrow> bytes \<Rightarrow> 's
     \<Rightarrow> go_error option \<times> 's" where
  "broadcast write peers code data s = broadcast_loop write code data peers None s"

definition MsgProposal :: u64 where "MsgProposal = 1"

definition MsgVote :: u64 where "MsgVote = 2"

text \<open>What the send loop broadcasts for a message: its code and data. A proposal goes out without its
  type byte (\<open>encodeRaw\<close>), a vote with it (\<open>encode\<close>).\<close>

definition devp2p_packet :: "'blk wire \<Rightarrow> 'blk message \<Rightarrow> (u64 \<times> bytes) option" where
  "devp2p_packet W msg =
     (case msg of
        ProposalMessage p \<Rightarrow>
          (case encodeRaw W (PtrProposal (Some p)) of Inl err \<Rightarrow> None | Inr data \<Rightarrow> Some (MsgProposal, data))
      | VoteMessage v \<Rightarrow>
          (case encode W (PtrVote (Some v)) of Inl err \<Rightarrow> None | Inr data \<Rightarrow> Some (MsgVote, data))
      | SyncRequestMessage req \<Rightarrow> None)"

section \<open>Receiving\<close>

text \<open>What \<open>ReadMsg\<close> gives: an error, or a packet of a size with what one \<open>Read\<close> of its payload puts
  in the buffer and its error.\<close>

datatype devp2p_read =
    ReadError go_error
  | Packet u32 bytes "go_error option"

datatype 'blk devp2p_result =
    ExitLoop go_error
  | Continue "'blk event list" "u64 list"

text \<open>One round of the loop over the packets of the peer \<open>name\<close>: the events for the consensus state
  machine and the last heights sent in answer, or the error the loop ends with. \<open>send_hello\<close> is the
  outcome of sending such an answer.\<close>

definition devp2p_receive ::
  "'blk wire \<Rightarrow> (u64 \<Rightarrow> go_error option) \<Rightarrow> u64 \<Rightarrow> string \<Rightarrow> devp2p_read \<Rightarrow> 'blk devp2p_result" where
  "devp2p_receive W send_hello lastHeight name pkt =
     (case pkt of
        ReadError err \<Rightarrow> ExitLoop err
      | Packet sz data (Some err) \<Rightarrow> ExitLoop err
      | Packet sz data None \<Rightarrow>
          if length data \<noteq> unat sz then ExitLoop (OtherError ''incorrect size'')
          else
            (case decode W data of
               (msg, Some err) \<Rightarrow> Continue [] []
             | (PtrHelloRequest h, None) \<Rightarrow>
                 (case send_hello lastHeight of
                    Some err \<Rightarrow> ExitLoop err
                  | None \<Rightarrow> Continue [] [lastHeight])
             | (msg, None) \<Rightarrow> Continue (deliver name msg) []))"

fun devp2p_loop ::
  "'blk wire \<Rightarrow> (u64 \<Rightarrow> go_error option) \<Rightarrow> u64 \<Rightarrow> string \<Rightarrow> devp2p_read list
     \<Rightarrow> 'blk event list \<times> go_error option" where
  "devp2p_loop W send_hello lastHeight name [] = ([], None)"
| "devp2p_loop W send_hello lastHeight name (pkt # pkts) =
     (case devp2p_receive W send_hello lastHeight name pkt of
        ExitLoop err \<Rightarrow> ([], Some err)
      | Continue evs hs \<Rightarrow>
          (let (evs', err) = devp2p_loop W send_hello lastHeight name pkts in (evs @ evs', err)))"

section \<open>The connected peers\<close>

text \<open>The protocol's map \<open>peers\<close>: it is read when a connection starts and cleared of the peer when it
  ends. What is sent goes to the peers in the map; \<open>dp_sent\<close> records it.\<close>

record devp2p_state =
  dp_peers :: "string list"
  dp_sent :: "(string \<times> u64 \<times> bytes) list"

datatype 'blk devp2p_event =
    PeerStarts string
  | PeerEnds string
  | SendMsg "'blk message"

fun devp2p_step ::
  "'blk wire \<Rightarrow> 'blk devp2p_event \<Rightarrow> devp2p_state \<Rightarrow> go_error option \<times> devp2p_state" where
  "devp2p_step W (PeerStarts p) s =
     (if p \<in> set (dp_peers s) then (Some (OtherError ''already connected''), s) else (None, s))"
| "devp2p_step W (PeerEnds p) s = (None, s\<lparr>dp_peers := filter (\<lambda>q. q \<noteq> p) (dp_peers s)\<rparr>)"
| "devp2p_step W (SendMsg msg) s =
     (case devp2p_packet W msg of
        None \<Rightarrow> (None, s)
      | Some (code, data) \<Rightarrow>
          broadcast (\<lambda>p code data s. (None, s\<lparr>dp_sent := dp_sent s @ [(p, code, data)]\<rparr>)) (dp_peers s)
            code data s)"

fun devp2p_run :: "'blk wire \<Rightarrow> 'blk devp2p_event list \<Rightarrow> devp2p_state \<Rightarrow> devp2p_state" where
  "devp2p_run W [] s = s"
| "devp2p_run W (ev # evs) s = devp2p_run W evs (snd (devp2p_step W ev s))"

section \<open>Properties\<close>

text \<open>Text with nothing to trim.\<close>

definition trimmed :: "string \<Rightarrow> bool" where
  "trimmed p \<longleftrightarrow> p \<noteq> [] \<and> \<not> is_space (hd p) \<and> \<not> is_space (last p)"

lemma TrimSpace_pad:
  assumes "trimmed p" and "\<forall>c\<in>set us \<union> set vs. is_space c"
  shows "TrimSpace (us @ p @ vs) = p"
proof -
  have "dropWhile is_space (us @ p @ vs) = p @ vs"
    using assms by (cases p) (simp_all add: trimmed_def dropWhile_append2)
  moreover have "dropWhile is_space (rev vs @ rev p) = rev p"
  proof -
    have "\<And>c. c \<in> set (rev vs) \<Longrightarrow> is_space c" using assms(2) by simp
    then have "dropWhile is_space (rev vs @ rev p) = dropWhile is_space (rev p)" by (rule dropWhile_append2)
    then show ?thesis using assms(1) by (cases p rule: rev_cases) (simp_all add: trimmed_def)
  qed
  ultimately show ?thesis by (simp add: TrimSpace_def)
qed

text \<open>\<open>SplitAndTrim\<close> reads a list back: items without commas and without white space at their ends,
  each written with any white space around it and with commas in between, are what it returns.\<close>

lemma SplitAndTrim_roundtrip:
  assumes "items \<noteq> []"
    and "\<forall>(u, p, v)\<in>set items. trimmed p \<and> CHR '','' \<notin> set p \<and> (\<forall>c\<in>set u \<union> set v. is_space c)"
  shows "SplitAndTrim (Join CHR '','' (map (\<lambda>(u, p, v). u @ p @ v) items)) = map (\<lambda>(u, p, v). p) items"
proof -
  let ?pad = "\<lambda>(u, p, v). u @ p @ v" and ?item = "\<lambda>(u, p, v). p"
  have comma: "\<not> is_space CHR '',''" by (simp add: is_space_def)
  have "CHR '','' \<notin> set (?pad x)" if "x \<in> set items" for x
    using assms(2) that comma by (cases x) fastforce
  then have "Split CHR '','' (Join CHR '','' (map ?pad items)) = map ?pad items"
    using assms(1) by (intro Split_Join) simp_all
  moreover have "TrimSpace (?pad x) = ?item x" if "x \<in> set items" for x
    using assms(2) that TrimSpace_pad by (cases x) fastforce
  then have "map TrimSpace (map ?pad items) = map ?item items" by simp
  moreover have "?item x \<noteq> []" if "x \<in> set items" for x
    using assms(2) that by (cases x) (fastforce simp: trimmed_def)
  then have "filter (\<lambda>r. r \<noteq> []) (map ?item items) = map ?item items"
    unfolding filter_id_conv by (metis (no_types, lifting) imageE list.set_map)
  ultimately show ?thesis unfolding SplitAndTrim_def by metis
qed

text \<open>The devp2p transport sends nothing. No step puts a peer into the map \<open>peers\<close>, so whatever
  peers connect and whatever messages the consensus state machine puts out, nothing is written to
  any peer.\<close>

lemma devp2p_sends_nothing:
  "dp_sent (devp2p_run W evs \<lparr>dp_peers = [], dp_sent = []\<rparr>) = []"
proof -
  have "snd (devp2p_step W ev \<lparr>dp_peers = [], dp_sent = []\<rparr>) = \<lparr>dp_peers = [], dp_sent = []\<rparr>" for ev
    by (cases ev) (auto simp: broadcast_def split: option.split)
  then have "devp2p_run W evs \<lparr>dp_peers = [], dp_sent = []\<rparr> = \<lparr>dp_peers = [], dp_sent = []\<rparr>"
    by (induction evs) simp_all
  then show ?thesis by simp
qed

text \<open>A proposal that the devp2p transport would send cannot be read: it goes out without its type
  byte, and the first byte of an RLP list, at least 192, is no type. The receiver drops the packet
  and goes on.\<close>

lemma devp2p_proposal_unreadable:
  assumes "enc_Proposal W (Some p) = Inr (b # data)" and "192 \<le> b" and "length (b # data) = unat sz"
  shows "devp2p_packet W (ProposalMessage p) = Some (MsgProposal, b # data)
    \<and> devp2p_receive W send_hello lastHeight name (Packet sz (b # data) None) = Continue [] []"
proof -
  have "decoder W b = None" using assms(2) by (auto simp: decoder_def word_le_nat_alt)
  then show ?thesis
    using assms(1,3) by (simp add: devp2p_packet_def encodeProposal_def devp2p_receive_def decode_def)
qed

end
