(* ===== verification/Spec2Isabelle.thy ===== *)
theory Spec2Isabelle
  imports Safe_Math Service Block_Sync P2P_Codec CS_Properties CS_Rules CS_Commit_Rules CS_Votes Catch_Up Gossip CS_Types CS_Lone Agreement Command_Line Devp2p
begin

section \<open>go-minimal-pbft: the model and its theorems\<close>

text \<open>
  The program is a node of a proof-of-authority chain. A fixed set of validators agrees on one block
  per height with the Tendermint variant of PBFT: in each round a proposer proposes a block, the
  validators prevote, precommit when they have seen more than two thirds of the prevotes, and commit
  when they have seen more than two thirds of the precommits. The parts, as the repository has them
  (paths are under \<open>src/\<close>):

  \<^item> \<open>consensus/\<close>: the consensus state machine (\<open>consensus_state.go\<close>) and what it stands on: the state
    of a round, the state of the chain, the block executor, the private validator, the timeout ticker
    and the base service;
  \<^item> \<open>p2p/\<close>: the server over libp2p (gossip, stream handlers, requests), the sync of blocks before a
    node joins consensus (\<open>block_sync.go\<close>) and while it runs (\<open>consensus_sync.go\<close>), and an alternative
    transport over devp2p;
  \<^item> \<open>cmd/main/\<close>: the block store, the key files, and \<open>runNode\<close>, which wires everything.

  How they interact. \<open>runNode\<close> reads keys and flags, makes the genesis chain state, starts the server,
  runs block sync, and starts the consensus state machine. That is one goroutine, \<open>receiveRoutine\<close>,
  which selects between messages of peers, its own messages, timeouts, its sync timer, sync requests
  of peers and committed blocks. Peer messages come from the gossip loop of the server and from the
  answers to sync requests; what the state machine puts out goes to the server, which publishes it
  or asks a peer. Timeouts go through the ticker, a goroutine of its own.
\<close>

section \<open>How the model is built\<close>

text \<open>
  A Go struct is a record, a type switch a datatype, an \<open>uint64\<close>, \<open>uint32\<close> or \<open>uint8\<close> a word of that
  width, an \<open>int32\<close> or \<open>int64\<close> an integer with the wrap-around of each operation written out (\<open>i32\<close>,
  \<open>i64\<close>), a pointer that may be \<open>nil\<close> an option. A panic is the left value of a result (\<open>panic + 'a\<close>),
  an error the left value of a sum or an optional error beside the result, and \<open>andThen\<close> sequences
  operations that may panic. A method is a function from the state to the state after it. Loops are
  recursions over the list or the number of iterations; the two whose length the source does not
  bound, of block sync, run on fuel.

  Code outside the repository is a parameter: the record \<open>ext\<close> holds the functions and methods of the
  forked \<open>core/types\<close> (vote sets, validator sets, blocks, cryptography), \<open>db_ext\<close> the database and the
  RLP codec of the store, \<open>wire\<close> the codec of the network, \<open>host\<close>, \<open>libp2p\<close> and \<open>pubsub\<close> the networking
  libraries, \<open>os\<close> the file system and the key libraries, \<open>shell\<close> the command line. What the code relies on of them are named
  predicates, hypotheses of the properties that need them: \<open>package_ok\<close> and \<open>library_ok\<close> (vote sets),
  \<open>hash_to_ok\<close> (block hashes), \<open>new_proposal_ok\<close> (\<open>NewProposal\<close> fills in the height and round it is
  given), \<open>crypto_ok\<close> (signatures), \<open>db_ok\<close> (the database), \<open>wire_ok\<close> (the codec) and \<open>files_ok\<close> (files).
  Every property with hypotheses is followed by a witness at concrete values; the theories
  \<open>Sample_Instance\<close>, \<open>Sample_Run\<close> and \<open>Sample_Network\<close> hold these and nothing of the model.

  The interfaces of the program are locales: \<open>block_executor\<close>, \<open>priv_validator\<close>, \<open>block_store\<close> and
  \<open>timeout_ticker\<close>, each interpreted on the implementation of the repository in the theory that models
  it, and \<open>consensus_node\<close>, which joins what the state machine needs of the first two. The invariants
  of the state machine are proved in the locale, and the properties use its interpretation on
  \<open>default_node\<close>, the wiring of \<open>cmd/main/node.go\<close>.
\<close>

section \<open>Which theory models what\<close>

text \<open>
  Shared: \<open>Go_Prelude\<close> (machine integers, panics, sequencing), \<open>Go_Binary\<close> and \<open>Go_Strings\<close> (what is used
  of \<open>encoding/binary\<close>, \<open>strings\<close> and \<open>strconv\<close>), \<open>Ext_Types\<close> (\<open>consensus/types.go\<close> and the record \<open>ext\<close>).

  The consensus package:
  \<^item> \<open>Safe_Math\<close>: \<open>safe_math.go\<close>. \<open>Service\<close>: \<open>service.go\<close>. \<open>Round_State\<close>: \<open>round_state.go\<close>. \<open>Chain_State\<close>:
    \<open>chain_state.go\<close>. \<open>Validator_Keys\<close>: \<open>pubkey.go\<close>, \<open>priv_validator_local.go\<close>. \<open>Timeout_Ticker\<close>:
    \<open>timeout_ticker.go\<close>.
  \<^item> \<open>Median_Time\<close>, \<open>Block_Executor\<close>: \<open>default_block_executor.go\<close>, the median time and the rest.
  \<^item> \<open>consensus_state.go\<close>, in its own order of calls: \<open>CS_State\<close> (the state and the helpers every
    transition uses), \<open>CS_Enter\<close> (\<open>enterNewRound\<close> to \<open>enterPrecommitWait\<close>), \<open>CS_Commit\<close> (\<open>enterCommit\<close>,
    \<open>finalizeCommit\<close>, \<open>updateToState\<close>, \<open>processCommitedBlock\<close>), \<open>CS_Receive\<close> (proposals, votes, timeouts,
    construction and start), \<open>CS_Sync\<close> (\<open>createSyncRequest\<close>, \<open>processSyncRequest\<close>), \<open>CS_Run\<close>
    (\<open>receiveRoutine\<close> with the ticker as a step relation on systems, \<open>OnStop\<close>).

  The store, the network and the node:
  \<^item> \<open>Block_Store\<close>: \<open>cmd/main/default_block_store.go\<close>.
  \<^item> \<open>P2P_Codec\<close>: messages, framing and stream handlers of \<open>p2p/p2p.go\<close>. \<open>Gossip\<close>: \<open>Server.Run\<close>.
    \<open>P2P_Server\<close>: \<open>Send\<close>, \<open>SendRPC\<close> and the bootstrap of \<open>NewP2PServer\<close>. \<open>Catch_Up\<close>:
    \<open>p2p/consensus_sync.go\<close>. \<open>Block_Sync\<close>: \<open>p2p/block_sync.go\<close>. \<open>Devp2p\<close>: \<open>p2p/devp2p.go\<close>.
  \<^item> \<open>Node_Start\<close>: \<open>cmd/main/node.go\<close> and the key files of \<open>cmd/main/keygen.go\<close>. \<open>Command_Line\<close>:
    \<open>cmd/main/main.go\<close> and \<open>runKeygen\<close>, from the arguments to the exit code.
\<close>

section \<open>What is shown\<close>

text \<open>
  Of one node, over every state that \<open>receiveRoutine\<close> can reach, whatever its peers, its timers and the
  scheduler do:
  \<^item> \<open>CS_Cases\<close> says what a handler did when it returns; \<open>CS_Invariant\<close> and \<open>CS_Safety\<close> have the invariant
    and its preservation by every handler, and \<open>CS_Properties\<close> draws from it that no two votes or
    proposals are signed for one position, that height, round and step never go back, and that the
    chain state comes from validated blocks alone;
  \<^item> \<open>CS_Types\<close>: the fields of the round state stay in range, so that modelling \<open>int32\<close> rounds as
    integers loses nothing, and the locked and valid rounds fit their blocks;
  \<^item> \<open>CS_Panics\<close>: of the panics that guard what the source takes for impossible, those that no event can
    raise, and the nine that are left;
  \<^item> \<open>CS_Timeouts\<close>: the timeout a node waits for is never lost on its way through the ticker;
    \<open>CS_Votes\<close>: a proposer proposes, a proposal is prevoted, unless it waits for the prevotes it
    refers to, and a majority of prevotes locked and precommitted in the step that makes it possible; \<open>CS_Progress\<close> and \<open>Catch_Up\<close>: a majority of precommits, or the committed block of a peer that was
    asked, takes the node to the next height; \<open>CS_Lone\<close> joins these phases with the ticker and the
    internal queue: a lone validator makes a block with events of its own alone;
  \<^item> \<open>CS_Rules\<close> and \<open>CS_Commit_Rules\<close>: what each vote, lock and commit requires, handler by handler, on
    every branch.

  Of a network of nodes (\<open>CS_Evidence\<close>, \<open>CS_Locks\<close>, \<open>Network\<close>, \<open>Agreement\<close>): every handler keeps the
  locking discipline, the network refines an append-only ledger, and no two honest nodes commit
  different blocks at one height, when less than a third of the voting power is faulty.

  Of the other components: block validation equals its written-out conditions, and a faulty minority
  cannot move the median time (\<open>Block_Executor\<close>, \<open>Median_Time\<close>); the store has every height it reports
  (\<open>Block_Store\<close>); the ticker fires in order and holds the latest timeout (\<open>Timeout_Ticker\<close>); a
  service starts and stops once (\<open>Service\<close>); checked arithmetic is exact or panics (\<open>Safe_Math\<close>); what
  is signed verifies (\<open>Validator_Keys\<close>); votes, proposals, frames, powers and key files are read
  back as they were written (\<open>P2P_Codec\<close>, \<open>Node_Start\<close>, \<open>Command_Line\<close>, \<open>Devp2p\<close>); what gossip brings in the
  name of a correct node, that node has put out (\<open>Gossip\<close>); \<open>keygen\<close> locks, masks and generates before it
  writes (\<open>Command_Line\<close>); block sync trusts no peer, comes to an end, and catches up with a peer that
  answers (\<open>Block_Sync\<close>, \<open>Block_Sync_Progress\<close>); what \<open>runNode\<close> starts is a
  start of the state machine (\<open>Node_Start\<close>).

  Bounds and fuel. \<open>sync_heights\<close> gets as much fuel as there are heights to fetch, which
  \<open>sync_heights_ends\<close> shows to be enough below the last \<open>uint64\<close>; the rounds of \<open>block_sync_sync\<close> are
  bounded by the greatest height a peer reports (\<open>block_sync_ends\<close>). \<open>incrementPriorities\<close> ends within
  \<open>2 ^ 64\<close> iterations, as its \<open>uint64\<close> counter does. \<open>receiveRoutine\<close> runs over a list of events.
\<close>

section \<open>Assumptions of the model\<close>

text \<open>
  \<^item> A step of the system does not start at the last \<open>uint64\<close> height, so the height never wraps.
  \<^item> A handler runs to its end: the context is not cancelled while it does. After a panic the receive
    routine is over, and the state is dropped.
  \<^item> Each \<open>select\<close> case is one atomic event; sends on channels that are emptied by another goroutine do
    not wait, except on the internal queue, whose overflow is modelled, and on the channel from the
    send loop of the server to \<open>consensSyncRoutine\<close>, which has no buffer.
  \<^item> Time is abstract: a clock that may give any value at each reading, and an armed timer that may
    fire at any moment. Timeouts that fired may be received in any order.
  \<^item> Of gossip only this is relied on, and only in \<open>Gossip\<close>: an envelope that names a correct node as its
    sender carries data which that node has published. It may be lost, late, repeated or out of order.
  \<^item> Agreement is about nodes that start from the genesis state and do not restart: the private
    validator keeps no record of what it signed, and the database is opened only when it is new.
\<close>

section \<open>Not modelled\<close>

text \<open>
  \<^item> What \<open>cobra\<close> and \<open>viper\<close> do with arguments and configuration files: parameters of \<open>Command_Line\<close>.
  \<^item> The options of the libp2p host in \<open>NewP2PServer\<close>, the set-up of the devp2p server in \<open>RunDevp2p\<close>,
    metrics, logging, contexts and \<open>Wait\<close>: they have no effect on the modelled state.
  \<^item> The hooks for tests (\<open>decideProposal\<close>, \<open>doPrevote\<close>, \<open>setProposal\<close>, \<open>SetTimeoutTicker\<close>,
    \<open>startRoutines\<close>): the model has the defaults.
  \<^item> Tests and the packages the repository imports.
\<close>

end
